(* ===== verification/Prelude.thy ===== *)
theory Prelude
  imports Main "HOL-Library.Finite_Map" "HOL-Library.Word" "HOL-Library.List_Lexorder"
    "HOL-Library.Char_ord" "HOL-Library.Multiset"
begin

section \<open>Shared notions: panics, errors, Go maps and loops\<close>

text \<open>
  This theory holds what every component of the limiter shares.
  \<^item> \<open>go\<close>: the outcome of Go code that may panic at run time (\<open>Inl\<close> the panic,
    \<open>Inr\<close> the value), with sequencing \<open>gbind\<close> and the two loop shapes
    \<open>gmap\<close> (append one result per element) and \<open>gfold\<close> (update a state per element).
  \<^item> \<open>goerror\<close>: a non-nil Go error; the only thing the code asks of an error is whether the
    API server said "not found".
  \<^item> \<open>slice\<close>: a Go slice, \<open>None\<close> for nil, so that a nil and an empty slice differ as they
    do under \<open>reflect.DeepEqual\<close>.
  \<^item> Go maps are finite maps; a nil map is \<open>None\<close>, and writing to it is the panic
    \<open>NilMapWrite\<close>.
  \<^item> \<open>range\<close> over a map visits the keys in an order the language leaves open. A
    \<open>chooser\<close> supplies the order; it can be split, so that every \<open>range\<close> statement that
    is executed gets an order of its own.
  \<^item> the locale \<open>multimap\<close>: the interface of the grouping maps (append a value under a
    key), interpreted on the code's own "absent, then make; else append" update.
\<close>

named_theorems go_total \<open>when Go code returns: conditions under which an operation does not panic\<close>

subsection \<open>Panics and sequencing\<close>

datatype go_panic = NilDereference | NilMapWrite | IndexOutOfRange | TypeAssertion

type_synonym 'a go = "go_panic + 'a"

fun gbind :: "'a go \<Rightarrow> ('a \<Rightarrow> 'b go) \<Rightarrow> 'b go" where
  "gbind (Inl p) f = Inl p"
| "gbind (Inr x) f = f x"

lemma gbind_Inr_iff [simp]: "gbind m f = Inr y \<longleftrightarrow> (\<exists>x. m = Inr x \<and> f x = Inr y)"
  by (cases m) auto

lemma gbind_Inl_iff:
  "gbind m f = Inl p \<longleftrightarrow> m = Inl p \<or> (\<exists>x. m = Inr x \<and> f x = Inl p)"
  by (cases m) auto

lemma not_Inl_iff: "(\<forall>p. m \<noteq> Inl p) \<longleftrightarrow> (\<exists>x. m = Inr x)"
  by (cases m) auto

text \<open>Dereferencing a pointer.\<close>

fun deref :: "'a option \<Rightarrow> 'a go" where
  "deref None = Inl NilDereference"
| "deref (Some x) = Inr x"

lemma deref_Inr_iff [simp]: "deref p = Inr x \<longleftrightarrow> p = Some x"
  by (cases p) auto

subsection \<open>Loops over slices\<close>

fun gmap :: "('a \<Rightarrow> 'b go) \<Rightarrow> 'a list \<Rightarrow> 'b list go" where
  "gmap f [] = Inr []"
| "gmap f (x # xs) = gbind (f x) (\<lambda>y. gbind (gmap f xs) (\<lambda>ys. Inr (y # ys)))"

lemma gmap_Inr_iff: "gmap f xs = Inr ys \<longleftrightarrow> list_all2 (\<lambda>x y. f x = Inr y) xs ys"
  by (induction xs arbitrary: ys) (auto simp: list_all2_Cons1)

lemma gmap_total: "(\<And>x. x \<in> set xs \<Longrightarrow> f x = Inr (g x)) \<Longrightarrow> gmap f xs = Inr (map g xs)"
  by (induction xs) auto

lemma gmap_set: "gmap f xs = Inr ys \<Longrightarrow> set ys = {y. \<exists>x \<in> set xs. f x = Inr y}"
  by (induction xs arbitrary: ys) auto

lemma gmap_ex_Inr_iff [go_total]: "(\<exists>ys. gmap f xs = Inr ys) \<longleftrightarrow> (\<forall>x \<in> set xs. \<exists>y. f x = Inr y)"
  by (induction xs) auto

lemma gmap_cong [fundef_cong]:
  "xs = ys \<Longrightarrow> (\<And>x. x \<in> set ys \<Longrightarrow> f x = g x) \<Longrightarrow> gmap f xs = gmap g ys"
  by (induction ys arbitrary: xs) auto

fun gfold :: "('a \<Rightarrow> 's \<Rightarrow> 's go) \<Rightarrow> 'a list \<Rightarrow> 's \<Rightarrow> 's go" where
  "gfold f [] s = Inr s"
| "gfold f (x # xs) s = gbind (f x s) (gfold f xs)"

lemma gfold_append: "gfold f (xs @ ys) s = gbind (gfold f xs s) (gfold f ys)"
proof (induction xs arbitrary: s)
  case (Cons x xs)
  then show ?case by (cases "f x s") auto
qed simp

text \<open>An invariant that every iteration keeps holds after the loop.\<close>

subsection \<open>Errors\<close>

datatype goerror = NotFoundError string | OtherError string

fun IsNotFound :: "goerror \<Rightarrow> bool" where
  "IsNotFound (NotFoundError _) = True"
| "IsNotFound (OtherError _) = False"

subsection \<open>Slices and maps\<close>

type_synonym 'a slice = "'a list option"

fun elems :: "'a slice \<Rightarrow> 'a list" where
  "elems None = []"
| "elems (Some xs) = xs"

type_synonym 'v gomap = "(string, 'v) fmap option"

text \<open>Reading a missing key, or a nil map, gives the absent value; writing a nil map panics.\<close>

fun map_get :: "'v gomap \<Rightarrow> string \<Rightarrow> 'v option" where
  "map_get None k = None"
| "map_get (Some m) k = fmlookup m k"

fun map_set :: "string \<Rightarrow> 'v \<Rightarrow> 'v gomap \<Rightarrow> 'v gomap go" where
  "map_set k v None = Inl NilMapWrite"
| "map_set k v (Some m) = Inr (Some (fmupd k v m))"

text \<open>The content of a map, nil or not.\<close>

fun map_items :: "'v gomap \<Rightarrow> (string, 'v) fmap" where
  "map_items None = fmempty"
| "map_items (Some m) = m"

lemma fmlookup_map_items [simp]: "fmlookup (map_items m) k = map_get m k"
  by (cases m) auto

subsection \<open>The order of a range over a map\<close>

type_synonym chooser = "bool list \<Rightarrow> string fset \<Rightarrow> string list"

definition fair :: "chooser \<Rightarrow> bool" where
  "fair ch \<longleftrightarrow> (\<forall>p S. distinct (ch p S) \<and> set (ch p S) = fset S)"

definition ch_left :: "chooser \<Rightarrow> chooser" where
  "ch_left ch = (\<lambda>p. ch (True # p))"

definition ch_right :: "chooser \<Rightarrow> chooser" where
  "ch_right ch = (\<lambda>p. ch (False # p))"

definition go_range :: "chooser \<Rightarrow> (string, 'v) fmap \<Rightarrow> (string \<times> 'v) list" where
  "go_range ch m = List.map_filter (\<lambda>k. map_option (Pair k) (fmlookup m k)) (ch [] (fmdom m))"

lemma fair_ch_left [simp, intro]: "fair ch \<Longrightarrow> fair (ch_left ch)"
  by (simp add: fair_def ch_left_def)

lemma fair_ch_right [simp, intro]: "fair ch \<Longrightarrow> fair (ch_right ch)"
  by (simp add: fair_def ch_right_def)

lemma go_range_map:
  assumes "fair ch"
  shows "go_range ch m = map (\<lambda>k. (k, the (fmlookup m k))) (ch [] (fmdom m))"
proof -
  have "set ks \<subseteq> fset (fmdom m) \<Longrightarrow>
      List.map_filter (\<lambda>k. map_option (Pair k) (fmlookup m k)) ks
        = map (\<lambda>k. (k, the (fmlookup m k))) ks" for ks
    by (induction ks) (auto simp: map_filter_simps)
  with assms show ?thesis by (simp add: go_range_def fair_def)
qed

lemma set_go_range [simp]:
  assumes "fair ch"
  shows "set (go_range ch m) = {(k, v). fmlookup m k = Some v}"
  using assms by (force simp: go_range_map fair_def image_iff fmlookup_dom_iff)

lemma map_fst_go_range: "fair ch \<Longrightarrow> map fst (go_range ch m) = ch [] (fmdom m)"
  by (simp add: go_range_map comp_def)

lemma distinct_fst_go_range [simp]: "fair ch \<Longrightarrow> distinct (map fst (go_range ch m))"
  by (simp add: map_fst_go_range fair_def)

lemma go_range_empty [simp]: "fair ch \<Longrightarrow> go_range ch fmempty = []"
  by (simp add: go_range_map) (metis fair_def fset_simps(1) set_empty)

lemma fair_singleton:
  assumes "fair ch"
  shows "ch p {|k|} = [k]"
proof -
  have d: "distinct (ch p {|k|})" "set (ch p {|k|}) = {k}"
    using assms unfolding fair_def by (metis fset_simps)+
  then have "length (ch p {|k|}) = 1" using distinct_card [OF d(1)] by simp
  then obtain x where "ch p {|k|} = [x]" by (auto simp: length_Suc_conv)
  with d(2) show ?thesis by simp
qed

lemma go_range_single: "fair ch \<Longrightarrow> go_range ch (fmupd k v fmempty) = [(k, v)]"
  by (simp add: go_range_map fair_singleton)

text \<open>The orders of the iterations of a loop, each with a chooser of its own.\<close>

definition nth_chooser :: "chooser \<Rightarrow> nat \<Rightarrow> chooser" where
  "nth_chooser ch i = ch_left ((ch_right ^^ i) ch)"

lemma nth_chooser_0: "nth_chooser ch 0 = ch_left ch"
  by (simp add: nth_chooser_def)

lemma nth_chooser_Suc: "nth_chooser ch (Suc i) = nth_chooser (ch_right ch) i"
  by (simp add: nth_chooser_def funpow_swap1)

lemma fair_nth_chooser: "fair ch \<Longrightarrow> fair (nth_chooser ch i)"
proof -
  assume "fair ch"
  then have "fair ((ch_right ^^ i) ch)" by (induction i) auto
  then show ?thesis by (simp add: nth_chooser_def)
qed

text \<open>
  Two choosers for examples: the keys in ascending and in descending order.
\<close>

definition ascending :: chooser where
  "ascending = (\<lambda>_ S. sorted_list_of_fset S)"

definition descending :: chooser where
  "descending = (\<lambda>_ S. rev (sorted_list_of_fset S))"

lemma fair_ascending [simp]: "fair ascending"
  by (simp add: fair_def ascending_def sorted_list_of_fset.rep_eq)

lemma fair_descending [simp]: "fair descending"
  by (simp add: fair_def descending_def sorted_list_of_fset.rep_eq)

lemma split_ascending [simp]: "ch_left ascending = ascending" "ch_right ascending = ascending"
  by (simp_all add: ch_left_def ch_right_def ascending_def)

lemma split_descending [simp]: "ch_left descending = descending" "ch_right descending = descending"
  by (simp_all add: ch_left_def ch_right_def descending_def)

text \<open>
  The assignments \<open>m[k] = v\<close> for all items of another map do not depend on the order in
  which the items are visited.
\<close>

fun put_all :: "(string \<times> 'v) list \<Rightarrow> (string, 'v) fmap \<Rightarrow> (string, 'v) fmap" where
  "put_all [] m = m"
| "put_all ((k, v) # kvs) m = put_all kvs (fmupd k v m)"

lemma fmlookup_put_all:
  "distinct (map fst kvs) \<Longrightarrow>
    fmlookup (put_all kvs m) k = (case map_of kvs k of None \<Rightarrow> fmlookup m k | Some v \<Rightarrow> Some v)"
proof (induction kvs m rule: put_all.induct)
  case (2 k' v kvs m)
  then have "map_of kvs k' = None" by (simp add: map_of_eq_None_iff)
  with 2 show ?case by (cases "k = k'") (auto split: option.split)
qed simp

lemma map_of_go_range [simp]: "fair ch \<Longrightarrow> map_of (go_range ch m) k = fmlookup m k"
proof (cases "fmlookup m k")
  case None
  assume "fair ch"
  with None show ?thesis by (force simp: map_of_eq_None_iff)
next
  case (Some v)
  assume "fair ch"
  with Some show ?thesis by (simp add: map_of_eq_Some_iff)
qed

lemma put_all_go_range [simp]: "fair ch \<Longrightarrow> put_all (go_range ch n) m = m ++\<^sub>f n"
  by (rule fmap_ext) (auto simp: fmlookup_put_all fmlookup_dom_iff split: option.splits)

subsection \<open>Grouping maps\<close>

text \<open>
  The interface of a grouping map: values are appended under a key, and reading a key gives
  the values in the order in which they were appended. Building such a map in a loop selects,
  for each key, the subsequence of the values that were appended under it.
\<close>

locale multimap =
  fixes empty :: "'m"
    and add :: "'k \<Rightarrow> 'v \<Rightarrow> 'm \<Rightarrow> 'm"
    and get :: "'m \<Rightarrow> 'k \<Rightarrow> 'v list"
  assumes get_empty: "get empty k = []"
    and get_add: "get (add k v m) k' = (if k = k' then get m k @ [v] else get m k')"
begin

lemma get_fold:
  "get (fold (\<lambda>(k, v). add k v) kvs m) k = get m k @ map snd (filter (\<lambda>(k', v). k' = k) kvs)"
  by (induction kvs arbitrary: m) (auto simp: get_add)

lemma get_build:
  "get (fold (\<lambda>(k, v). add k v) kvs empty) k = map snd (filter (\<lambda>(k', v). k' = k) kvs)"
  by (simp add: get_fold get_empty)

lemma add_commute_get:
  "k \<noteq> k' \<Longrightarrow> get (add k v (add k' v' m)) i = get (add k' v' (add k v m)) i"
  by (auto simp: get_add)

end

text \<open>The code's update: a new singleton slice for a new key, else append to the old one.\<close>

definition append_under :: "string \<Rightarrow> 'v \<Rightarrow> (string, 'v list) fmap \<Rightarrow> (string, 'v list) fmap" where
  "append_under k v m =
     (case fmlookup m k of None \<Rightarrow> fmupd k [v] m | Some vs \<Rightarrow> fmupd k (vs @ [v]) m)"

definition values_under :: "(string, 'v list) fmap \<Rightarrow> string \<Rightarrow> 'v list" where
  "values_under m k = elems (fmlookup m k)"

interpretation groups: multimap fmempty append_under values_under
  by unfold_locales (auto simp: append_under_def values_under_def split: option.splits)

definition group_all :: "(string \<times> 'v) list \<Rightarrow> (string, 'v list) fmap" where
  "group_all kvs = fold (\<lambda>(k, v). append_under k v) kvs fmempty"

lemma fmdom_append_under [simp]: "fmdom (append_under k v m) = finsert k (fmdom m)"
  by (auto simp: append_under_def split: option.splits)

lemma fmdom_fold_append_under:
  "fmdom (fold (\<lambda>(k, v). append_under k v) kvs m) = fmdom m |\<union>| fset_of_list (map fst kvs)"
  by (induction kvs arbitrary: m) auto

lemma fmdom_group_all [simp]: "fmdom (group_all kvs) = fset_of_list (map fst kvs)"
  by (simp add: group_all_def fmdom_fold_append_under)

lemma fmlookup_group_all:
  "fmlookup (group_all kvs) k =
     (if k \<in> fst ` set kvs then Some (map snd (filter (\<lambda>(k', v). k' = k) kvs)) else None)"
proof -
  have "elems (fmlookup (group_all kvs) k) = map snd (filter (\<lambda>(k', v). k' = k) kvs)"
    using groups.get_build [of kvs k] by (simp add: group_all_def values_under_def)
  moreover have "fmlookup (group_all kvs) k = None \<longleftrightarrow> k \<notin> fst ` set kvs"
    using fmdom_group_all [of kvs]
    by (metis fmdom_notI fmlookup_dom_iff fset_of_list_elem list.set_map option.exhaust)
  ultimately show ?thesis by (cases "fmlookup (group_all kvs) k") auto
qed

lemma group_all_nonempty: "fmlookup (group_all kvs) k = Some vs \<Longrightarrow> vs \<noteq> []"
  by (force simp: fmlookup_group_all filter_empty_conv split: if_splits)

lemma group_all_Nil [simp]: "group_all [] = fmempty"
  by (simp add: group_all_def)

end
