(* ===== verification/GoLib.thy ===== *)
theory GoLib
  imports Prelude
begin

section \<open>The Go standard library the limiter uses\<close>

text \<open>
  Strings are byte sequences (\<open>char list\<close>), as in Go. Modelled here: the functions of
  \<open>strings\<close> (Split on a one-byte separator, Join, Contains, ReplaceAll), \<open>fmt\<close> with the
  verb \<open>%d\<close>, \<open>strconv.Atoi\<close> on 64-bit integers, with the values it returns next to an
  error, and \<open>adler32.Checksum\<close> of \<open>hash/adler32\<close>.
\<close>

subsection \<open>strings\<close>

fun strings_Split :: "char \<Rightarrow> string \<Rightarrow> string list" where
  "strings_Split c [] = [[]]"
| "strings_Split c (x # xs) =
     (if x = c then [] # strings_Split c xs
      else (case strings_Split c xs of [] \<Rightarrow> [[x]] | p # ps \<Rightarrow> (x # p) # ps))"

fun strings_Join :: "string list \<Rightarrow> string \<Rightarrow> string" where
  "strings_Join [] sep = []"
| "strings_Join [p] sep = p"
| "strings_Join (p # q # ps) sep = p @ sep @ strings_Join (q # ps) sep"

fun has_prefix :: "string \<Rightarrow> string \<Rightarrow> bool" where
  "has_prefix s [] = True"
| "has_prefix [] (y # ys) = False"
| "has_prefix (x # xs) (y # ys) = (x = y \<and> has_prefix xs ys)"

fun strings_Contains :: "string \<Rightarrow> string \<Rightarrow> bool" where
  "strings_Contains [] sub = (sub = [])"
| "strings_Contains (x # xs) sub = (has_prefix (x # xs) sub \<or> strings_Contains xs sub)"

text \<open>The replaced string is never empty where the code calls this.\<close>

function strings_ReplaceAll :: "string \<Rightarrow> string \<Rightarrow> string \<Rightarrow> string" where
  "strings_ReplaceAll [] old new = []"
| "strings_ReplaceAll (x # xs) old new =
     (if old \<noteq> [] \<and> has_prefix (x # xs) old
      then new @ strings_ReplaceAll (drop (length old) (x # xs)) old new
      else x # strings_ReplaceAll xs old new)"
  by pat_completeness auto
termination
proof (relation "measure (\<lambda>(s, _, _). length s)", goal_cases)
  case (2 x xs old new)
  then show ?case by (cases old) auto
qed auto

lemma strings_Split_not_Nil [simp]: "strings_Split c s \<noteq> []"
  by (induction s) (auto split: list.splits)

lemma Join_Split: "strings_Join (strings_Split c s) [c] = s"
proof (induction s)
  case (Cons x xs)
  then show ?case
    by (cases "strings_Split c xs"; cases "tl (strings_Split c xs)") auto
qed simp

lemma length_Split: "length (strings_Split c s) = Suc (count_list s c)"
  by (induction s) (auto split: list.splits)

lemma Split_no_sep: "p \<in> set (strings_Split c s) \<Longrightarrow> c \<notin> set p"
  by (induction s arbitrary: p) (auto split: list.splits if_splits)

lemma Split_single: "c \<notin> set s \<Longrightarrow> strings_Split c s = [s]"
  by (induction s) auto

lemma Split_append_sep:
  "c \<notin> set a \<Longrightarrow> strings_Split c (a @ c # b) = a # strings_Split c b"
  by (induction a) auto

lemma Split_pair: "c \<notin> set a \<Longrightarrow> c \<notin> set b \<Longrightarrow> strings_Split c (a @ c # b) = [a, b]"
  by (simp add: Split_append_sep Split_single)

lemma Split_eq_pair_iff:
  "strings_Split c s = [a, b] \<longleftrightarrow> s = a @ c # b \<and> c \<notin> set a \<and> c \<notin> set b"
proof
  assume *: "strings_Split c s = [a, b]"
  then have "s = a @ c # b" using Join_Split [of c s] by simp
  with * show "s = a @ c # b \<and> c \<notin> set a \<and> c \<notin> set b"
    using Split_no_sep [of _ c s] by auto
qed (simp add: Split_pair)

lemma has_prefix_iff: "has_prefix s p \<longleftrightarrow> (\<exists>t. s = p @ t)"
  by (induction s p rule: has_prefix.induct) auto

lemma strings_Contains_iff: "strings_Contains s sub \<longleftrightarrow> (\<exists>u v. s = u @ sub @ v)"
proof (induction s)
  case (Cons x xs)
  show ?case
  proof
    assume "strings_Contains (x # xs) sub"
    then consider "has_prefix (x # xs) sub" | "strings_Contains xs sub" by auto
    then show "\<exists>u v. x # xs = u @ sub @ v"
    proof cases
      case 1
      then show ?thesis by (auto simp: has_prefix_iff intro: exI [of _ "[]"])
    next
      case 2
      with Cons.IH obtain u v where "xs = u @ sub @ v" by auto
      then have "x # xs = (x # u) @ sub @ v" by simp
      then show ?thesis by blast
    qed
  next
    assume "\<exists>u v. x # xs = u @ sub @ v"
    then obtain u v where uv: "x # xs = u @ sub @ v" by blast
    show "strings_Contains (x # xs) sub"
    proof (cases u)
      case Nil
      with uv have "has_prefix (x # xs) sub" by (auto simp: has_prefix_iff)
      then show ?thesis by simp
    next
      case (Cons y ys)
      with uv have "xs = ys @ sub @ v" by simp
      with Cons.IH show ?thesis by auto
    qed
  qed
qed simp

lemma strings_Contains_refl [simp]: "strings_Contains s s"
  by (auto simp: strings_Contains_iff intro: exI [of _ "[]"])

lemma ReplaceAll_idle: "\<not> strings_Contains s old \<Longrightarrow> strings_ReplaceAll s old new = s"
  by (induction s) auto

subsection \<open>fmt and strconv\<close>

definition digit_char :: "nat \<Rightarrow> char" where
  "digit_char d = char_of (48 + d)"

definition is_digit :: "char \<Rightarrow> bool" where
  "is_digit c \<longleftrightarrow> 48 \<le> (of_char c :: nat) \<and> (of_char c :: nat) \<le> 57"

definition digit_val :: "char \<Rightarrow> nat" where
  "digit_val c = of_char c - 48"

fun fmt_nat :: "nat \<Rightarrow> string" where
  "fmt_nat n = (if n < 10 then [digit_char n] else fmt_nat (n div 10) @ [digit_char (n mod 10)])"

declare fmt_nat.simps [simp del]

definition fmt_int :: "int \<Rightarrow> string" where
  "fmt_int i = (if i < 0 then CHR ''-'' # fmt_nat (nat (- i)) else fmt_nat (nat i))"

text \<open>\<open>ParseUint\<close> in base 10: the overflow tests of the loop come before the next byte is read.\<close>

datatype parsed = Parsed nat | SyntaxErr | RangeErr

fun ParseUint_loop :: "nat \<Rightarrow> string \<Rightarrow> parsed" where
  "ParseUint_loop n [] = Parsed n"
| "ParseUint_loop n (c # cs) =
     (if \<not> is_digit c then SyntaxErr
      else if 1844674407370955162 \<le> n then RangeErr
      else let n1 = n * 10 + digit_val c
           in if 18446744073709551616 \<le> n1 then RangeErr else ParseUint_loop n1 cs)"

definition ParseUint :: "string \<Rightarrow> parsed" where
  "ParseUint s = (if s = [] then SyntaxErr else ParseUint_loop 0 s)"

definition Atoi :: "string \<Rightarrow> 64 word \<times> goerror option" where
  "Atoi s =
     (let neg = has_prefix s ''-'';
          ds = (if has_prefix s ''-'' \<or> has_prefix s ''+'' then drop 1 s else s)
      in case ParseUint ds of
           SyntaxErr \<Rightarrow> (0, Some (OtherError ''invalid syntax''))
         | RangeErr \<Rightarrow> (if neg then word_of_int (- (2 ^ 63)) else word_of_int (2 ^ 63 - 1),
                        Some (OtherError ''value out of range''))
         | Parsed un \<Rightarrow>
             if \<not> neg \<and> 2 ^ 63 \<le> un
             then (word_of_int (2 ^ 63 - 1), Some (OtherError ''value out of range''))
             else if neg \<and> 2 ^ 63 < un
             then (word_of_int (- (2 ^ 63)), Some (OtherError ''value out of range''))
             else (word_of_int (if neg then - int un else int un), None))"

lemma of_char_digit_char: "d < 10 \<Longrightarrow> (of_char (digit_char d) :: nat) = 48 + d"
  by (simp add: digit_char_def)

lemma is_digit_digit_char [simp]: "d < 10 \<Longrightarrow> is_digit (digit_char d)"
  by (simp add: is_digit_def of_char_digit_char)

lemma digit_val_digit_char [simp]: "d < 10 \<Longrightarrow> digit_val (digit_char d) = d"
  by (simp add: digit_val_def of_char_digit_char)

lemma fmt_nat_digits: "c \<in> set (fmt_nat n) \<Longrightarrow> is_digit c"
proof (induction n rule: fmt_nat.induct)
  case (1 n)
  then show ?case by (cases "n < 10") (auto simp: fmt_nat.simps [of n])
qed

lemma fmt_nat_not_Nil [simp]: "fmt_nat n \<noteq> []"
  by (simp add: fmt_nat.simps [of n])

lemma ParseUint_loop_fmt_nat:
  "m < 18446744073709551616 \<Longrightarrow> ParseUint_loop 0 (fmt_nat m @ cs) = ParseUint_loop m cs"
proof (induction m arbitrary: cs rule: fmt_nat.induct)
  case (1 m)
  show ?case
  proof (cases "m < 10")
    case True
    then show ?thesis by (simp add: fmt_nat.simps [of m])
  next
    case False
    from "1.prems" have "m div 10 < 1844674407370955162" by linarith
    with False "1.prems" "1.IH" [OF False, of "digit_char (m mod 10) # cs"] show ?thesis
      by (simp add: fmt_nat.simps [of m])
  qed
qed

lemma ParseUint_fmt_nat: "m < 18446744073709551616 \<Longrightarrow> ParseUint (fmt_nat m) = Parsed m"
  using ParseUint_loop_fmt_nat [of m "[]"] by (simp add: ParseUint_def)

lemma fmt_nat_no_sign:
  "\<not> has_prefix (fmt_nat n) ''-''" "\<not> has_prefix (fmt_nat n) ''+''"
proof -
  obtain c cs where c: "fmt_nat n = c # cs" by (cases "fmt_nat n") auto
  then have "is_digit c" using fmt_nat_digits [of c n] by simp
  then have "c \<noteq> CHR ''-''" "c \<noteq> CHR ''+''" by (auto simp: is_digit_def)
  with c show "\<not> has_prefix (fmt_nat n) ''-''" "\<not> has_prefix (fmt_nat n) ''+''" by auto
qed

text \<open>Printing a 64-bit integer with \<open>%d\<close> and reading it back with \<open>Atoi\<close> gives it back.\<close>

lemma Atoi_fmt_int: "Atoi (fmt_int (sint (w :: 64 word))) = (w, None)"
proof -
  have range: "- 9223372036854775808 \<le> sint w" "sint w < 9223372036854775808"
    using sint_range_size [of w] by (simp_all add: word_size)
  show ?thesis
  proof (cases "sint w < 0")
    case True
    then have "ParseUint (fmt_nat (nat (- sint w))) = Parsed (nat (- sint w))"
      using range by (intro ParseUint_fmt_nat) linarith
    with True range show ?thesis by (simp add: Atoi_def fmt_int_def)
  next
    case False
    then have "ParseUint (fmt_nat (nat (sint w))) = Parsed (nat (sint w))"
      using range by (intro ParseUint_fmt_nat) linarith
    with False range show ?thesis by (simp add: Atoi_def fmt_int_def fmt_nat_no_sign)
  qed
qed

subsection \<open>hash/adler32\<close>

definition adler_step :: "char \<Rightarrow> nat \<times> nat \<Rightarrow> nat \<times> nat" where
  "adler_step c = (\<lambda>(a, b). let a' = (a + of_char c) mod 65521 in (a', (b + a') mod 65521))"

definition adler32_Checksum :: "string \<Rightarrow> 32 word" where
  "adler32_Checksum s = (case fold adler_step s (1, 0) of (a, b) \<Rightarrow> word_of_nat (b * 65536 + a))"

lemma adler_fold_bounds:
  "fst p < 65521 \<Longrightarrow> snd p < 65521 \<Longrightarrow>
     fst (fold adler_step s p) < 65521 \<and> snd (fold adler_step s p) < 65521"
  by (induction s arbitrary: p) (auto simp: adler_step_def Let_def split: prod.splits)

lemma adler_step_mod:
  "adler_step c (m mod 65521, n mod 65521) = ((m + of_char c) mod 65521, (n + (m + of_char c)) mod 65521)"
  by (simp add: adler_step_def Let_def mod_simps) (metis add.left_commute mod_add_left_eq)

lemma adler_three:
  "fold adler_step [x, y, z] (a, b) =
     ((a + of_char x + of_char y + of_char z) mod 65521,
      (b + 3 * a + 3 * of_char x + 2 * of_char y + of_char z) mod 65521)"
proof -
  have "adler_step x (a, b) = ((a + of_char x) mod 65521, (b + (a + of_char x)) mod 65521)"
    by (simp add: adler_step_def Let_def mod_simps)
  then show ?thesis
    by (simp add: adler_step_mod) (rule arg_cong [where f = "\<lambda>t. t mod 65521"], simp)
qed

text \<open>Raising the first and the third of three bytes by one and lowering the second by two.\<close>

lemma adler32_collision:
  assumes "of_char x' = of_char x + (1 :: nat)" "of_char y = of_char y' + (2 :: nat)"
    and "of_char z' = of_char z + (1 :: nat)"
  shows "adler32_Checksum (u @ [x, y, z] @ v) = adler32_Checksum (u @ [x', y', z'] @ v)"
proof -
  obtain a b where "fold adler_step u (1, 0) = (a, b)" by fastforce
  moreover have "fold adler_step [x, y, z] (a, b) = fold adler_step [x', y', z'] (a, b)"
    unfolding adler_three by (simp add: assms algebra_simps)
  ultimately show ?thesis by (simp add: adler32_Checksum_def)
qed

end
