(* ===== verification/ApiTypes.thy ===== *)
theory ApiTypes
  imports GoLib
begin

section \<open>The SmartLimiter API and the data the limiter builds\<close>

text \<open>
  The messages of \<open>api/v1alpha2/smart_limiter.pb.go\<close> and the object of
  \<open>smartlimiter_types.go\<close>, the rate-limit-service configuration of \<open>model/model.go\<close>, the
  constants of \<open>model/const.go\<close>, and the Envoy, Istio and Kubernetes structures the code
  fills in (only the fields it sets or reads). A pointer that can be nil is an option; the
  elements of a slice of pointers of user input are options too, since JSON can hold
  \<open>null\<close> there. \<open>int32\<close> and \<open>int64\<close> are words read with \<open>sint\<close>. The
  bookkeeping fields \<open>XXX_...\<close> of generated messages are left out.
\<close>

subsection \<open>SmartLimiter\<close>

record Duration =
  Seconds :: "64 word"
  Nanos :: "32 word"

record HeaderMatcher =
  HM_Name :: string
  HM_RegexMatch :: string
  HM_ExactMatch :: string
  HM_PrefixMatch :: string
  HM_SuffixMatch :: string
  HM_PresentMatch :: bool
  HM_InvertMatch :: bool
  HM_IsExactMatchEmpty :: bool

record SL_Action =
  Quota :: string
  FillInterval :: "Duration option"
  Strategy :: string

record SL_Target =
  Direction :: string
  Port :: "32 word"
  Route :: "string slice"
  Host :: "string slice"

record SmartLimitDescriptor =
  Condition :: string
  Action :: "SL_Action option"
  Match :: "HeaderMatcher option slice"
  Target :: "SL_Target option"
  CustomKey :: string
  CustomValue :: string

record SmartLimitDescriptors =
  Descriptor_items :: "SmartLimitDescriptor option slice"

record SmartLimiterSpec =
  Sets :: "SmartLimitDescriptors option gomap"
  Rls :: string

record SmartLimiterStatus =
  RatelimitStatus :: "SmartLimitDescriptors option gomap"
  MetricStatus :: "string gomap"

record NamespacedName =
  NN_Namespace :: string
  NN_Name :: string

record SmartLimiter =
  SL_Name :: string
  SL_Namespace :: string
  SL_Labels :: "string gomap"
  SL_Spec :: SmartLimiterSpec
  SL_Status :: SmartLimiterStatus

subsection \<open>model/model.go and model/const.go\<close>

record RateLimit =
  RequestsPerUnit :: "32 word"
  Unit :: string

record Descriptor =
  Key :: string
  Value :: string
  Descriptor_RateLimit :: "RateLimit option"

record RateLimitConfig =
  RLC_Domain :: string
  RLC_Descriptors :: "Descriptor option list"

definition ConfigMapName :: string where "ConfigMapName = ''slime-rate-limit-config''"
definition ConfigMapNamespace :: string where "ConfigMapNamespace = ''istio-system''"
definition ConfigMapConfig :: string where "ConfigMapConfig = ''config.yaml''"
definition GenericKeyName :: string where "GenericKeyName = ''generic_key''"
definition HeaderValueMatchName :: string where "HeaderValueMatchName = ''header_match''"
definition DomainName :: string where "DomainName = ''slime''"
definition Inbound :: string where "Inbound = ''inbound''"
definition Outbound :: string where "Outbound = ''outbound''"
definition AllowAllPort :: string where "AllowAllPort = ''''"
definition GlobalSmartLimiter :: string where "GlobalSmartLimiter = ''global''"
definition RateLimitService :: string where
  "RateLimitService = ''outbound|18081||rate-limit.istio-system.svc.cluster.local''"
definition TypeUrlEnvoyRateLimit :: string where
  "TypeUrlEnvoyRateLimit =
     ''type.googleapis.com/envoy.extensions.filters.http.ratelimit.v3.RateLimit''"
definition StructDomain :: string where "StructDomain = ''domain''"
definition StructRateLimitService :: string where "StructRateLimitService = ''rate_limit_service''"
definition TypePerFilterConfig :: string where
  "TypePerFilterConfig = ''typed_per_filter_config''"
definition EnvoyFiltersHttpRateLimit :: string where
  "EnvoyFiltersHttpRateLimit = ''envoy.filters.http.ratelimit''"
definition InboundDefaultRoute :: string where "InboundDefaultRoute = ''default''"

subsection \<open>Envoy messages\<close>

datatype regex_engine = GoogleRe2

datatype header_match_specifier =
    SafeRegexMatch regex_engine string
  | ExactMatch string
  | PrefixMatch string
  | SuffixMatch string
  | PresentMatch bool

record envoy_HeaderMatcher =
  EH_Name :: string
  EH_InvertMatch :: bool
  EH_Specifier :: header_match_specifier

datatype RateLimit_Action =
    GenericKey (DescriptorValue: string)
  | HeaderValueMatch (DescriptorValue: string) (Headers: "envoy_HeaderMatcher list")

record envoy_RateLimit =
  Actions :: "RateLimit_Action option list"

record envoy_Route =
  RateLimits :: "envoy_RateLimit list"

record envoy_Duration =
  D_Seconds :: "64 word"
  D_Nanos :: "32 word"

record TokenBucket =
  MaxTokens :: "32 word"
  TB_FillInterval :: envoy_Duration
  TokensPerFill :: "32 word"

record Descriptor_Entry =
  Entry_Key :: string
  Entry_Value :: string

record LocalRateLimitDescriptor =
  Entries :: "Descriptor_Entry list"
  LD_TokenBucket :: TokenBucket

datatype denominator_type = HUNDRED | TEN_THOUSAND | MILLION

record RuntimeFractionalPercent =
  RuntimeKey :: string
  Numerator :: "32 word"
  Denominator :: denominator_type

record LocalRateLimit =
  StatPrefix :: string
  LR_TokenBucket :: "TokenBucket option"
  LR_Descriptors :: "LocalRateLimitDescriptor list"
  FilterEnabled :: "RuntimeFractionalPercent option"
  FilterEnforced :: "RuntimeFractionalPercent option"

datatype api_version = ApiVersion_AUTO | ApiVersion_V2 | ApiVersion_V3

record RateLimitServiceConfig =
  ClusterName :: string
  TransportApiVersion :: api_version

datatype envoy_message =
    RouteMessage envoy_Route
  | LocalRateLimitMessage LocalRateLimit
  | RateLimitServiceMessage RateLimitServiceConfig

subsection \<open>Protobuf structs and Istio's EnvoyFilter\<close>

datatype pbvalue =
    NullValue
  | BoolValue bool
  | NumberValue "64 word" \<comment> \<open>the bits of the float\<close>
  | StringValue string
  | ListValue "pbvalue list"
  | StructValue "(string, pbvalue) fmap"

type_synonym pbstruct = "(string, pbvalue) fmap"

datatype apply_to = HTTP_ROUTE | HTTP_FILTER
datatype patch_context = SIDECAR_INBOUND | SIDECAR_OUTBOUND
datatype patch_operation = MERGE | INSERT_BEFORE

datatype object_types =
    RouteConfigurationMatch (Vhost_Name: string) (Route_Name: string)
  | ListenerMatch (Filter_Name: string) (SubFilter_Name: string)

record EnvoyConfigObjectMatch =
  Context :: patch_context
  ObjectTypes :: object_types

record EnvoyFilter_Patch =
  Operation :: patch_operation
  Patch_Value :: pbstruct

record EnvoyConfigObjectPatch =
  ApplyTo :: apply_to
  Patch_Match :: "EnvoyConfigObjectMatch option"
  Patch :: EnvoyFilter_Patch

record EnvoyFilter =
  WorkloadSelector_Labels :: "string gomap"
  ConfigPatches :: "EnvoyConfigObjectPatch option list"

record Subset =
  Subset_Name :: string
  Subset_Labels :: "string gomap"

subsection \<open>Kubernetes objects\<close>

text \<open>A value of \<open>interface{}\<close>, as in the untyped spec of an EnvoyFilter object.\<close>

datatype iface =
    INil
  | IBool bool
  | INumber "64 word"
  | IString string
  | IList "iface list"
  | IMap "(string, iface) fmap"

record EnvoyFilterCR =
  EF_Name :: string
  EF_Namespace :: string
  EF_Labels :: "string gomap"
  EF_OwnerReferences :: "string list"
  EF_ResourceVersion :: string
  EF_Spec :: "iface gomap"

record Service =
  Service_Selector :: "string gomap"

record Pod =
  Pod_Name :: string
  Pod_Labels :: "string gomap"
  Pod_DeletionTimestamp :: "int option"

record ConfigMap =
  CM_Name :: string
  CM_Namespace :: string
  CM_Labels :: "string gomap"
  CM_ResourceVersion :: string
  CM_Data :: "string gomap"

end
