(* ===== verification/Framework.thy ===== *)
theory Framework
  imports ApiTypes
begin

section \<open>What the limiter takes from outside its repository\<close>

text \<open>
  The code calls the slime framework (\<open>slime.io/slime/framework\<close>), gogo protobuf, YAML and
  JSON libraries and the Kubernetes API, none of which is in the repository. They are
  parameters: a record \<open>framework\<close> of pure functions and constants, and a record
  \<open>client\<close> of the operations on the cluster, over an arbitrary type \<open>'w\<close> of cluster
  states. Every definition that uses them takes the record as an argument; where a lemma
  relies on what such a function is documented to do, that is a hypothesis of the lemma.
\<close>

subsection \<open>Pure functions and constants\<close>

record framework =
  Wellkonw_BaseSet :: string
  Struct_EnvoyLocalRateLimit_Limiter :: string
  Struct_EnvoyLocalRateLimit_Enabled :: string
  Struct_EnvoyLocalRateLimit_Enforced :: string
  Struct_HttpFilter_Name :: string
  Struct_HttpFilter_TypedConfig :: string
  Struct_Any_AtType :: string
  Struct_Any_TypedUrl :: string
  Struct_Any_Value :: string
  TypeUrl_UdpaTypedStruct :: string
  TypeUrl_EnvoyLocalRatelimit :: string
  Envoy_LocalRateLimit :: string
  Envoy_HttpConnectionManager :: string
  Envoy_Route :: string
  CompactTextString :: "SmartLimitDescriptor \<Rightarrow> string"
  NamespacedName_String :: "NamespacedName \<Rightarrow> string"
  MessageToStruct :: "envoy_message \<Rightarrow> goerror + pbstruct"
  ProtoToMap :: "EnvoyFilter \<Rightarrow> goerror + (string, iface) fmap"
  UnityHost :: "string \<Rightarrow> string \<Rightarrow> string"
  IsK8SService :: "string \<Rightarrow> string \<times> string \<times> bool"
  CopyMap :: "string gomap \<Rightarrow> string gomap"
  IsContain :: "string gomap \<Rightarrow> string gomap \<Rightarrow> bool"
  MapToMapInterface :: "string gomap \<Rightarrow> (string, iface) fmap"
  CalculateTemplateBool :: "string \<Rightarrow> (string, iface) fmap \<Rightarrow> goerror + bool"
  CalculateTemplate :: "string \<Rightarrow> (string, iface) fmap \<Rightarrow> goerror + 64 word"
  IstioRevFromLabel :: "string gomap \<Rightarrow> string"
  PatchIstioRevLabel :: "string gomap \<Rightarrow> string \<Rightarrow> string gomap"
  SetControllerReference :: "SmartLimiter \<Rightarrow> EnvoyFilterCR \<Rightarrow> goerror + EnvoyFilterCR"
  MarshalSpec :: "iface gomap \<Rightarrow> goerror + string"
  YamlMarshal :: "RateLimitConfig \<Rightarrow> goerror + string"
  YamlUnmarshal :: "string \<Rightarrow> goerror + RateLimitConfig option"
  SelectorString :: "string gomap \<Rightarrow> string"

text \<open>\<open>util.CopyMap\<close> returns a new map with the same items, never nil.\<close>

definition copies_maps :: "framework \<Rightarrow> bool" where
  "copies_maps fw \<longleftrightarrow> (\<forall>m. CopyMap fw m = Some (map_items m))"

text \<open>\<open>util.MessageToStruct\<close> converts every message the limiter builds.\<close>

definition converts_messages :: "framework \<Rightarrow> bool" where
  "converts_messages fw \<longleftrightarrow> (\<forall>m. \<exists>s. MessageToStruct fw m = Inr s)"

subsection \<open>Configuration of the module\<close>

record LimiterConfig =
  DisableGlobalRateLimit :: bool
  DisableAdaptive :: bool

datatype prometheus_source_type =
    Prometheus_Source_Value
  | Prometheus_Source_Group
  | Prometheus_Source_Other

record PrometheusHandler =
  Handler_Query :: string
  Handler_Type :: prometheus_source_type

record PrometheusConfig =
  Prometheus_Address :: string
  Prometheus_Handlers :: "PrometheusHandler option gomap"

record MetricConfig =
  Metric_Prometheus :: "PrometheusConfig option"

record GlobalConfig =
  Multicluster_Label :: string

record EnvConfig =
  Config_Limiter :: "LimiterConfig option"
  Config_Metric :: "MetricConfig option"
  Config_Global :: "GlobalConfig option"

record Environment =
  Env_Config :: "EnvConfig option"
  Env_RevInScope :: "string \<Rightarrow> bool"

subsection \<open>The cluster\<close>

text \<open>
  \<open>HostSubsetMapping.Get\<close> returns an untyped value: nil, the slice of pointers to the subsets a
  DestinationRule declares for the host, or (as far as its type goes) anything else. The code calls
  it twice in a row, and the mapping belongs to another goroutine: the call has a number, so
  that the second read need not be the first.
\<close>

datatype subset_entry = NoEntry | SubsetSlice "Subset option list" | OtherEntry

record 'w client =
  Get_SmartLimiter :: "'w \<Rightarrow> NamespacedName \<Rightarrow> goerror + SmartLimiter"
  Get_Service :: "'w \<Rightarrow> NamespacedName \<Rightarrow> goerror + Service"
  Get_EnvoyFilter :: "'w \<Rightarrow> NamespacedName \<Rightarrow> goerror + EnvoyFilterCR"
  Create_EnvoyFilter :: "'w \<Rightarrow> EnvoyFilterCR \<Rightarrow> 'w \<times> goerror option"
  Update_EnvoyFilter :: "'w \<Rightarrow> EnvoyFilterCR \<Rightarrow> 'w \<times> goerror option"
  Delete_EnvoyFilter :: "'w \<Rightarrow> EnvoyFilterCR \<Rightarrow> 'w \<times> goerror option"
  Get_ConfigMap :: "'w \<Rightarrow> NamespacedName \<Rightarrow> goerror + ConfigMap"
  Update_ConfigMap :: "'w \<Rightarrow> ConfigMap \<Rightarrow> 'w \<times> goerror option"
  Update_Status :: "'w \<Rightarrow> SmartLimiter \<Rightarrow> 'w \<times> goerror option"
  K8S_Get_Service :: "'w \<Rightarrow> NamespacedName \<Rightarrow> goerror + Service"
  List_Pods :: "'w \<Rightarrow> string \<Rightarrow> string \<Rightarrow> goerror + Pod list"
  HostSubsetMapping_Get :: "'w \<Rightarrow> nat \<Rightarrow> string \<Rightarrow> subset_entry"

text \<open>No slice of subsets has a nil pointer in it, and the mapping holds such slices only.\<close>

definition sound_subsets :: "'w client \<Rightarrow> bool" where
  "sound_subsets C \<longleftrightarrow>
     (\<forall>w i host ps. HostSubsetMapping_Get C w i host = SubsetSlice ps \<longrightarrow> None \<notin> set ps)"

end
