(* ===== verification/LocalLimit.thy ===== *)
theory LocalLimit
  imports Framework
begin

section \<open>Local rate limits: \<open>controllers/envoy_local_limit.go\<close>\<close>

text \<open>
  From the descriptors of one subset, the EnvoyFilter patches that attach rate-limit
  actions to routes (\<open>generateHttpRouterPatch\<close>), insert Envoy's local rate limit filter
  (\<open>generateHttpFilterLocalRateLimitPatch\<close>) and give each route its token buckets
  (\<open>generateLocalRateLimitPerFilterPatch\<close>). Both of the route patches group by
  \<open>vhost/route\<close> in a Go map and then range over it, so the order of the patches is the
  chooser's. The main lemmas say which action and which bucket every route gets, and that
  the key and value an action sends are those of the bucket's entry.
\<close>

subsection \<open>Routes\<close>

record routeConfig =
  rc_action :: "RateLimit_Action option"
  rc_routeName :: string
  rc_vhostName :: string
  rc_direction :: string

definition genVhostRouteName :: "routeConfig \<Rightarrow> string" where
  "genVhostRouteName rc = rc_vhostName rc @ ''/'' @ rc_routeName rc"

definition generateDefaultInboundRouteConfigs :: "SL_Target option \<Rightarrow> routeConfig list" where
  "generateDefaultInboundRouteConfigs target =
     (case target of
        None \<Rightarrow> [\<lparr>rc_action = None, rc_routeName = InboundDefaultRoute,
                 rc_vhostName = AllowAllPort, rc_direction = Inbound\<rparr>]
      | Some t \<Rightarrow>
          if Port t = 0
          then [\<lparr>rc_action = None, rc_routeName = InboundDefaultRoute,
                 rc_vhostName = AllowAllPort, rc_direction = Inbound\<rparr>]
          else [\<lparr>rc_action = None, rc_routeName = InboundDefaultRoute,
                 rc_vhostName = Inbound @ ''|'' @ ''http'' @ ''|'' @ fmt_int (sint (Port t)),
                 rc_direction = Inbound\<rparr>])"

fun outbound_route_configs :: "SL_Target \<Rightarrow> string list \<Rightarrow> routeConfig list" where
  "outbound_route_configs t [] = []"
| "outbound_route_configs t (route # routes) =
     (let parts = strings_Split (CHR ''/'') route
      in if length parts \<noteq> 2 then outbound_route_configs t routes
         else \<lparr>rc_action = None, rc_routeName = parts ! 1, rc_vhostName = parts ! 0,
               rc_direction = Direction t\<rparr> # outbound_route_configs t routes)"

definition generateRouteConfigs :: "SL_Target option \<Rightarrow> routeConfig list" where
  "generateRouteConfigs target =
     (case target of
        None \<Rightarrow> generateDefaultInboundRouteConfigs target
      | Some t \<Rightarrow> if 0 < length (elems (Route t)) then outbound_route_configs t (elems (Route t))
                  else generateDefaultInboundRouteConfigs target)"

definition generateEnvoyVhostMatch :: "routeConfig \<Rightarrow> EnvoyConfigObjectMatch" where
  "generateEnvoyVhostMatch rc =
     \<lparr>Context = (if rc_direction rc = Outbound then SIDECAR_OUTBOUND else SIDECAR_INBOUND),
      ObjectTypes = RouteConfigurationMatch (rc_vhostName rc) (rc_routeName rc)\<rparr>"

subsection \<open>Descriptor values and rate-limit actions\<close>

definition generateDescriptorValue :: "framework \<Rightarrow> SmartLimitDescriptor \<Rightarrow> NamespacedName \<Rightarrow> string" where
  "generateDescriptorValue fw item loc =
     (let id = adler32_Checksum (CompactTextString fw item @ NamespacedName_String fw loc)
      in ''Service['' @ NN_Name loc @ ''.'' @ NN_Namespace loc @ '']-User[none]-Id[''
         @ fmt_nat (unat id) @ '']'')"

definition generateSafeRegexMatch :: "HeaderMatcher \<Rightarrow> header_match_specifier" where
  "generateSafeRegexMatch m = SafeRegexMatch GoogleRe2 (HM_RegexMatch m)"

definition generatePrefixMatch :: "HeaderMatcher \<Rightarrow> header_match_specifier" where
  "generatePrefixMatch m = PrefixMatch (HM_PrefixMatch m)"

definition generateSuffixMatch :: "HeaderMatcher \<Rightarrow> header_match_specifier" where
  "generateSuffixMatch m = SuffixMatch (HM_SuffixMatch m)"

definition generateExactMatch :: "HeaderMatcher \<Rightarrow> header_match_specifier" where
  "generateExactMatch m = ExactMatch (HM_ExactMatch m)"

definition generateInvertMatch :: "HeaderMatcher \<Rightarrow> bool" where
  "generateInvertMatch m = HM_InvertMatch m"

definition generatePresentMatch :: "HeaderMatcher \<Rightarrow> header_match_specifier" where
  "generatePresentMatch m = PresentMatch (HM_PresentMatch m)"

definition header_specifier :: "HeaderMatcher \<Rightarrow> header_match_specifier" where
  "header_specifier m =
     (if HM_RegexMatch m \<noteq> '''' then generateSafeRegexMatch m
      else if HM_ExactMatch m \<noteq> '''' then generateExactMatch m
      else if HM_PrefixMatch m \<noteq> '''' then generatePrefixMatch m
      else if HM_SuffixMatch m \<noteq> '''' then generateSuffixMatch m
      else if HM_IsExactMatchEmpty m then generateExactMatch m
      else generatePresentMatch m)"

definition generate_header :: "HeaderMatcher option \<Rightarrow> envoy_HeaderMatcher go" where
  "generate_header match = gbind (deref match) (\<lambda>m.
     Inr \<lparr>EH_Name = HM_Name m, EH_InvertMatch = generateInvertMatch m,
          EH_Specifier = header_specifier m\<rparr>)"

definition generateRouteRateLimitAction ::
    "framework \<Rightarrow> SmartLimitDescriptor \<Rightarrow> NamespacedName \<Rightarrow> RateLimit_Action option go" where
  "generateRouteRateLimitAction fw descriptor loc =
     (if CustomKey descriptor \<noteq> '''' \<and> CustomValue descriptor \<noteq> '''' then Inr None
      else if length (elems (Match descriptor)) = 0
      then Inr (Some (GenericKey (generateDescriptorValue fw descriptor loc)))
      else gbind (gmap generate_header (elems (Match descriptor))) (\<lambda>headers.
             Inr (Some (HeaderValueMatch (generateDescriptorValue fw descriptor loc) headers))))"

subsection \<open>The route patches\<close>

definition add_route_config ::
    "routeConfig \<Rightarrow> (string, routeConfig list) fmap \<Rightarrow> (string, routeConfig list) fmap" where
  "add_route_config rc m = append_under (genVhostRouteName rc) rc m"

definition router_step ::
    "framework \<Rightarrow> NamespacedName \<Rightarrow> SmartLimitDescriptor \<Rightarrow> (string, routeConfig list) fmap
       \<Rightarrow> (string, routeConfig list) fmap go" where
  "router_step fw loc descriptor m =
     gbind (generateRouteRateLimitAction fw descriptor loc) (\<lambda>action.
       case action of
         None \<Rightarrow> Inr m
       | Some a \<Rightarrow> Inr (fold (\<lambda>rc. add_route_config (rc\<lparr>rc_action := Some a\<rparr>))
                         (generateRouteConfigs (Target descriptor)) m))"

fun router_patches ::
    "framework \<Rightarrow> (string \<times> routeConfig list) list \<Rightarrow> EnvoyConfigObjectPatch list
       \<Rightarrow> (goerror + EnvoyConfigObjectPatch list) go" where
  "router_patches fw [] patches = Inr (Inr patches)"
| "router_patches fw ((_, rcs) # rest) patches =
     (case MessageToStruct fw
             (RouteMessage \<lparr>RateLimits = map (\<lambda>rc. \<lparr>Actions = [rc_action rc]\<rparr>) rcs\<rparr>) of
        Inl err \<Rightarrow> Inr (Inl err)
      | Inr routeStruct \<Rightarrow>
          (case rcs of
             [] \<Rightarrow> Inl IndexOutOfRange
           | rc # _ \<Rightarrow> router_patches fw rest (patches @
               [\<lparr>ApplyTo = HTTP_ROUTE, Patch_Match = Some (generateEnvoyVhostMatch rc),
                 Patch = \<lparr>Operation = MERGE, Patch_Value = routeStruct\<rparr>\<rparr>])))"

definition generateHttpRouterPatch ::
    "framework \<Rightarrow> chooser \<Rightarrow> SmartLimitDescriptor list \<Rightarrow> NamespacedName
       \<Rightarrow> (goerror + EnvoyConfigObjectPatch list) go" where
  "generateHttpRouterPatch fw ch descriptors loc =
     gbind (gfold (router_step fw loc) descriptors fmempty) (\<lambda>route2RouteConfig.
       router_patches fw (go_range ch route2RouteConfig) [])"

definition generateHttpFilterLocalRateLimitPatch :: "framework \<Rightarrow> EnvoyConfigObjectPatch option" where
  "generateHttpFilterLocalRateLimitPatch fw =
     (case MessageToStruct fw (LocalRateLimitMessage
             \<lparr>StatPrefix = Struct_EnvoyLocalRateLimit_Limiter fw, LR_TokenBucket = None,
              LR_Descriptors = [], FilterEnabled = None, FilterEnforced = None\<rparr>) of
        Inl _ \<Rightarrow> None
      | Inr local \<Rightarrow> Some
          \<lparr>ApplyTo = HTTP_FILTER, Patch_Match = None,
           Patch = \<lparr>Operation = INSERT_BEFORE,
             Patch_Value = fmap_of_list
               [(Struct_HttpFilter_Name fw, StringValue (Envoy_LocalRateLimit fw)),
                (Struct_HttpFilter_TypedConfig fw, StructValue (fmap_of_list
                   [(Struct_Any_AtType fw, StringValue (TypeUrl_UdpaTypedStruct fw)),
                    (Struct_Any_TypedUrl fw, StringValue (TypeUrl_EnvoyLocalRatelimit fw)),
                    (Struct_Any_Value fw, StructValue local)]))]\<rparr>\<rparr>)"

subsection \<open>Token buckets\<close>

definition generateTokenBucket :: "SmartLimitDescriptor \<Rightarrow> TokenBucket go" where
  "generateTokenBucket item =
     gbind (deref (Action item)) (\<lambda>action.
       let i = fst (Atoi (Quota action))
       in gbind (deref (FillInterval action)) (\<lambda>fill.
            Inr \<lparr>MaxTokens = ucast i,
                 TB_FillInterval = \<lparr>D_Seconds = Seconds fill, D_Nanos = Nanos fill\<rparr>,
                 TokensPerFill = ucast i\<rparr>))"

definition generateCustomTokenBucket :: "64 word \<Rightarrow> 64 word \<Rightarrow> 64 word \<Rightarrow> TokenBucket" where
  "generateCustomTokenBucket maxTokens tokensPerFill second =
     \<lparr>MaxTokens = ucast maxTokens, TB_FillInterval = \<lparr>D_Seconds = second, D_Nanos = 0\<rparr>,
      TokensPerFill = ucast tokensPerFill\<rparr>"

definition generateLocalRateLimitDescriptorEntries ::
    "framework \<Rightarrow> SmartLimitDescriptor \<Rightarrow> NamespacedName \<Rightarrow> Descriptor_Entry list" where
  "generateLocalRateLimitDescriptorEntries fw item loc =
     [if CustomKey item \<noteq> '''' \<and> CustomValue item \<noteq> ''''
      then \<lparr>Entry_Key = CustomKey item, Entry_Value = CustomValue item\<rparr>
      else if length (elems (Match item)) = 0
      then \<lparr>Entry_Key = GenericKeyName, Entry_Value = generateDescriptorValue fw item loc\<rparr>
      else \<lparr>Entry_Key = HeaderValueMatchName, Entry_Value = generateDescriptorValue fw item loc\<rparr>]"

definition generateLocalRateLimitDescriptors ::
    "framework \<Rightarrow> SmartLimitDescriptor list \<Rightarrow> NamespacedName \<Rightarrow> LocalRateLimitDescriptor list go" where
  "generateLocalRateLimitDescriptors fw descriptors loc =
     gmap (\<lambda>item. gbind (generateTokenBucket item) (\<lambda>tokenBucket.
             Inr \<lparr>Entries = generateLocalRateLimitDescriptorEntries fw item loc,
                  LD_TokenBucket = tokenBucket\<rparr>)) descriptors"

definition generateEnvoyLocalRateLimitEnabled :: "framework \<Rightarrow> RuntimeFractionalPercent" where
  "generateEnvoyLocalRateLimitEnabled fw =
     \<lparr>RuntimeKey = Struct_EnvoyLocalRateLimit_Enabled fw, Numerator = 100, Denominator = HUNDRED\<rparr>"

definition generateEnvoyLocalRateLimitEnforced :: "framework \<Rightarrow> RuntimeFractionalPercent" where
  "generateEnvoyLocalRateLimitEnforced fw =
     \<lparr>RuntimeKey = Struct_EnvoyLocalRateLimit_Enforced fw, Numerator = 100, Denominator = HUNDRED\<rparr>"

subsection \<open>The per-route filter patches\<close>

definition generatePerFilterPatch :: "framework \<Rightarrow> pbstruct \<Rightarrow> EnvoyFilter_Patch" where
  "generatePerFilterPatch fw local =
     \<lparr>Operation = MERGE,
      Patch_Value = fmap_of_list [(TypePerFilterConfig, StructValue (fmap_of_list
        [(Envoy_LocalRateLimit fw, StructValue (fmap_of_list
           [(Struct_Any_AtType fw, StringValue (TypeUrl_UdpaTypedStruct fw)),
            (Struct_Any_TypedUrl fw, StringValue (TypeUrl_EnvoyLocalRatelimit fw)),
            (Struct_Any_Value fw, StructValue local)]))]))]\<rparr>"

definition perfilter_step ::
    "SmartLimitDescriptor \<Rightarrow> (string, SmartLimitDescriptor list) fmap \<times> (string, routeConfig list) fmap
       \<Rightarrow> (string, SmartLimitDescriptor list) fmap \<times> (string, routeConfig list) fmap" where
  "perfilter_step descriptor = fold (\<lambda>rc (route2Descriptors, route2RouteConfig).
       (append_under (genVhostRouteName rc) descriptor route2Descriptors,
        append_under (genVhostRouteName rc) rc route2RouteConfig))
     (generateRouteConfigs (Target descriptor))"

definition local_rate_limit :: "framework \<Rightarrow> LocalRateLimitDescriptor list \<Rightarrow> LocalRateLimit" where
  "local_rate_limit fw descriptors =
     \<lparr>StatPrefix = Struct_EnvoyLocalRateLimit_Limiter fw,
      LR_TokenBucket = Some (generateCustomTokenBucket 100000 100000 1),
      LR_Descriptors = descriptors,
      FilterEnabled = Some (generateEnvoyLocalRateLimitEnabled fw),
      FilterEnforced = Some (generateEnvoyLocalRateLimitEnforced fw)\<rparr>"

fun perfilter_patches ::
    "framework \<Rightarrow> NamespacedName \<Rightarrow> (string, routeConfig list) fmap
       \<Rightarrow> (string \<times> SmartLimitDescriptor list) list \<Rightarrow> EnvoyConfigObjectPatch list
       \<Rightarrow> EnvoyConfigObjectPatch slice go" where
  "perfilter_patches fw loc route2RouteConfig [] patches = Inr (Some patches)"
| "perfilter_patches fw loc route2RouteConfig ((vr, desc) # rest) patches =
     gbind (generateLocalRateLimitDescriptors fw desc loc) (\<lambda>localRateLimitDescriptors.
       case MessageToStruct fw (LocalRateLimitMessage
              (local_rate_limit fw localRateLimitDescriptors)) of
         Inl _ \<Rightarrow> Inr None
       | Inr local \<Rightarrow>
           if length desc < 1 then Inr None
           else (case elems (fmlookup route2RouteConfig vr) of
                   [] \<Rightarrow> Inl IndexOutOfRange
                 | rc # _ \<Rightarrow> perfilter_patches fw loc route2RouteConfig rest (patches @
                     [\<lparr>ApplyTo = HTTP_ROUTE, Patch_Match = Some (generateEnvoyVhostMatch rc),
                       Patch = generatePerFilterPatch fw local\<rparr>])))"

definition generateLocalRateLimitPerFilterPatch ::
    "framework \<Rightarrow> chooser \<Rightarrow> SmartLimitDescriptor list \<Rightarrow> NamespacedName
       \<Rightarrow> EnvoyConfigObjectPatch slice go" where
  "generateLocalRateLimitPerFilterPatch fw ch descriptors loc =
     (case fold perfilter_step descriptors (fmempty, fmempty) of
        (route2Descriptors, route2RouteConfig) \<Rightarrow>
          perfilter_patches fw loc route2RouteConfig (go_range ch route2Descriptors) [])"

subsection \<open>Which routes a descriptor applies to\<close>

lemma Split_two:
  "length (strings_Split c s) = 2 \<Longrightarrow>
     strings_Split c s ! 0 @ c # strings_Split c s ! 1 = s"
proof -
  assume "length (strings_Split c s) = 2"
  then obtain a b where ab: "strings_Split c s = [a, b]"
    by (auto simp: length_Suc_conv numeral_2_eq_2)
  then have "s = a @ c # b" by (simp only: Split_eq_pair_iff)
  with ab show ?thesis by simp
qed

lemma outbound_keys:
  "map genVhostRouteName (outbound_route_configs t routes) =
     filter (\<lambda>r. count_list r (CHR ''/'') = 1) routes"
proof (induction routes)
  case (Cons r rs)
  then show ?case
    using Split_two [of "CHR ''/''" r]
    by (auto simp: Let_def genVhostRouteName_def length_Split)
qed simp

lemma outbound_fields:
  "rc \<in> set (outbound_route_configs t routes) \<Longrightarrow>
     rc_direction rc = Direction t \<and> rc_action rc = None
     \<and> CHR ''/'' \<notin> set (rc_vhostName rc) \<and> CHR ''/'' \<notin> set (rc_routeName rc)"
proof (induction routes)
  case (Cons r rs)
  have "p \<in> set (strings_Split (CHR ''/'') r) \<Longrightarrow> CHR ''/'' \<notin> set p" for p
    by (rule Split_no_sep)
  with Cons show ?case
    by (auto simp: Let_def split: if_splits)
qed simp

lemma generateRouteConfigs_routes:
  assumes "elems (Route t) \<noteq> []"
  shows "map genVhostRouteName (generateRouteConfigs (Some t)) =
           filter (\<lambda>r. count_list r (CHR ''/'') = 1) (elems (Route t))"
    and "rc \<in> set (generateRouteConfigs (Some t)) \<Longrightarrow> rc_direction rc = Direction t"
  using assms outbound_fields by (auto simp: generateRouteConfigs_def outbound_keys)

lemma generateRouteConfigs_inbound:
  assumes "case target of None \<Rightarrow> True | Some t \<Rightarrow> elems (Route t) = []"
  shows "\<exists>rc. generateRouteConfigs target = [rc] \<and> rc_direction rc = Inbound
          \<and> rc_routeName rc = InboundDefaultRoute
          \<and> rc_vhostName rc = (case target of None \<Rightarrow> '''' | Some t \<Rightarrow>
               if Port t = 0 then '''' else ''inbound|http|'' @ fmt_int (sint (Port t)))"
  using assms
  by (auto simp: generateRouteConfigs_def generateDefaultInboundRouteConfigs_def AllowAllPort_def
      Inbound_def split: option.splits)

text \<open>
  The key of a route splits back into the virtual host and the route, also for the inbound
  default, and inbound targets have the same key only if they have the same port.
\<close>

lemma fmt_int_no_slash: "CHR ''/'' \<notin> set (fmt_int i)"
  using fmt_nat_digits [of "CHR ''/''"] by (auto simp: fmt_int_def is_digit_def)

lemma route_config_no_slash:
  "rc \<in> set (generateRouteConfigs t) \<Longrightarrow>
     CHR ''/'' \<notin> set (rc_vhostName rc) \<and> CHR ''/'' \<notin> set (rc_routeName rc)"
  using outbound_fields fmt_int_no_slash
  by (fastforce simp: generateRouteConfigs_def generateDefaultInboundRouteConfigs_def
      InboundDefaultRoute_def AllowAllPort_def Inbound_def split: option.splits if_splits)

lemma fmt_int_port_inject [simp]:
  "fmt_int (sint (p :: 32 word)) = fmt_int (sint (q :: 32 word)) \<longleftrightarrow> p = q"
proof
  have wide: "sint (scast w :: 64 word) = sint w" for w :: "32 word"
    by (rule sint_up_scast) (simp add: is_up)
  assume "fmt_int (sint p) = fmt_int (sint q)"
  then have "(scast p :: 64 word) = scast q"
    using Atoi_fmt_int [of "scast p"] Atoi_fmt_int [of "scast q"] unfolding wide by simp
  then have "sint p = sint q" by (metis wide)
  then show "p = q" by (rule signed_word_eqI)
qed simp

lemma route_key_split:
  "rc \<in> set (generateRouteConfigs target) \<Longrightarrow>
     strings_Split (CHR ''/'') (genVhostRouteName rc) = [rc_vhostName rc, rc_routeName rc]"
  by (simp add: genVhostRouteName_def Split_eq_pair_iff route_config_no_slash)

definition inbound_key :: "32 word \<Rightarrow> string" where
  "inbound_key port = (if port = 0 then '''' else ''inbound|http|'' @ fmt_int (sint port)) @ ''/default''"

lemma inbound_key_inject [simp]: "inbound_key p = inbound_key q \<longleftrightarrow> p = q"
  by (auto simp: inbound_key_def)

lemma genVhostRouteName_action [simp]:
  "genVhostRouteName (rc\<lparr>rc_action := a\<rparr>) = genVhostRouteName rc"
  by (simp add: genVhostRouteName_def)

lemma generateEnvoyVhostMatch_action [simp]:
  "generateEnvoyVhostMatch (rc\<lparr>rc_action := a\<rparr>) = generateEnvoyVhostMatch rc"
  by (simp add: generateEnvoyVhostMatch_def)

definition descriptor_keys :: "SmartLimitDescriptor \<Rightarrow> string list" where
  "descriptor_keys d = map genVhostRouteName (generateRouteConfigs (Target d))"

subsection \<open>Actions and entries\<close>

text \<open>The entry Envoy derives from an action: the key is fixed by the kind of action.\<close>

fun action_entry :: "RateLimit_Action \<Rightarrow> Descriptor_Entry" where
  "action_entry (GenericKey v) = \<lparr>Entry_Key = ''generic_key'', Entry_Value = v\<rparr>"
| "action_entry (HeaderValueMatch v hs) = \<lparr>Entry_Key = ''header_match'', Entry_Value = v\<rparr>"

definition custom :: "SmartLimitDescriptor \<Rightarrow> bool" where
  "custom d \<longleftrightarrow> CustomKey d \<noteq> '''' \<and> CustomValue d \<noteq> ''''"

definition no_nil_match :: "SmartLimitDescriptor \<Rightarrow> bool" where
  "no_nil_match d \<longleftrightarrow> None \<notin> set (elems (Match d))"

lemma action_None_iff: "generateRouteRateLimitAction fw d loc = Inr None \<longleftrightarrow> custom d"
  by (auto simp: generateRouteRateLimitAction_def custom_def)

lemma action_matches_entry:
  "generateRouteRateLimitAction fw d loc = Inr (Some a) \<Longrightarrow>
     generateLocalRateLimitDescriptorEntries fw d loc = [action_entry a]"
  by (auto simp: generateRouteRateLimitAction_def generateLocalRateLimitDescriptorEntries_def
      GenericKeyName_def HeaderValueMatchName_def split: if_splits)

lemma generate_header_Some:
  "generate_header (Some m) = Inr \<lparr>EH_Name = HM_Name m, EH_InvertMatch = HM_InvertMatch m,
     EH_Specifier = header_specifier m\<rparr>"
  by (simp add: generate_header_def generateInvertMatch_def)

lemma headers_total_iff [go_total]: "(\<exists>hs. gmap generate_header ms = Inr hs) \<longleftrightarrow> None \<notin> set ms"
  unfolding gmap_ex_Inr_iff
  by (metis generate_header_Some generate_header_def deref.simps(1) gbind.simps(1) not_None_eq
      Inl_Inr_False)

lemma action_total_iff [go_total]:
  "(\<exists>a. generateRouteRateLimitAction fw d loc = Inr a) \<longleftrightarrow> custom d \<or> no_nil_match d"
  using headers_total_iff [of "elems (Match d)"]
  by (auto simp: generateRouteRateLimitAction_def custom_def no_nil_match_def)

text \<open>
  The identification in a value is a checksum of the descriptor's text, and not a strong one:
  two descriptors whose texts differ in the digits 131 and 212 have the same.
\<close>

lemma descriptor_values_collide:
  assumes "CompactTextString fw d = u @ [x, y, z] @ v" "CompactTextString fw d' = u @ [x', y', z'] @ v"
    and "of_char x' = of_char x + (1 :: nat)" "of_char y = of_char y' + (2 :: nat)"
    and "of_char z' = of_char z + (1 :: nat)"
  shows "generateDescriptorValue fw d loc = generateDescriptorValue fw d' loc"
  using adler32_collision [OF assms(3-5), of u "v @ NamespacedName_String fw loc"]
  by (simp add: generateDescriptorValue_def assms(1,2))

lemma descriptors_collide:
  assumes "generateDescriptorValue fw d loc = generateDescriptorValue fw d' loc"
    and "\<not> custom d" "\<not> custom d'" "Match d' = Match d"
  shows "generateLocalRateLimitDescriptorEntries fw d loc = generateLocalRateLimitDescriptorEntries fw d' loc"
    and "generateRouteRateLimitAction fw d loc = generateRouteRateLimitAction fw d' loc"
  using assms
  by (auto simp: generateLocalRateLimitDescriptorEntries_def generateRouteRateLimitAction_def custom_def)

subsection \<open>The groups of the router patch\<close>

text \<open>
  \<open>routed\<close> lists what one descriptor adds to the map \<open>route2RouteConfig\<close>; the loop
  builds the grouping of these lists.
\<close>

definition with_action :: "RateLimit_Action \<Rightarrow> routeConfig \<Rightarrow> routeConfig" where
  "with_action a rc = rc\<lparr>rc_action := Some a\<rparr>"

lemma with_action_fields [simp]:
  "rc_action (with_action a rc) = Some a" "rc_direction (with_action a rc) = rc_direction rc"
  "genVhostRouteName (with_action a rc) = genVhostRouteName rc"
  "generateEnvoyVhostMatch (with_action a rc) = generateEnvoyVhostMatch rc"
  by (simp_all add: with_action_def)

definition routed ::
    "framework \<Rightarrow> NamespacedName \<Rightarrow> SmartLimitDescriptor \<Rightarrow> (string \<times> routeConfig) list go" where
  "routed fw loc d = gbind (generateRouteRateLimitAction fw d loc) (\<lambda>a. Inr (case a of
       None \<Rightarrow> []
     | Some act \<Rightarrow> map (\<lambda>rc. (genVhostRouteName rc, with_action act rc))
                     (generateRouteConfigs (Target d))))"

lemma fold_add_route_config:
  "fold (\<lambda>rc. add_route_config (rc\<lparr>rc_action := Some a\<rparr>)) rcs m =
     fold (\<lambda>(k, v). append_under k v) (map (\<lambda>rc. (genVhostRouteName rc, with_action a rc)) rcs) m"
  by (induction rcs arbitrary: m) (auto simp: add_route_config_def with_action_def)

lemma router_step_routed:
  "router_step fw loc d m =
     gbind (routed fw loc d) (\<lambda>kvs. Inr (fold (\<lambda>(k, v). append_under k v) kvs m))"
  by (cases "generateRouteRateLimitAction fw d loc")
    (auto simp: router_step_def routed_def fold_add_route_config split: option.splits)

lemma gfold_router_step:
  "gfold (router_step fw loc) ds m =
     gbind (gmap (routed fw loc) ds)
       (\<lambda>kvss. Inr (fold (\<lambda>(k, v). append_under k v) (concat kvss) m))"
proof (induction ds arbitrary: m)
  case (Cons d ds)
  then show ?case
    by (cases "routed fw loc d"; cases "gmap (routed fw loc) ds") (auto simp: router_step_routed)
qed simp

lemma router_groups:
  "gfold (router_step fw loc) ds fmempty =
     gbind (gmap (routed fw loc) ds) (\<lambda>kvss. Inr (group_all (concat kvss)))"
  by (simp add: gfold_router_step group_all_def)

text \<open>The patch of one group, when the conversion of messages succeeds.\<close>

definition struct_of :: "framework \<Rightarrow> envoy_message \<Rightarrow> pbstruct" where
  "struct_of fw m = (case MessageToStruct fw m of Inl _ \<Rightarrow> fmempty | Inr s \<Rightarrow> s)"

lemma MessageToStruct_struct_of:
  "converts_messages fw \<Longrightarrow> MessageToStruct fw m = Inr (struct_of fw m)"
  by (auto simp: converts_messages_def struct_of_def) (metis sum.simps(6))

definition route_message :: "RateLimit_Action option list \<Rightarrow> envoy_message" where
  "route_message as = RouteMessage \<lparr>RateLimits = map (\<lambda>a. \<lparr>Actions = [a]\<rparr>) as\<rparr>"

definition router_patch :: "framework \<Rightarrow> routeConfig list \<Rightarrow> EnvoyConfigObjectPatch" where
  "router_patch fw rcs =
     \<lparr>ApplyTo = HTTP_ROUTE, Patch_Match = Some (generateEnvoyVhostMatch (hd rcs)),
      Patch = \<lparr>Operation = MERGE,
               Patch_Value = struct_of fw (route_message (map rc_action rcs))\<rparr>\<rparr>"

lemma router_patches_eq:
  assumes "converts_messages fw" and "\<forall>(k, rcs) \<in> set items. rcs \<noteq> []"
  shows "router_patches fw items patches =
           Inr (Inr (patches @ map (\<lambda>(k, rcs). router_patch fw rcs) items))"
  using assms(2)
proof (induction items arbitrary: patches)
  case (Cons item items)
  obtain k rc rcs where item: "item = (k, rc # rcs)"
    using Cons.prems by (cases item; cases "snd item") auto
  have rest: "router_patches fw items ps =
      Inr (Inr (ps @ map (\<lambda>(k, rcs). router_patch fw rcs) items))" for ps
    using Cons.prems by (intro Cons.IH) simp
  show ?case
    by (simp add: item rest MessageToStruct_struct_of [OF assms(1)] router_patch_def
        route_message_def comp_def)
qed simp

lemma generateHttpRouterPatch_eq:
  assumes "fair ch" and "converts_messages fw" and "gmap (routed fw loc) ds = Inr kvss"
  shows "generateHttpRouterPatch fw ch ds loc =
           Inr (Inr (map (\<lambda>(k, rcs). router_patch fw rcs) (go_range ch (group_all (concat kvss)))))"
proof -
  have "\<forall>(k, rcs) \<in> set (go_range ch (group_all (concat kvss))). rcs \<noteq> []"
    using assms(1) group_all_nonempty by auto
  then show ?thesis
    by (simp add: generateHttpRouterPatch_def router_groups assms(3) router_patches_eq assms(2))
qed

subsection \<open>The groups of the per-route filter patch\<close>

definition keyed_descriptors :: "SmartLimitDescriptor list \<Rightarrow> (string \<times> SmartLimitDescriptor) list" where
  "keyed_descriptors ds = concat (map (\<lambda>d. map (\<lambda>k. (k, d)) (descriptor_keys d)) ds)"

definition keyed_routes :: "SmartLimitDescriptor list \<Rightarrow> (string \<times> routeConfig) list" where
  "keyed_routes ds =
     concat (map (\<lambda>d. map (\<lambda>rc. (genVhostRouteName rc, rc)) (generateRouteConfigs (Target d))) ds)"

lemma perfilter_step_eq:
  "perfilter_step d (m, n) =
     (fold (\<lambda>(k, v). append_under k v) (map (\<lambda>k. (k, d)) (descriptor_keys d)) m,
      fold (\<lambda>(k, v). append_under k v)
        (map (\<lambda>rc. (genVhostRouteName rc, rc)) (generateRouteConfigs (Target d))) n)"
proof -
  have "fold (\<lambda>rc (m, n). (append_under (genVhostRouteName rc) d m,
          append_under (genVhostRouteName rc) rc n)) rcs (m, n) =
        (fold (\<lambda>(k, v). append_under k v) (map (\<lambda>rc. (genVhostRouteName rc, d)) rcs) m,
         fold (\<lambda>(k, v). append_under k v) (map (\<lambda>rc. (genVhostRouteName rc, rc)) rcs) n)" for rcs
    by (induction rcs arbitrary: m n) auto
  then show ?thesis by (simp add: perfilter_step_def descriptor_keys_def comp_def)
qed

lemma fold_perfilter_step:
  "fold perfilter_step ds (m, n) =
     (fold (\<lambda>(k, v). append_under k v) (keyed_descriptors ds) m,
      fold (\<lambda>(k, v). append_under k v) (keyed_routes ds) n)"
  by (induction ds arbitrary: m n)
    (auto simp: perfilter_step_eq keyed_descriptors_def keyed_routes_def)

lemma perfilter_groups:
  "fold perfilter_step ds (fmempty, fmempty) =
     (group_all (keyed_descriptors ds), group_all (keyed_routes ds))"
  by (simp add: fold_perfilter_step group_all_def)

lemma keys_keyed: "map fst (keyed_descriptors ds) = map fst (keyed_routes ds)"
  by (induction ds) (auto simp: keyed_descriptors_def keyed_routes_def descriptor_keys_def comp_def)

definition well_timed :: "SmartLimitDescriptor \<Rightarrow> bool" where
  "well_timed d \<longleftrightarrow> (\<exists>a f. Action d = Some a \<and> FillInterval a = Some f)"

lemma generateTokenBucket_total_iff [go_total]: "(\<exists>b. generateTokenBucket d = Inr b) \<longleftrightarrow> well_timed d"
  by (auto simp: generateTokenBucket_def well_timed_def Let_def)

lemma generateTokenBucket_Inr:
  "generateTokenBucket d = Inr b \<Longrightarrow>
     \<exists>a f. Action d = Some a \<and> FillInterval a = Some f
       \<and> MaxTokens b = ucast (fst (Atoi (Quota a))) \<and> TokensPerFill b = MaxTokens b
       \<and> D_Seconds (TB_FillInterval b) = Seconds f \<and> D_Nanos (TB_FillInterval b) = Nanos f"
  by (auto simp: generateTokenBucket_def Let_def)

definition token_bucket :: "SmartLimitDescriptor \<Rightarrow> TokenBucket" where
  "token_bucket d = (case generateTokenBucket d of
     Inl _ \<Rightarrow> generateCustomTokenBucket 0 0 0 | Inr b \<Rightarrow> b)"

definition local_descriptor ::
    "framework \<Rightarrow> NamespacedName \<Rightarrow> SmartLimitDescriptor \<Rightarrow> LocalRateLimitDescriptor" where
  "local_descriptor fw loc d =
     \<lparr>Entries = generateLocalRateLimitDescriptorEntries fw d loc, LD_TokenBucket = token_bucket d\<rparr>"

lemma generateTokenBucket_token_bucket:
  "well_timed d \<Longrightarrow> generateTokenBucket d = Inr (token_bucket d)"
  using generateTokenBucket_total_iff [of d] by (auto simp: token_bucket_def)

lemma generateLocalRateLimitDescriptors_eq:
  "\<forall>d \<in> set ds. well_timed d \<Longrightarrow>
     generateLocalRateLimitDescriptors fw ds loc = Inr (map (local_descriptor fw loc) ds)"
  unfolding generateLocalRateLimitDescriptors_def
  by (rule gmap_total) (simp add: generateTokenBucket_token_bucket local_descriptor_def)

lemma generateLocalRateLimitDescriptors_total_iff [go_total]:
  "(\<exists>lds. generateLocalRateLimitDescriptors fw ds loc = Inr lds) \<longleftrightarrow> (\<forall>d \<in> set ds. well_timed d)"
  by (simp add: generateLocalRateLimitDescriptors_def go_total)

definition perfilter_patch ::
    "framework \<Rightarrow> NamespacedName \<Rightarrow> routeConfig \<Rightarrow> SmartLimitDescriptor list
       \<Rightarrow> EnvoyConfigObjectPatch" where
  "perfilter_patch fw loc rc ds =
     \<lparr>ApplyTo = HTTP_ROUTE, Patch_Match = Some (generateEnvoyVhostMatch rc),
      Patch = generatePerFilterPatch fw (struct_of fw (LocalRateLimitMessage
                (local_rate_limit fw (map (local_descriptor fw loc) ds))))\<rparr>"

lemma perfilter_patches_eq:
  assumes "converts_messages fw"
    and "\<forall>(k, ds) \<in> set items. ds \<noteq> [] \<and> values_under n k \<noteq> [] \<and> (\<forall>d \<in> set ds. well_timed d)"
  shows "perfilter_patches fw loc n items patches =
           Inr (Some (patches @ map (\<lambda>(k, ds). perfilter_patch fw loc (hd (values_under n k)) ds) items))"
  using assms(2)
proof (induction items arbitrary: patches)
  case (Cons item items)
  obtain k d ds where item: "item = (k, d # ds)"
    using Cons.prems by (cases item; cases "snd item") auto
  obtain rc rcs where rc: "elems (fmlookup n k) = rc # rcs"
    using Cons.prems item by (cases "elems (fmlookup n k)") (auto simp: values_under_def)
  have ok: "generateLocalRateLimitDescriptors fw (d # ds) loc
      = Inr (map (local_descriptor fw loc) (d # ds))"
    using Cons.prems item by (intro generateLocalRateLimitDescriptors_eq) auto
  have rest: "perfilter_patches fw loc n items ps = Inr (Some (ps @
      map (\<lambda>(k, ds). perfilter_patch fw loc (hd (values_under n k)) ds) items))" for ps
    using Cons.prems by (intro Cons.IH) simp
  show ?case
    by (simp add: item ok rc rest MessageToStruct_struct_of [OF assms(1)] perfilter_patch_def
        values_under_def)
qed simp

lemma perfilter_patches_panic:
  assumes "converts_messages fw" and "\<forall>(k, ds) \<in> set items. ds \<noteq> []"
    and "(k, ds) \<in> set items" and "d \<in> set ds" and "\<not> well_timed d"
  shows "\<exists>p. perfilter_patches fw loc n items patches = Inl p"
  using assms(2,3)
proof (induction items arbitrary: patches)
  case (Cons item items)
  obtain k' ds' where item: "item = (k', ds')" by (cases item)
  show ?case
  proof (cases "\<forall>d \<in> set ds'. well_timed d")
    case True
    with Cons.prems item assms(4,5) have "(k, ds) \<in> set items" "ds' \<noteq> []" by auto
    then have "\<exists>p. perfilter_patches fw loc n items ps = Inl p" for ps
      using Cons.prems(1) by (intro Cons.IH) simp_all
    with \<open>ds' \<noteq> []\<close> generateLocalRateLimitDescriptors_eq [OF True, of fw loc] item show ?thesis
      by (auto simp: MessageToStruct_struct_of [OF assms(1)] Suc_le_eq split: list.splits)
  next
    case False
    then obtain p where "generateLocalRateLimitDescriptors fw ds' loc = Inl p"
      using generateLocalRateLimitDescriptors_total_iff [of fw ds' loc]
      by (cases "generateLocalRateLimitDescriptors fw ds' loc") auto
    with item show ?thesis by simp
  qed
qed simp

lemma keyed_descriptors_iff:
  "(k, d) \<in> set (keyed_descriptors ds) \<longleftrightarrow> d \<in> set ds \<and> k \<in> set (descriptor_keys d)"
  by (auto simp: keyed_descriptors_def)

lemma group_members:
  "fmlookup (group_all kvs) k = Some vs \<Longrightarrow> v \<in> set vs \<longleftrightarrow> (k, v) \<in> set kvs"
  by (auto simp: fmlookup_group_all image_iff split: if_splits)

lemma values_under_keyed_routes:
  assumes "fmlookup (group_all (keyed_descriptors ds)) k = Some vs"
  shows "values_under (group_all (keyed_routes ds)) k \<noteq> []"
proof -
  from assms have "k \<in> set (map fst (keyed_descriptors ds))"
    by (auto simp: fmlookup_group_all split: if_splits)
  then have k: "k \<in> fst ` set (keyed_routes ds)" by (simp add: keys_keyed)
  then have "fmlookup (group_all (keyed_routes ds)) k \<noteq> None"
    by (simp add: fmlookup_group_all)
  then obtain rcs where "fmlookup (group_all (keyed_routes ds)) k = Some rcs" by blast
  then show ?thesis using group_all_nonempty [of "keyed_routes ds" k rcs]
    by (simp add: values_under_def)
qed

lemma generateLocalRateLimitPerFilterPatch_eq:
  assumes "fair ch" and "converts_messages fw"
    and "\<forall>d \<in> set ds. descriptor_keys d \<noteq> [] \<longrightarrow> well_timed d"
  shows "generateLocalRateLimitPerFilterPatch fw ch ds loc = Inr (Some
           (map (\<lambda>(k, vs). perfilter_patch fw loc
                   (hd (values_under (group_all (keyed_routes ds)) k)) vs)
             (go_range ch (group_all (keyed_descriptors ds)))))"
proof -
  have "vs \<noteq> [] \<and> values_under (group_all (keyed_routes ds)) k \<noteq> [] \<and> (\<forall>d \<in> set vs. well_timed d)"
    if "fmlookup (group_all (keyed_descriptors ds)) k = Some vs" for k vs
    using that assms(3) group_all_nonempty values_under_keyed_routes group_members
      keyed_descriptors_iff by (metis empty_iff list.set(1))
  then have "\<forall>(k, vs) \<in> set (go_range ch (group_all (keyed_descriptors ds))).
      vs \<noteq> [] \<and> values_under (group_all (keyed_routes ds)) k \<noteq> [] \<and> (\<forall>d \<in> set vs. well_timed d)"
    using assms(1) by auto
  then show ?thesis
    by (simp add: generateLocalRateLimitPerFilterPatch_def perfilter_groups perfilter_patches_eq
        assms(2))
qed


text \<open>
  The generator panics exactly when a descriptor that reaches some route has no action or no
  fill interval: \<open>generateTokenBucket\<close> reads \<open>Action.FillInterval.Seconds\<close> unguarded.
\<close>

lemma perfilter_panic_iff:
  assumes "fair ch" and "converts_messages fw"
  shows "(\<exists>p. generateLocalRateLimitPerFilterPatch fw ch ds loc = Inl p) \<longleftrightarrow>
           (\<exists>d \<in> set ds. descriptor_keys d \<noteq> [] \<and> \<not> well_timed d)"
proof
  assume *: "\<exists>p. generateLocalRateLimitPerFilterPatch fw ch ds loc = Inl p"
  show "\<exists>d \<in> set ds. descriptor_keys d \<noteq> [] \<and> \<not> well_timed d"
  proof (rule ccontr)
    assume "\<not> ?thesis"
    then have "\<forall>d \<in> set ds. descriptor_keys d \<noteq> [] \<longrightarrow> well_timed d" by blast
    from generateLocalRateLimitPerFilterPatch_eq [OF assms this, of loc] * show False by simp
  qed
next
  assume "\<exists>d \<in> set ds. descriptor_keys d \<noteq> [] \<and> \<not> well_timed d"
  then obtain d k where d: "d \<in> set ds" "k \<in> set (descriptor_keys d)" "\<not> well_timed d"
    by (metis list.set_intros(1) neq_Nil_conv)
  then have kd: "(k, d) \<in> set (keyed_descriptors ds)" by (simp add: keyed_descriptors_iff)
  then have "k \<in> fst ` set (keyed_descriptors ds)" by (rule rev_image_eqI) simp
  then obtain vs where vs: "fmlookup (group_all (keyed_descriptors ds)) k = Some vs"
    by (simp add: fmlookup_group_all)
  have "d \<in> set vs" unfolding group_members [OF vs] by (rule kd)
  moreover have "\<forall>(k, vs) \<in> set (go_range ch (group_all (keyed_descriptors ds))). vs \<noteq> []"
    using assms(1) group_all_nonempty by auto
  moreover have "(k, vs) \<in> set (go_range ch (group_all (keyed_descriptors ds)))"
    using assms(1) vs by simp
  ultimately have "\<exists>p. perfilter_patches fw loc (group_all (keyed_routes ds))
          (go_range ch (group_all (keyed_descriptors ds))) [] = Inl p"
    using perfilter_patches_panic [OF assms(2)] d(3) by blast
  then show "\<exists>p. generateLocalRateLimitPerFilterPatch fw ch ds loc = Inl p"
    by (simp add: generateLocalRateLimitPerFilterPatch_def perfilter_groups)
qed

subsection \<open>The route a patch is for\<close>

definition key_route :: "string \<Rightarrow> object_types" where
  "key_route k = RouteConfigurationMatch (strings_Split (CHR ''/'') k ! 0)
                   (strings_Split (CHR ''/'') k ! 1)"

lemma key_route_genVhostRouteName:
  "rc \<in> set (generateRouteConfigs t) \<Longrightarrow>
     ObjectTypes (generateEnvoyVhostMatch rc) = key_route (genVhostRouteName rc)"
  using route_config_no_slash [of rc t]
  by (simp add: key_route_def genVhostRouteName_def generateEnvoyVhostMatch_def Split_pair)

lemma routed_Inr:
  "routed fw loc d = Inr kvs \<Longrightarrow> (k, v) \<in> set kvs \<Longrightarrow>
     \<exists>rc a. rc \<in> set (generateRouteConfigs (Target d)) \<and> k = genVhostRouteName rc
       \<and> v = with_action a rc \<and> generateRouteRateLimitAction fw d loc = Inr (Some a)"
  by (auto simp: routed_def split: option.splits) blast

lemma routed_action:
  "generateRouteRateLimitAction fw d loc = Inr (Some a) \<Longrightarrow>
     routed fw loc d = Inr (map (\<lambda>rc. (genVhostRouteName rc, with_action a rc))
                              (generateRouteConfigs (Target d)))"
  by (simp add: routed_def)

lemma routed_total_iff [go_total]: "(\<exists>kvs. routed fw loc d = Inr kvs) \<longleftrightarrow> custom d \<or> no_nil_match d"
  by (simp add: routed_def go_total)

lemma routes_total_iff:
  "(\<exists>kvss. gmap (routed fw loc) ds = Inr kvss) \<longleftrightarrow> (\<forall>d \<in> set ds. custom d \<or> no_nil_match d)"
  by (simp add: go_total)

lemma gmap_routed_member:
  assumes "gmap (routed fw loc) ds = Inr kvss"
  shows "(k, v) \<in> set (concat kvss) \<longleftrightarrow>
           (\<exists>d \<in> set ds. \<exists>rc a. rc \<in> set (generateRouteConfigs (Target d))
              \<and> k = genVhostRouteName rc \<and> v = with_action a rc
              \<and> generateRouteRateLimitAction fw d loc = Inr (Some a))"
    (is "?l \<longleftrightarrow> ?r")
proof
  assume ?l
  then obtain kvs where kvs: "kvs \<in> set kvss" "(k, v) \<in> set kvs" by auto
  then obtain d where "d \<in> set ds" "routed fw loc d = Inr kvs" using gmap_set [OF assms] by blast
  with routed_Inr [OF this(2) kvs(2)] show ?r by blast
next
  assume ?r
  then obtain d rc a where *: "d \<in> set ds" "rc \<in> set (generateRouteConfigs (Target d))"
    "k = genVhostRouteName rc" "v = with_action a rc"
    "generateRouteRateLimitAction fw d loc = Inr (Some a)" by blast
  have "map (\<lambda>rc. (genVhostRouteName rc, with_action a rc)) (generateRouteConfigs (Target d))
      \<in> set kvss"
    using gmap_set [OF assms] *(1) routed_action [OF *(5)] by blast
  moreover have "(k, v) \<in> set (map (\<lambda>rc. (genVhostRouteName rc, with_action a rc))
      (generateRouteConfigs (Target d)))"
    using *(2,3,4) by simp
  ultimately show ?l by (simp only: set_concat) blast
qed

lemma local_rate_limit_descriptors [simp]: "LR_Descriptors (local_rate_limit fw ds) = ds"
  by (simp add: local_rate_limit_def)

subsection \<open>When the route patches exist, and the size of a bucket\<close>

lemma router_total_iff:
  assumes "fair ch" "converts_messages fw"
  shows "(\<exists>ps. generateHttpRouterPatch fw ch ds loc = Inr (Inr ps)) \<longleftrightarrow>
           (\<forall>d \<in> set ds. custom d \<or> no_nil_match d)"
proof
  assume "\<exists>ps. generateHttpRouterPatch fw ch ds loc = Inr (Inr ps)"
  then obtain kvss where "gmap (routed fw loc) ds = Inr kvss"
    by (auto simp: generateHttpRouterPatch_def router_groups)
  then show "\<forall>d \<in> set ds. custom d \<or> no_nil_match d"
    using routes_total_iff by blast
next
  assume "\<forall>d \<in> set ds. custom d \<or> no_nil_match d"
  then obtain kvss where "gmap (routed fw loc) ds = Inr kvss"
    using routes_total_iff by blast
  from generateHttpRouterPatch_eq [OF assms this]
  show "\<exists>ps. generateHttpRouterPatch fw ch ds loc = Inr (Inr ps)" by blast
qed

lemma token_bucket_wraps:
  assumes "Action d = Some a" "FillInterval a = Some f" "Quota a = fmt_int (sint (v :: 64 word))"
  shows "\<exists>b. generateTokenBucket d = Inr b \<and> uint (MaxTokens b) = sint v mod 2 ^ 32
           \<and> TokensPerFill b = MaxTokens b"
proof -
  have "uint (ucast v :: 32 word) = sint v mod 2 ^ 32"
  proof -
    have "uint v = sint v mod 2 ^ 64"
      using uint_word_of_int [of "sint v", where 'a = 64] by simp
    then show ?thesis by (simp add: unsigned_ucast_eq take_bit_eq_mod mod_mod_cancel)
  qed
  with assms show ?thesis by (simp add: generateTokenBucket_def Atoi_fmt_int)
qed

end
