(* ===== verification/GlobalLimit.thy ===== *)
theory GlobalLimit
  imports LocalLimit
begin

section \<open>Global rate limits: \<open>controllers/envoy_global_limit.go\<close>\<close>

text \<open>
  The patch that inserts Envoy's global rate limit filter with the address of the
  rate-limit service, and the descriptors the service reads from its ConfigMap: a key, the
  value of \<open>generateDescriptorValue\<close>, and a number of requests per unit. The unit comes
  from the fill interval, of which the service supports four; the first descriptor with
  another interval (or a quota that is no number) ends the loop.
\<close>

definition generateRateLimitService :: "string \<Rightarrow> RateLimitServiceConfig" where
  "generateRateLimitService clusterName =
     \<lparr>ClusterName = clusterName, TransportApiVersion = ApiVersion_V3\<rparr>"

definition generateEnvoyHttpFilterMatch :: "framework \<Rightarrow> EnvoyConfigObjectMatch" where
  "generateEnvoyHttpFilterMatch fw =
     \<lparr>Context = SIDECAR_INBOUND,
      ObjectTypes = ListenerMatch (Envoy_HttpConnectionManager fw) (Envoy_Route fw)\<rparr>"

definition generateEnvoyHttpFilterRateLimitServicePatch :: "framework \<Rightarrow> pbstruct \<Rightarrow> EnvoyFilter_Patch" where
  "generateEnvoyHttpFilterRateLimitServicePatch fw rs =
     \<lparr>Operation = INSERT_BEFORE,
      Patch_Value = fmap_of_list
        [(Struct_HttpFilter_Name fw, StringValue EnvoyFiltersHttpRateLimit),
         (Struct_HttpFilter_TypedConfig fw, StructValue (fmap_of_list
            [(Struct_Any_AtType fw, StringValue (TypeUrl_UdpaTypedStruct fw)),
             (Struct_Any_TypedUrl fw, StringValue TypeUrlEnvoyRateLimit),
             (Struct_Any_Value fw, StructValue (fmap_of_list
                [(StructDomain, StringValue DomainName),
                 (StructRateLimitService, StructValue rs)]))]))]\<rparr>"

definition generateEnvoyHttpFilterGlobalRateLimitPatch ::
    "framework \<Rightarrow> string \<Rightarrow> EnvoyConfigObjectPatch option" where
  "generateEnvoyHttpFilterGlobalRateLimitPatch fw server =
     (case MessageToStruct fw (RateLimitServiceMessage (generateRateLimitService server)) of
        Inl _ \<Rightarrow> None
      | Inr rs \<Rightarrow> Some
          \<lparr>ApplyTo = HTTP_FILTER, Patch_Match = Some (generateEnvoyHttpFilterMatch fw),
           Patch = generateEnvoyHttpFilterRateLimitServicePatch fw rs\<rparr>)"

definition calculateQuotaPerUnit ::
    "SmartLimitDescriptor \<Rightarrow> (64 word \<times> string \<times> goerror option) go" where
  "calculateQuotaPerUnit descriptor =
     gbind (deref (Action descriptor)) (\<lambda>action.
       case Atoi (Quota action) of
         (quota, Some err) \<Rightarrow> Inr (quota, '''', Some err)
       | (quota, None) \<Rightarrow>
           gbind (deref (FillInterval action)) (\<lambda>fill.
             let seconds = Seconds fill
             in if seconds = 60 * 60 * 24 then Inr (quota, ''DAY'', None)
                else if seconds = 60 * 60 then Inr (quota, ''HOUR'', None)
                else if seconds = 60 then Inr (quota, ''MINUTE'', None)
                else if seconds = 1 then Inr (quota, ''SECOND'', None)
                else Inr (quota, '''', Some (OtherError ''invalid time in global rate limit''))))"

fun generateGlobalRateLimitDescriptor_loop ::
    "framework \<Rightarrow> NamespacedName \<Rightarrow> SmartLimitDescriptor list \<Rightarrow> Descriptor list \<Rightarrow> Descriptor list go" where
  "generateGlobalRateLimitDescriptor_loop fw loc [] desc = Inr desc"
| "generateGlobalRateLimitDescriptor_loop fw loc (descriptor # rest) desc =
     gbind (calculateQuotaPerUnit descriptor) (\<lambda>(quota, unit, err).
       case err of
         Some _ \<Rightarrow> Inr desc
       | None \<Rightarrow> generateGlobalRateLimitDescriptor_loop fw loc rest (desc @
           [\<lparr>Key = (if length (elems (Match descriptor)) = 0 then GenericKeyName
                    else HeaderValueMatchName),
             Value = generateDescriptorValue fw descriptor loc,
             Descriptor_RateLimit = Some \<lparr>RequestsPerUnit = ucast quota, Unit = unit\<rparr>\<rparr>]))"

definition generateGlobalRateLimitDescriptor ::
    "framework \<Rightarrow> SmartLimitDescriptor list \<Rightarrow> NamespacedName \<Rightarrow> Descriptor list go" where
  "generateGlobalRateLimitDescriptor fw descriptors loc =
     generateGlobalRateLimitDescriptor_loop fw loc descriptors []"

definition getRateLimiterServerCluster :: "string \<Rightarrow> string" where
  "getRateLimiterServerCluster server = (if server = '''' then RateLimitService else server)"

definition getConfigMapNamespaceName :: NamespacedName where
  "getConfigMapNamespaceName = \<lparr>NN_Namespace = ConfigMapNamespace, NN_Name = ConfigMapName\<rparr>"

subsection \<open>Units\<close>

text \<open>The intervals the rate-limit service supports, by their unit.\<close>

definition unit_of_seconds :: "int \<Rightarrow> string option" where
  "unit_of_seconds n =
     (if n = 86400 then Some ''DAY'' else if n = 3600 then Some ''HOUR''
      else if n = 60 then Some ''MINUTE'' else if n = 1 then Some ''SECOND'' else None)"

lemma sint_eq_numeral_iff:
  "sint (w :: 64 word) = 86400 \<longleftrightarrow> w = 86400" "sint w = 3600 \<longleftrightarrow> w = 3600"
  "sint w = 60 \<longleftrightarrow> w = 60" "sint w = 1 \<longleftrightarrow> w = 1"
proof -
  have *: "sint w = sint v \<longleftrightarrow> w = v" for v :: "64 word" by (rule signed_word_eqI [THEN iffI]) auto
  show "sint w = 86400 \<longleftrightarrow> w = 86400" "sint w = 3600 \<longleftrightarrow> w = 3600"
    "sint w = 60 \<longleftrightarrow> w = 60" "sint w = 1 \<longleftrightarrow> w = 1"
    using * [of 86400] * [of 3600] * [of 60] * [of 1] by simp_all
qed

lemma calculateQuotaPerUnit_eq:
  assumes "Action d = Some a" "FillInterval a = Some f" "Atoi (Quota a) = (q, None)"
  shows "calculateQuotaPerUnit d = Inr (case unit_of_seconds (sint (Seconds f)) of
           None \<Rightarrow> (q, '''', Some (OtherError ''invalid time in global rate limit''))
         | Some u \<Rightarrow> (q, u, None))"
  using assms by (simp add: calculateQuotaPerUnit_def unit_of_seconds_def Let_def sint_eq_numeral_iff)

subsection \<open>The descriptors of the rate-limit service\<close>

definition global_item :: "framework \<Rightarrow> NamespacedName \<Rightarrow> SmartLimitDescriptor \<Rightarrow> Descriptor option" where
  "global_item fw loc d =
     (case Action d of
        None \<Rightarrow> None
      | Some a \<Rightarrow>
          (case (FillInterval a, Atoi (Quota a)) of
             (Some f, q, None) \<Rightarrow> map_option (\<lambda>u.
                 \<lparr>Key = (if elems (Match d) = [] then ''generic_key'' else ''header_match''),
                  Value = generateDescriptorValue fw d loc,
                  Descriptor_RateLimit = Some \<lparr>RequestsPerUnit = ucast q, Unit = u\<rparr>\<rparr>)
               (unit_of_seconds (sint (Seconds f)))
           | _ \<Rightarrow> None))"

lemma global_loop_eq:
  assumes "\<forall>d \<in> set ds. well_timed d"
  shows "generateGlobalRateLimitDescriptor_loop fw loc ds desc =
           Inr (desc @ List.map_filter (global_item fw loc)
                         (takeWhile (\<lambda>d. global_item fw loc d \<noteq> None) ds))"
  using assms
proof (induction ds arbitrary: desc)
  case (Cons d ds)
  then obtain a f where d: "Action d = Some a" "FillInterval a = Some f"
    by (auto simp: well_timed_def)
  obtain q err where q: "Atoi (Quota a) = (q, err)" by (cases "Atoi (Quota a)")
  show ?case
  proof (cases err)
    case None
    with Cons d q calculateQuotaPerUnit_eq [of d a f q] show ?thesis
      by (cases "unit_of_seconds (sint (Seconds f))")
        (simp_all add: global_item_def map_filter_simps GenericKeyName_def HeaderValueMatchName_def)
  next
    case (Some e)
    with d q show ?thesis
      by (simp add: calculateQuotaPerUnit_def global_item_def map_filter_simps)
  qed
qed (simp add: map_filter_simps)

lemma generateGlobalRateLimitDescriptor_eq:
  "\<forall>d \<in> set ds. well_timed d \<Longrightarrow>
     generateGlobalRateLimitDescriptor fw ds loc =
       Inr (List.map_filter (global_item fw loc) (takeWhile (\<lambda>d. global_item fw loc d \<noteq> None) ds))"
  by (simp add: generateGlobalRateLimitDescriptor_def global_loop_eq)

text \<open>A service descriptor carries the key and value of the action on the route.\<close>

lemma global_item_action:
  assumes "global_item fw loc d = Some item"
    and "generateRouteRateLimitAction fw d loc = Inr (Some a)"
  shows "\<lparr>Entry_Key = Key item, Entry_Value = Value item\<rparr> = action_entry a"
proof -
  have "Key item = (if elems (Match d) = [] then ''generic_key'' else ''header_match'')"
    "Value item = generateDescriptorValue fw d loc"
    using assms(1) by (auto simp: global_item_def split: option.splits prod.splits)
  then show ?thesis
    using assms(2) by (auto simp: generateRouteRateLimitAction_def split: if_splits)
qed

end
