(* ===== verification/EnvoyFilters.thy ===== *)
theory EnvoyFilters
  imports GlobalLimit
begin

section \<open>From a SmartLimiter to EnvoyFilters: \<open>controllers/envoy_filters.go\<close>\<close>

text \<open>
  \<open>GenerateEnvoyConfigs\<close> visits the subsets of the host and the base set. For each it
  evaluates the conditions and quotas of the descriptors against the current metrics, and
  builds the EnvoyFilter of the set (\<open>descriptorsToEnvoyFilter\<close>), its entry of the status
  and the descriptors for the rate-limit service. A nil EnvoyFilter means "none wanted".
\<close>

definition descriptorsToEnvoyFilter ::
    "framework \<Rightarrow> chooser \<Rightarrow> SmartLimitDescriptor list \<Rightarrow> string gomap \<Rightarrow> NamespacedName \<Rightarrow> string
       \<Rightarrow> EnvoyFilter option go" where
  "descriptorsToEnvoyFilter fw ch descriptors labels loc rls =
     (let has_strategy = (\<lambda>P d. case Action d of None \<Rightarrow> False | Some a \<Rightarrow> P (Strategy a));
          globalDescriptors = filter (has_strategy (\<lambda>s. s = GlobalSmartLimiter)) descriptors;
          localDescriptors = filter (has_strategy (\<lambda>s. s \<noteq> GlobalSmartLimiter)) descriptors
      in gbind (generateHttpRouterPatch fw (ch_left ch) descriptors loc) (\<lambda>router.
         case router of
           Inl err \<Rightarrow> Inr None
         | Inr httpRouterPatches \<Rightarrow>
             let patches1 = map Some httpRouterPatches;
                 patches2 =
                   (if 0 < length globalDescriptors
                    then (case generateEnvoyHttpFilterGlobalRateLimitPatch fw
                                 (getRateLimiterServerCluster rls) of
                            None \<Rightarrow> patches1
                          | Some p \<Rightarrow> patches1 @ [Some p])
                    else patches1)
             in if 0 < length localDescriptors
                then gbind (generateLocalRateLimitPerFilterPatch fw (ch_right ch) localDescriptors loc)
                       (\<lambda>perFilterPatch. Inr (Some
                          \<lparr>WorkloadSelector_Labels = labels,
                           ConfigPatches = patches2 @ [generateHttpFilterLocalRateLimitPatch fw]
                                           @ map Some (elems perFilterPatch)\<rparr>))
                else Inr (Some \<lparr>WorkloadSelector_Labels = labels, ConfigPatches = patches2\<rparr>)))"

fun globalDescriptors_loop ::
    "SmartLimitDescriptor list \<Rightarrow> SmartLimitDescriptor list go" where
  "globalDescriptors_loop [] = Inr []"
| "globalDescriptors_loop (descriptor # rest) =
     gbind (deref (Action descriptor)) (\<lambda>action.
       gbind (globalDescriptors_loop rest) (\<lambda>ds.
         Inr (if Strategy action = GlobalSmartLimiter then descriptor # ds else ds)))"

definition descriptorsToGlobalRateLimit ::
    "framework \<Rightarrow> SmartLimitDescriptor list \<Rightarrow> NamespacedName \<Rightarrow> Descriptor list go" where
  "descriptorsToGlobalRateLimit fw descriptors loc =
     gbind (globalDescriptors_loop descriptors) (\<lambda>globalDescriptors.
       generateGlobalRateLimitDescriptor fw globalDescriptors loc)"

subsection \<open>Evaluating the descriptors of a set\<close>

definition evaluate_descriptor ::
    "framework \<Rightarrow> (string, iface) fmap \<Rightarrow> SmartLimitDescriptor \<Rightarrow> SmartLimitDescriptor option" where
  "evaluate_descriptor fw material des =
     (case CalculateTemplateBool fw (Condition des) material of
        Inl err \<Rightarrow> None
      | Inr shouldUpdate \<Rightarrow>
          if \<not> shouldUpdate then None
          else (case Action des of
                  None \<Rightarrow> None
                | Some action \<Rightarrow>
                    (case CalculateTemplate fw (Quota action) material of
                       Inl err \<Rightarrow> None
                     | Inr rateLimitValue \<Rightarrow> Some
                         \<lparr>Condition = '''',
                          Action = Some \<lparr>Quota = fmt_int (sint rateLimitValue),
                                         FillInterval = FillInterval action,
                                         Strategy = Strategy action\<rparr>,
                          Match = Match des, Target = Target des,
                          CustomKey = '''', CustomValue = ''''\<rparr>)))"

fun valid_descriptors ::
    "framework \<Rightarrow> (string, iface) fmap \<Rightarrow> SmartLimitDescriptor option list
       \<Rightarrow> SmartLimitDescriptor list go" where
  "valid_descriptors fw material [] = Inr []"
| "valid_descriptors fw material (des # rest) =
     gbind (deref des) (\<lambda>d.
       gbind (valid_descriptors fw material rest) (\<lambda>ds.
         Inr (case evaluate_descriptor fw material d of None \<Rightarrow> ds | Some v \<Rightarrow> v # ds)))"

subsection \<open>One set, all sets\<close>

record configs =
  setsEnvoyFilter :: "(string, EnvoyFilter option) fmap"
  setsSmartLimitDescriptor :: "(string, SmartLimitDescriptors option) fmap"
  configs_globalDescriptors :: "Descriptor list"

definition no_configs :: configs where
  "no_configs = \<lparr>setsEnvoyFilter = fmempty, setsSmartLimitDescriptor = fmempty,
                 configs_globalDescriptors = []\<rparr>"

definition set_step ::
    "framework \<Rightarrow> chooser \<Rightarrow> SmartLimiterSpec \<Rightarrow> (string, iface) fmap \<Rightarrow> string gomap
       \<Rightarrow> NamespacedName \<Rightarrow> Subset \<Rightarrow> configs \<Rightarrow> configs go" where
  "set_step fw ch spec material svcSelector loc sb cs =
     (case map_get (Sets spec) (Subset_Name sb) of
        None \<Rightarrow> Inr (cs\<lparr>setsEnvoyFilter := fmupd (Subset_Name sb) None (setsEnvoyFilter cs)\<rparr>)
      | Some setDescriptor \<Rightarrow>
          gbind (deref setDescriptor) (\<lambda>sd.
          gbind (valid_descriptors fw material (elems (Descriptor_items sd))) (\<lambda>valid.
            if length valid = 0
            then Inr (cs\<lparr>setsEnvoyFilter := fmupd (Subset_Name sb) None (setsEnvoyFilter cs)\<rparr>)
            else
              gbind (gfold (\<lambda>(k, v). map_set k v)
                       (go_range (ch_left ch) (map_items (Subset_Labels sb)))
                       (CopyMap fw svcSelector)) (\<lambda>selector.
              gbind (descriptorsToEnvoyFilter fw (ch_right ch) valid selector loc (Rls spec)) (\<lambda>ef.
              gbind (descriptorsToGlobalRateLimit fw valid loc) (\<lambda>desc.
                Inr (cs\<lparr>setsEnvoyFilter := fmupd (Subset_Name sb) ef (setsEnvoyFilter cs),
                        setsSmartLimitDescriptor :=
                          fmupd (Subset_Name sb) (Some \<lparr>Descriptor_items = Some (map Some valid)\<rparr>)
                            (setsSmartLimitDescriptor cs),
                        configs_globalDescriptors := configs_globalDescriptors cs @ desc\<rparr>)))))))"

fun sets_loop ::
    "framework \<Rightarrow> chooser \<Rightarrow> SmartLimiterSpec \<Rightarrow> (string, iface) fmap \<Rightarrow> string gomap
       \<Rightarrow> NamespacedName \<Rightarrow> Subset option list \<Rightarrow> configs \<Rightarrow> configs go" where
  "sets_loop fw ch spec material svcSelector loc [] cs = Inr cs"
| "sets_loop fw ch spec material svcSelector loc (sb # sets) cs =
     gbind (deref sb) (\<lambda>set.
     gbind (set_step fw (ch_left ch) spec material svcSelector loc set cs)
       (sets_loop fw (ch_right ch) spec material svcSelector loc sets))"

text \<open>A type assertion of a nil interface panics, too.\<close>

definition host_sets :: "framework \<Rightarrow> 'w client \<Rightarrow> 'w \<Rightarrow> NamespacedName \<Rightarrow> Subset option list go" where
  "host_sets fw C w loc =
     (let host = UnityHost fw (NN_Name loc) (NN_Namespace loc)
      in gbind (if HostSubsetMapping_Get C w 0 host \<noteq> NoEntry
                then (case HostSubsetMapping_Get C w 1 host of
                        SubsetSlice subsets \<Rightarrow> Inr subsets
                      | _ \<Rightarrow> Inl TypeAssertion)
                else Inr [])
           (\<lambda>sets. Inr (sets @ [Some \<lparr>Subset_Name = Wellkonw_BaseSet fw, Subset_Labels = None\<rparr>])))"

definition GenerateEnvoyConfigs ::
    "framework \<Rightarrow> 'w client \<Rightarrow> chooser \<Rightarrow> 'w \<Rightarrow> SmartLimiterSpec \<Rightarrow> string gomap \<Rightarrow> NamespacedName
       \<Rightarrow> (configs \<times> goerror option) go" where
  "GenerateEnvoyConfigs fw C ch w spec material loc =
     gbind (host_sets fw C w loc) (\<lambda>sets.
       case Get_Service C w loc of
         Inl err \<Rightarrow> Inr (no_configs, Some err)
       | Inr svc \<Rightarrow>
           gbind (sets_loop fw ch spec (MapToMapInterface fw material) (Service_Selector svc) loc
                    sets no_configs) (\<lambda>cs. Inr (cs, None)))"

subsection \<open>The EnvoyFilter of a set\<close>

definition is_global :: "SmartLimitDescriptor \<Rightarrow> bool" where
  "is_global d = (case Action d of None \<Rightarrow> False | Some a \<Rightarrow> Strategy a = ''global'')"

definition is_local :: "SmartLimitDescriptor \<Rightarrow> bool" where
  "is_local d = (case Action d of None \<Rightarrow> False | Some a \<Rightarrow> Strategy a \<noteq> ''global'')"

lemma descriptorsToEnvoyFilter_unfold:
  "descriptorsToEnvoyFilter fw ch ds labels loc rls =
     gbind (generateHttpRouterPatch fw (ch_left ch) ds loc) (\<lambda>router.
       case router of
         Inl err \<Rightarrow> Inr None
       | Inr rps \<Rightarrow>
           let gps = (if filter is_global ds = [] then []
                      else case generateEnvoyHttpFilterGlobalRateLimitPatch fw
                                  (getRateLimiterServerCluster rls) of
                             None \<Rightarrow> [] | Some p \<Rightarrow> [Some p])
           in if filter is_local ds = []
              then Inr (Some \<lparr>WorkloadSelector_Labels = labels, ConfigPatches = map Some rps @ gps\<rparr>)
              else gbind (generateLocalRateLimitPerFilterPatch fw (ch_right ch) (filter is_local ds) loc)
                (\<lambda>pps. Inr (Some \<lparr>WorkloadSelector_Labels = labels,
                   ConfigPatches = map Some rps @ gps @ [generateHttpFilterLocalRateLimitPatch fw]
                                    @ map Some (elems pps)\<rparr>)))"
proof -
  have g: "(\<lambda>d. case Action d of None \<Rightarrow> False | Some a \<Rightarrow> Strategy a = GlobalSmartLimiter) = is_global"
    by (auto simp: is_global_def GlobalSmartLimiter_def fun_eq_iff split: option.splits)
  have l: "(\<lambda>d. case Action d of None \<Rightarrow> False | Some a \<Rightarrow> Strategy a \<noteq> GlobalSmartLimiter) = is_local"
    by (auto simp: is_local_def GlobalSmartLimiter_def fun_eq_iff split: option.splits)
  show ?thesis
    unfolding descriptorsToEnvoyFilter_def g l Let_def
    by (intro arg_cong [where f = "gbind _"] ext)
      (auto split: sum.split option.split intro!: arg_cong [where f = "gbind _"])
qed

lemma descriptorsToEnvoyFilter_Some:
  assumes "descriptorsToEnvoyFilter fw ch ds labels loc rls = Inr (Some ef)"
  obtains rps where
    "generateHttpRouterPatch fw (ch_left ch) ds loc = Inr (Inr rps)"
    "WorkloadSelector_Labels ef = labels" "set (map Some rps) \<subseteq> set (ConfigPatches ef)"
    "filter is_local ds \<noteq> [] \<Longrightarrow> \<exists>pps.
        generateLocalRateLimitPerFilterPatch fw (ch_right ch) (filter is_local ds) loc = Inr pps
      \<and> set (map Some (elems pps)) \<subseteq> set (ConfigPatches ef)
      \<and> generateHttpFilterLocalRateLimitPatch fw \<in> set (ConfigPatches ef)"
proof -
  have router: "\<exists>rps. generateHttpRouterPatch fw (ch_left ch) ds loc = Inr (Inr rps)"
  proof (cases "generateHttpRouterPatch fw (ch_left ch) ds loc")
    case (Inr r)
    with assms show ?thesis by (cases r) (simp_all add: descriptorsToEnvoyFilter_unfold)
  qed (use assms in \<open>simp add: descriptorsToEnvoyFilter_unfold\<close>)
  then obtain rps where rps: "generateHttpRouterPatch fw (ch_left ch) ds loc = Inr (Inr rps)" by blast
  from assms show ?thesis
    unfolding descriptorsToEnvoyFilter_unfold rps
    by (intro that [OF rps]) (auto simp: Let_def split: if_splits option.splits)
qed

lemma filter_eq_Nil: "filter P xs = [] \<longleftrightarrow> (\<forall>x \<in> set xs. \<not> P x)"
  by (induction xs) auto

text \<open>When the set's EnvoyFilter is produced at all, and when producing it panics.\<close>

lemma descriptorsToEnvoyFilter_panic_iff:
  assumes "fair ch" "converts_messages fw"
  shows "(\<exists>p. descriptorsToEnvoyFilter fw ch ds labels loc rls = Inl p) \<longleftrightarrow>
           (\<exists>d \<in> set ds. \<not> custom d \<and> \<not> no_nil_match d)
         \<or> (\<exists>d \<in> set ds. is_local d \<and> descriptor_keys d \<noteq> [] \<and> \<not> well_timed d)"
    (is "?panic \<longleftrightarrow> ?nil \<or> ?untimed")
proof (cases "generateHttpRouterPatch fw (ch_left ch) ds loc")
  case (Inl p)
  then have "\<not> (\<exists>ps. generateHttpRouterPatch fw (ch_left ch) ds loc = Inr (Inr ps))" by simp
  then have ?nil using router_total_iff [OF fair_ch_left [OF assms(1)] assms(2), of ds loc] by blast
  moreover have ?panic using Inl by (simp add: descriptorsToEnvoyFilter_unfold)
  ultimately show ?thesis by blast
next
  case (Inr r)
  then obtain kvss where "gmap (routed fw loc) ds = Inr kvss"
    by (auto simp: generateHttpRouterPatch_def router_groups)
  from generateHttpRouterPatch_eq [OF fair_ch_left [OF assms(1)] assms(2) this]
  obtain rps where rps: "generateHttpRouterPatch fw (ch_left ch) ds loc = Inr (Inr rps)" by blast
  then have "\<not> ?nil"
    using router_total_iff [OF fair_ch_left [OF assms(1)] assms(2), of ds loc] by blast
  moreover have "?panic \<longleftrightarrow>
      filter is_local ds \<noteq> [] \<and>
      (\<exists>p. generateLocalRateLimitPerFilterPatch fw (ch_right ch) (filter is_local ds) loc = Inl p)"
    by (auto simp: descriptorsToEnvoyFilter_unfold rps Let_def gbind_Inl_iff)
  ultimately show ?thesis
    using perfilter_panic_iff [OF fair_ch_right [OF assms(1)] assms(2), of "filter is_local ds" loc]
    by (auto simp: filter_eq_Nil)
qed

lemma descriptorsToEnvoyFilter_not_nil:
  assumes "fair ch" "converts_messages fw"
  shows "descriptorsToEnvoyFilter fw ch ds labels loc rls \<noteq> Inr None"
proof
  assume *: "descriptorsToEnvoyFilter fw ch ds labels loc rls = Inr None"
  then obtain r where "generateHttpRouterPatch fw (ch_left ch) ds loc = Inr r"
    by (auto simp: descriptorsToEnvoyFilter_unfold)
  then obtain kvss where "gmap (routed fw loc) ds = Inr kvss"
    by (auto simp: generateHttpRouterPatch_def router_groups)
  from generateHttpRouterPatch_eq [OF fair_ch_left [OF assms(1)] assms(2) this] *
  show False by (auto simp: descriptorsToEnvoyFilter_unfold Let_def split: if_splits)
qed

lemma globalDescriptors_loop_eq:
  "\<forall>d \<in> set ds. Action d \<noteq> None \<Longrightarrow> globalDescriptors_loop ds = Inr (filter is_global ds)"
  by (induction ds) (auto simp: is_global_def GlobalSmartLimiter_def)

subsection \<open>Evaluated descriptors\<close>

lemma valid_descriptors_Inr_iff:
  "valid_descriptors fw m ds = Inr vs \<longleftrightarrow>
     None \<notin> set ds \<and> vs = List.map_filter (\<lambda>d. Option.bind d (evaluate_descriptor fw m)) ds"
proof (induction ds arbitrary: vs)
  case (Cons d ds)
  then show ?case
    by (cases d) (auto simp: map_filter_simps split: option.splits)
qed (auto simp: map_filter_simps)

lemma evaluate_descriptor_Some:
  "evaluate_descriptor fw m d = Some v \<Longrightarrow>
     \<not> custom v \<and> Condition v = '''' \<and> Match v = Match d \<and> Target v = Target d
     \<and> CalculateTemplateBool fw (Condition d) m = Inr True
     \<and> (\<exists>a n. Action d = Some a \<and> CalculateTemplate fw (Quota a) m = Inr n
          \<and> Action v = Some \<lparr>Quota = fmt_int (sint n), FillInterval = FillInterval a,
                             Strategy = Strategy a\<rparr>)"
  by (auto simp: evaluate_descriptor_def custom_def split: sum.splits if_splits option.splits)

lemma valid_descriptors_member:
  assumes "valid_descriptors fw m ds = Inr vs" and "v \<in> set vs"
  obtains d where "Some d \<in> set ds" "evaluate_descriptor fw m d = Some v"
  using assms by (auto simp: valid_descriptors_Inr_iff List.map_filter_def bind_eq_Some_conv)

subsection \<open>The result for each set\<close>

text \<open>
  \<open>set_valid\<close> is the specification of the evaluation: the descriptors of a set whose condition is
  true, which have an action, and whose quota can be calculated, with the calculated quotas, in order.
\<close>

definition set_valid ::
    "framework \<Rightarrow> SmartLimiterSpec \<Rightarrow> (string, iface) fmap \<Rightarrow> string \<Rightarrow> SmartLimitDescriptor list" where
  "set_valid fw spec m k =
     (case map_get (Sets spec) k of
        Some (Some sd) \<Rightarrow>
          List.map_filter (\<lambda>d. Option.bind d (evaluate_descriptor fw m)) (elems (Descriptor_items sd))
      | _ \<Rightarrow> [])"

lemma set_valid_nonempty:
  "set_valid fw spec m k \<noteq> [] \<longleftrightarrow>
     (\<exists>sd d a n. map_get (Sets spec) k = Some (Some sd) \<and> Some d \<in> set (elems (Descriptor_items sd))
        \<and> CalculateTemplateBool fw (Condition d) m = Inr True
        \<and> Action d = Some a \<and> CalculateTemplate fw (Quota a) m = Inr n)"
proof -
  have evaluated: "evaluate_descriptor fw m d \<noteq> None \<longleftrightarrow> CalculateTemplateBool fw (Condition d) m = Inr True
      \<and> (\<exists>a n. Action d = Some a \<and> CalculateTemplate fw (Quota a) m = Inr n)" for d
    by (auto simp: evaluate_descriptor_def split: sum.splits option.splits)
  have "List.map_filter (\<lambda>d. Option.bind d (evaluate_descriptor fw m)) xs \<noteq> []
      \<longleftrightarrow> (\<exists>d. Some d \<in> set xs \<and> evaluate_descriptor fw m d \<noteq> None)" for xs
    by (force simp: List.map_filter_def filter_empty_conv bind_eq_None_conv)
  then have "set_valid fw spec m k \<noteq> [] \<longleftrightarrow> (\<exists>sd d. map_get (Sets spec) k = Some (Some sd)
      \<and> Some d \<in> set (elems (Descriptor_items sd)) \<and> evaluate_descriptor fw m d \<noteq> None)"
    by (simp add: set_valid_def split: option.split)
  then show ?thesis unfolding evaluated by blast
qed

definition status_entry :: "SmartLimitDescriptor list \<Rightarrow> SmartLimitDescriptors option" where
  "status_entry vs = Some \<lparr>Descriptor_items = Some (map Some vs)\<rparr>"

definition selector_of :: "framework \<Rightarrow> string gomap \<Rightarrow> Subset \<Rightarrow> chooser \<Rightarrow> string gomap go" where
  "selector_of fw sel sb ch =
     gfold (\<lambda>(k, v). map_set k v) (go_range ch (map_items (Subset_Labels sb))) (CopyMap fw sel)"

lemma gfold_map_set: "gfold (\<lambda>(k, v). map_set k v) kvs (Some m) = Inr (Some (put_all kvs m))"
  by (induction kvs m rule: put_all.induct) auto

lemma selector_of_eq:
  "fair ch \<Longrightarrow> copies_maps fw \<Longrightarrow>
     selector_of fw sel sb ch = Inr (Some (map_items sel ++\<^sub>f map_items (Subset_Labels sb)))"
  by (simp add: selector_of_def copies_maps_def gfold_map_set)

lemma set_step_unfold:
  "set_step fw ch spec m sel loc sb cs =
     (case map_get (Sets spec) (Subset_Name sb) of
        None \<Rightarrow> Inr (cs\<lparr>setsEnvoyFilter := fmupd (Subset_Name sb) None (setsEnvoyFilter cs)\<rparr>)
      | Some None \<Rightarrow> Inl NilDereference
      | Some (Some sd) \<Rightarrow>
          if None \<in> set (elems (Descriptor_items sd))
          then gbind (valid_descriptors fw m (elems (Descriptor_items sd))) (\<lambda>_. Inl NilDereference)
          else let vs = set_valid fw spec m (Subset_Name sb) in
            if vs = []
            then Inr (cs\<lparr>setsEnvoyFilter := fmupd (Subset_Name sb) None (setsEnvoyFilter cs)\<rparr>)
            else
              gbind (selector_of fw sel sb (ch_left ch)) (\<lambda>selector.
              gbind (descriptorsToEnvoyFilter fw (ch_right ch) vs selector loc (Rls spec)) (\<lambda>ef.
              gbind (descriptorsToGlobalRateLimit fw vs loc) (\<lambda>desc.
                Inr (cs\<lparr>setsEnvoyFilter := fmupd (Subset_Name sb) ef (setsEnvoyFilter cs),
                        setsSmartLimitDescriptor :=
                          fmupd (Subset_Name sb) (status_entry vs) (setsSmartLimitDescriptor cs),
                        configs_globalDescriptors := configs_globalDescriptors cs @ desc\<rparr>)))))"
proof (cases "map_get (Sets spec) (Subset_Name sb)")
  case (Some sd')
  show ?thesis
  proof (cases sd')
    case (Some sd)
    show ?thesis
    proof (cases "valid_descriptors fw m (elems (Descriptor_items sd))")
      case (Inl p)
      then have "None \<in> set (elems (Descriptor_items sd))"
        using valid_descriptors_Inr_iff [of fw m "elems (Descriptor_items sd)"]
        by (metis Inl_Inr_False)
      with Inl Some \<open>map_get _ _ = Some sd'\<close> show ?thesis by (simp add: set_step_def)
    next
      case (Inr vs)
      then have vs: "None \<notin> set (elems (Descriptor_items sd))"
        "vs = set_valid fw spec m (Subset_Name sb)"
        using Some \<open>map_get _ _ = Some sd'\<close> by (auto simp: valid_descriptors_Inr_iff set_valid_def)
      with Inr Some \<open>map_get _ _ = Some sd'\<close> show ?thesis
        by (simp add: set_step_def selector_of_def status_entry_def Let_def)
    qed
  qed (simp add: set_step_def Some)
qed (simp add: set_step_def)

lemma set_step_Inr:
  assumes "set_step fw ch spec m sel loc sb cs = Inr cs'"
  obtains (none) "set_valid fw spec m (Subset_Name sb) = []"
      "cs' = cs\<lparr>setsEnvoyFilter := fmupd (Subset_Name sb) None (setsEnvoyFilter cs)\<rparr>"
  | (some) vs selector ef desc where
      "set_valid fw spec m (Subset_Name sb) = vs" "vs \<noteq> []"
      "selector_of fw sel sb (ch_left ch) = Inr selector"
      "descriptorsToEnvoyFilter fw (ch_right ch) vs selector loc (Rls spec) = Inr ef"
      "descriptorsToGlobalRateLimit fw vs loc = Inr desc"
      "cs' = cs\<lparr>setsEnvoyFilter := fmupd (Subset_Name sb) ef (setsEnvoyFilter cs),
                setsSmartLimitDescriptor :=
                  fmupd (Subset_Name sb) (status_entry vs) (setsSmartLimitDescriptor cs),
                configs_globalDescriptors := configs_globalDescriptors cs @ desc\<rparr>"
proof (cases "map_get (Sets spec) (Subset_Name sb)")
  case None
  with assms show ?thesis by (intro none) (simp_all add: set_step_unfold set_valid_def)
next
  case (Some sd')
  with assms obtain sd where sd: "sd' = Some sd" by (cases sd') (simp_all add: set_step_unfold)
  with assms Some have "None \<notin> set (elems (Descriptor_items sd))"
    by (auto simp: set_step_unfold)
  with assms Some sd show ?thesis
    by (cases "set_valid fw spec m (Subset_Name sb) = []")
      (auto simp: set_step_unfold Let_def intro: none some)
qed

text \<open>What the loop over the sets leaves: an entry per set, and the service descriptors in order.\<close>

lemma sets_loop_dom:
  "sets_loop fw ch spec m sel loc (map Some sbs) cs = Inr cs' \<Longrightarrow>
     fmdom (setsEnvoyFilter cs') = fmdom (setsEnvoyFilter cs) |\<union>| fset_of_list (map Subset_Name sbs)"
proof (induction sbs arbitrary: ch cs)
  case (Cons sb sbs)
  then obtain cs1 where 1: "set_step fw (ch_left ch) spec m sel loc sb cs = Inr cs1"
    "sets_loop fw (ch_right ch) spec m sel loc (map Some sbs) cs1 = Inr cs'" by auto
  from 1(1) have "fmdom (setsEnvoyFilter cs1) = finsert (Subset_Name sb) (fmdom (setsEnvoyFilter cs))"
    by (cases rule: set_step_Inr) auto
  with Cons.IH [OF 1(2)] show ?case by auto
qed simp

lemma sets_loop_status:
  "sets_loop fw ch spec m sel loc (map Some sbs) cs = Inr cs' \<Longrightarrow>
     fmlookup (setsSmartLimitDescriptor cs') k =
       (if k \<in> Subset_Name ` set sbs \<and> set_valid fw spec m k \<noteq> []
        then Some (status_entry (set_valid fw spec m k))
        else fmlookup (setsSmartLimitDescriptor cs) k)"
proof (induction sbs arbitrary: ch cs)
  case (Cons sb sbs)
  then obtain cs1 where 1: "set_step fw (ch_left ch) spec m sel loc sb cs = Inr cs1"
    "sets_loop fw (ch_right ch) spec m sel loc (map Some sbs) cs1 = Inr cs'" by auto
  from 1(1) have "fmlookup (setsSmartLimitDescriptor cs1) k =
      (if k = Subset_Name sb \<and> set_valid fw spec m k \<noteq> []
       then Some (status_entry (set_valid fw spec m k))
       else fmlookup (setsSmartLimitDescriptor cs) k)"
    by (cases rule: set_step_Inr) auto
  with Cons.IH [OF 1(2)] show ?case by auto
qed simp

lemma sets_loop_ef:
  assumes "sets_loop fw ch spec m sel loc (map Some sbs) cs = Inr cs'" and "fair ch"
  shows "fmlookup (setsEnvoyFilter cs') k = fmlookup (setsEnvoyFilter cs) k
           \<and> k \<notin> Subset_Name ` set sbs
       \<or> (\<exists>sb \<in> set sbs. Subset_Name sb = k \<and> (\<exists>ef. fmlookup (setsEnvoyFilter cs') k = Some ef
           \<and> (if set_valid fw spec m k = [] then ef = None
              else \<exists>ch1 ch2 labels. fair ch1 \<and> fair ch2 \<and> selector_of fw sel sb ch1 = Inr labels
                \<and> descriptorsToEnvoyFilter fw ch2 (set_valid fw spec m k) labels loc (Rls spec)
                    = Inr ef)))"
  using assms
proof (induction sbs arbitrary: ch cs)
  case (Cons sb sbs)
  then obtain cs1 where 1: "set_step fw (ch_left ch) spec m sel loc sb cs = Inr cs1"
    "sets_loop fw (ch_right ch) spec m sel loc (map Some sbs) cs1 = Inr cs'" by auto
  show ?case
  proof (cases "k \<in> Subset_Name ` set sbs")
    case True
    with Cons.IH [OF 1(2)] Cons.prems(2) show ?thesis by auto
  next
    case False
    then have same: "fmlookup (setsEnvoyFilter cs') k = fmlookup (setsEnvoyFilter cs1) k"
      using Cons.IH [OF 1(2)] Cons.prems(2) by auto
    from 1(1) show ?thesis
    proof (cases rule: set_step_Inr)
      case none
      with same False show ?thesis by auto
    next
      case (some vs selector ef desc)
      have f: "fair (ch_left (ch_left ch))" "fair (ch_right (ch_left ch))"
        using Cons.prems(2) by auto
      show ?thesis
      proof (cases "k = Subset_Name sb")
        case True
        then have "fmlookup (setsEnvoyFilter cs') k = Some ef" using same some(6) by simp
        with True f some(1-4) show ?thesis
          by (intro disjI2 bexI [of _ sb] conjI exI [of _ ef]) auto
      next
        case False
        with \<open>k \<notin> Subset_Name ` set sbs\<close> show ?thesis by (simp add: same some(6))
      qed
    qed
  qed
qed simp

lemma sets_loop_globals:
  "sets_loop fw ch spec m sel loc (map Some sbs) cs = Inr cs' \<Longrightarrow>
     \<exists>dss. configs_globalDescriptors cs' = configs_globalDescriptors cs @ concat dss
       \<and> list_all2 (\<lambda>sb ds. if set_valid fw spec m (Subset_Name sb) = [] then ds = []
            else descriptorsToGlobalRateLimit fw (set_valid fw spec m (Subset_Name sb)) loc = Inr ds)
           sbs dss"
proof (induction sbs arbitrary: ch cs)
  case (Cons sb sbs)
  then obtain cs1 where 1: "set_step fw (ch_left ch) spec m sel loc sb cs = Inr cs1"
    "sets_loop fw (ch_right ch) spec m sel loc (map Some sbs) cs1 = Inr cs'" by auto
  from Cons.IH [OF 1(2)] obtain dss where dss:
    "configs_globalDescriptors cs' = configs_globalDescriptors cs1 @ concat dss"
    "list_all2 (\<lambda>sb ds. if set_valid fw spec m (Subset_Name sb) = [] then ds = []
            else descriptorsToGlobalRateLimit fw (set_valid fw spec m (Subset_Name sb)) loc = Inr ds)
           sbs dss" by blast
  from 1(1) show ?case
  proof (cases rule: set_step_Inr)
    case none
    with dss show ?thesis by (intro exI [of _ "[] # dss"]) auto
  next
    case (some vs selector ef desc)
    with dss show ?thesis by (intro exI [of _ "desc # dss"]) auto
  qed
qed simp

lemma descriptorsToGlobalRateLimit_eq:
  assumes "\<forall>d \<in> set ds. Action d \<noteq> None" and "\<forall>d \<in> set ds. is_global d \<longrightarrow> well_timed d"
  shows "descriptorsToGlobalRateLimit fw ds loc =
           Inr (List.map_filter (global_item fw loc)
                 (takeWhile (\<lambda>d. global_item fw loc d \<noteq> None) (filter is_global ds)))"
  using assms
  by (simp add: descriptorsToGlobalRateLimit_def globalDescriptors_loop_eq
      generateGlobalRateLimitDescriptor_eq)

text \<open>
  A spec the generator handles without a panic: no nil pointers, and a fill interval in every
  action.
\<close>

definition complete_descriptor :: "SmartLimitDescriptor option \<Rightarrow> bool" where
  "complete_descriptor p =
     (case p of None \<Rightarrow> False
      | Some d \<Rightarrow> no_nil_match d \<and> (case Action d of None \<Rightarrow> True | Some a \<Rightarrow> FillInterval a \<noteq> None))"

definition complete_spec :: "SmartLimiterSpec \<Rightarrow> bool" where
  "complete_spec spec \<longleftrightarrow>
     fmpred (\<lambda>_ p. case p of None \<Rightarrow> False
       | Some sd \<Rightarrow> list_all complete_descriptor (elems (Descriptor_items sd))) (map_items (Sets spec))"

lemma complete_specD:
  assumes "complete_spec spec" "map_get (Sets spec) k = Some p"
  obtains sd where "p = Some sd" "\<forall>d \<in> set (elems (Descriptor_items sd)). complete_descriptor d"
proof -
  from assms have "case p of None \<Rightarrow> False
       | Some sd \<Rightarrow> list_all complete_descriptor (elems (Descriptor_items sd))"
    unfolding complete_spec_def fmpred_iff by simp
  then show ?thesis by (auto simp: list_all_iff intro: that split: option.splits)
qed

lemma set_valid_member:
  assumes "v \<in> set (set_valid fw spec m k)"
  obtains sd d where "map_get (Sets spec) k = Some (Some sd)"
    "Some d \<in> set (elems (Descriptor_items sd))" "evaluate_descriptor fw m d = Some v"
proof -
  from assms obtain sd where sd: "map_get (Sets spec) k = Some (Some sd)"
    by (cases "map_get (Sets spec) k"; cases "the (map_get (Sets spec) k)")
      (simp_all add: set_valid_def)
  with assms show ?thesis
    by (auto simp: set_valid_def List.map_filter_def bind_eq_Some_conv intro: that [OF sd]
        split: option.splits)
qed

lemma set_valid_props:
  assumes "v \<in> set (set_valid fw spec m k)"
  shows "\<not> custom v" "Action v \<noteq> None" "complete_spec spec \<Longrightarrow> no_nil_match v \<and> well_timed v"
proof -
  obtain sd d where d: "map_get (Sets spec) k = Some (Some sd)"
    "Some d \<in> set (elems (Descriptor_items sd))" "evaluate_descriptor fw m d = Some v"
    using assms by (rule set_valid_member)
  note e = evaluate_descriptor_Some [OF d(3)]
  then show "\<not> custom v" "Action v \<noteq> None" by auto
  assume "complete_spec spec"
  then have "complete_descriptor (Some d)" using d by (auto elim: complete_specD)
  with e show "no_nil_match v \<and> well_timed v"
    by (auto simp: complete_descriptor_def no_nil_match_def well_timed_def)
qed

lemma set_step_total:
  assumes "fair ch" "converts_messages fw" "copies_maps fw" "complete_spec spec"
  shows "\<exists>cs'. set_step fw ch spec m sel loc sb cs = Inr cs'"
proof (cases "map_get (Sets spec) (Subset_Name sb)")
  case (Some p)
  obtain sd where sd: "p = Some sd" "\<forall>d \<in> set (elems (Descriptor_items sd)). complete_descriptor d"
    using assms(4) Some by (rule complete_specD)
  then have nn: "None \<notin> set (elems (Descriptor_items sd))" by (auto simp: complete_descriptor_def)
  let ?vs = "set_valid fw spec m (Subset_Name sb)"
  let ?sel = "Some (map_items sel ++\<^sub>f map_items (Subset_Labels sb))"
  have vs: "\<not> custom v \<and> Action v \<noteq> None \<and> no_nil_match v \<and> well_timed v" if "v \<in> set ?vs" for v
    using set_valid_props [OF that] assms(4) by blast
  have "\<not> (\<exists>p. descriptorsToEnvoyFilter fw (ch_right ch) ?vs ?sel loc (Rls spec) = Inl p)"
    using descriptorsToEnvoyFilter_panic_iff [OF fair_ch_right [OF assms(1)] assms(2)] vs by blast
  then obtain ef where ef: "descriptorsToEnvoyFilter fw (ch_right ch) ?vs ?sel loc (Rls spec) = Inr ef"
    unfolding not_ex not_Inl_iff by blast
  have "\<exists>desc. descriptorsToGlobalRateLimit fw ?vs loc = Inr desc"
    using descriptorsToGlobalRateLimit_eq [of ?vs fw loc] vs by blast
  then obtain desc where "descriptorsToGlobalRateLimit fw ?vs loc = Inr desc" by blast
  with ef show ?thesis
    by (simp add: set_step_unfold Some sd(1) nn Let_def
        selector_of_eq [OF fair_ch_left [OF assms(1)] assms(3)])
qed (simp add: set_step_unfold)

lemma sets_loop_total:
  assumes "fair ch" "converts_messages fw" "copies_maps fw" "complete_spec spec"
  shows "\<exists>cs'. sets_loop fw ch spec m sel loc (map Some sbs) cs = Inr cs'"
  using assms(1)
proof (induction sbs arbitrary: ch cs)
  case (Cons sb sbs)
  obtain cs1 where "set_step fw (ch_left ch) spec m sel loc sb cs = Inr cs1"
    using set_step_total [OF fair_ch_left [OF Cons.prems] assms(2-4)] by blast
  with Cons.IH [OF fair_ch_right [OF Cons.prems]] show ?case by simp
qed simp

end
