(* ===== verification/State.thy ===== *)
theory State
  imports Framework
begin

section \<open>The state of the controller and the metrics it exchanges\<close>

text \<open>
  \<open>SmartLimiterReconciler\<close> (\<open>controllers/smartlimiter_controller.go\<close>) keeps two concurrent
  maps, the interest set and the metrics last received, and the spec it saw last. The maps
  are \<open>cmap.ConcurrentMap\<close>s of the \<open>concurrent-map\<close> package: their operations are a record
  of parameters over an arbitrary type of maps, and \<open>concurrent_map\<close> states what the package
  documents of them. Their values are \<open>interface{}\<close>: the code stores \<open>struct{}{}\<close> and
  \<open>*Endpoints\<close>. An \<open>Endpoints\<close> is reachable only through the map, so writing through the
  pointer is modelled as storing the updated record.

  \<open>StaticMeta\<close> (\<open>controllers/producer.go\<close>) travels to the metric producer of the framework
  and back as a JSON key; its two JSON functions are parameters. The theory ends with the
  notions for the state machines of the development: reachable states, and the locale of an
  inductive invariant.
\<close>

subsection \<open>Concurrent maps\<close>

record Endpoints =
  Endpoints_Location :: NamespacedName
  Endpoints_Info :: "string gomap"

datatype interface = EmptyStruct | EndpointsPtr Endpoints

record 'm cmap =
  cmap_New :: "'m"
  cmap_Get :: "'m \<Rightarrow> string \<Rightarrow> interface option"
  cmap_Set :: "'m \<Rightarrow> string \<Rightarrow> interface \<Rightarrow> 'm"
  cmap_Pop :: "'m \<Rightarrow> string \<Rightarrow> 'm"
  cmap_Items :: "'m \<Rightarrow> (string, interface) fmap"

definition concurrent_map :: "'m cmap \<Rightarrow> bool" where
  "concurrent_map M \<longleftrightarrow>
     (\<forall>k. cmap_Get M (cmap_New M) k = None)
   \<and> (\<forall>m k v k'. cmap_Get M (cmap_Set M m k v) k' = (if k' = k then Some v else cmap_Get M m k'))
   \<and> (\<forall>m k k'. cmap_Get M (cmap_Pop M m k) k' = (if k' = k then None else cmap_Get M m k'))
   \<and> (\<forall>m k. fmlookup (cmap_Items M m) k = cmap_Get M m k)"

lemma concurrent_mapD:
  assumes "concurrent_map M"
  shows "cmap_Get M (cmap_New M) k = None"
    and "cmap_Get M (cmap_Set M m k v) k' = (if k' = k then Some v else cmap_Get M m k')"
    and "cmap_Get M (cmap_Pop M m k) k' = (if k' = k then None else cmap_Get M m k')"
    and "fmlookup (cmap_Items M m) k = cmap_Get M m k"
  using assms by (auto simp: concurrent_map_def)

text \<open>Finite maps have these laws; the examples use them.\<close>

definition fmap_cmap :: "(string, interface) fmap cmap" where
  "fmap_cmap = \<lparr>cmap_New = fmempty, cmap_Get = fmlookup, cmap_Set = (\<lambda>m k v. fmupd k v m),
                cmap_Pop = (\<lambda>m k. fmdrop k m), cmap_Items = (\<lambda>m. m)\<rparr>"

lemma concurrent_map_fmap_cmap [simp]: "concurrent_map fmap_cmap"
  by (simp add: concurrent_map_def fmap_cmap_def)

subsection \<open>The reconciler\<close>

record 'm SmartLimiterReconciler =
  r_env :: Environment
  interest :: "'m"
  metricInfo :: "'m"
  lastUpdatePolicy :: SmartLimiterSpec

definition request_key :: "NamespacedName \<Rightarrow> string" where
  "request_key nn = NN_Namespace nn @ ''/'' @ NN_Name nn"

text \<open>
  \<open>env.Config != nil && env.Config.Limiter != nil && !...GetDisableGlobalRateLimit()\<close>, and
  the same test with \<open>GetDisableAdaptive\<close>.
\<close>

definition global_enabled :: "Environment \<Rightarrow> bool" where
  "global_enabled env =
     (case Env_Config env of
        None \<Rightarrow> False
      | Some c \<Rightarrow> (case Config_Limiter c of None \<Rightarrow> False | Some l \<Rightarrow> \<not> DisableGlobalRateLimit l))"

definition adaptive_enabled :: "Environment \<Rightarrow> bool" where
  "adaptive_enabled env =
     (case Env_Config env of
        None \<Rightarrow> False
      | Some c \<Rightarrow> (case Config_Limiter c of None \<Rightarrow> False | Some l \<Rightarrow> \<not> DisableAdaptive l))"

subsection \<open>Metrics\<close>

record StaticMeta =
  Meta_Name :: string
  Meta_Namespace :: string
  NPod :: "64 word gomap"
  IsGroup :: "bool gomap"

record codec =
  Marshal_StaticMeta :: "StaticMeta \<Rightarrow> goerror + string"
  Unmarshal_StaticMeta :: "string \<Rightarrow> goerror + StaticMeta"

definition StaticMeta_String :: "codec \<Rightarrow> StaticMeta \<Rightarrow> string" where
  "StaticMeta_String J s = (case Marshal_StaticMeta J s of Inl err \<Rightarrow> '''' | Inr b \<Rightarrow> b)"

record metric_Handler =
  Metric_Name :: string
  Metric_Query :: string

record metric_Result =
  Result_Name :: string
  Result_Value :: "string gomap"

type_synonym QueryMap = "metric_Handler list gomap"
type_synonym Metric = "metric_Result list gomap"

subsection \<open>State machines\<close>

inductive reachable :: "('s \<Rightarrow> bool) \<Rightarrow> ('s \<Rightarrow> 's \<Rightarrow> bool) \<Rightarrow> 's \<Rightarrow> bool"
  for init :: "'s \<Rightarrow> bool" and step :: "'s \<Rightarrow> 's \<Rightarrow> bool" where
  reachable_init: "init s \<Longrightarrow> reachable init step s"
| reachable_step: "reachable init step s \<Longrightarrow> step s t \<Longrightarrow> reachable init step t"

lemma reachable_mono:
  "reachable init step s \<Longrightarrow> (\<And>s. init s \<Longrightarrow> init' s) \<Longrightarrow> reachable init' step s"
  by (induction rule: reachable.induct) (auto intro: reachable.intros)

text \<open>The interface of a state machine with an inductive invariant.\<close>

locale inductive_invariant =
  fixes init :: "'s \<Rightarrow> bool" and step :: "'s \<Rightarrow> 's \<Rightarrow> bool" and inv :: "'s \<Rightarrow> bool"
  assumes inv_init: "init s \<Longrightarrow> inv s"
    and inv_step: "inv s \<Longrightarrow> step s t \<Longrightarrow> inv t"
begin

lemma reachable_inv: "reachable init step s \<Longrightarrow> inv s"
  by (induction rule: reachable.induct) (auto intro: inv_init inv_step)

lemma steps_inv: "step\<^sup>*\<^sup>* s t \<Longrightarrow> inv s \<Longrightarrow> inv t"
  by (induction rule: rtranclp_induct) (auto intro: inv_step)

end

end
