(* ===== verification/ConfigMap.thy ===== *)
theory ConfigMap
  imports GlobalLimit State
begin

section \<open>The ConfigMap of the rate-limit service: \<open>controllers/process.go\<close>\<close>

text \<open>
  \<open>refreshConfigMap\<close> replaces, in the one ConfigMap that all services share, the descriptors
  of one service. The lemmas say which entries go and which stay, when the data are written,
  and that writing the same descriptors again writes nothing.
\<close>

text \<open>\<open>string(b)\<close> of what a marshaller returns, nil when it failed.\<close>

definition json_string :: "goerror + string \<Rightarrow> string" where
  "json_string r = (case r of Inl err \<Rightarrow> '''' | Inr b \<Rightarrow> b)"

subsection \<open>Operations\<close>

definition generateConfigMapLabels :: "string gomap" where
  "generateConfigMapLabels = Some (fmap_of_list [(''app'', ''rate-limit'')])"

definition constructConfigMap :: "framework \<Rightarrow> Descriptor option list \<Rightarrow> ConfigMap" where
  "constructConfigMap fw desc =
     (let b = YamlMarshal fw \<lparr>RLC_Domain = DomainName, RLC_Descriptors = desc\<rparr>
      in \<lparr>CM_Name = NN_Name getConfigMapNamespaceName,
          CM_Namespace = NN_Namespace getConfigMapNamespaceName,
          CM_Labels = generateConfigMapLabels,
          CM_ResourceVersion = '''',
          CM_Data = Some (fmap_of_list [(ConfigMapConfig, json_string b)])\<rparr>)"

fun other_services :: "string \<Rightarrow> Descriptor option list \<Rightarrow> Descriptor option list go" where
  "other_services serviceInfo [] = Inr []"
| "other_services serviceInfo (item # rest) =
     gbind (deref item) (\<lambda>d.
       gbind (other_services serviceInfo rest) (\<lambda>newCm.
         Inr (if \<not> strings_Contains (Value d) serviceInfo then item # newCm else newCm)))"

definition refreshConfigMap ::
    "framework \<Rightarrow> 'w client \<Rightarrow> Descriptor list \<Rightarrow> NamespacedName \<Rightarrow> 'w \<Rightarrow> 'w go" where
  "refreshConfigMap fw C desc serviceLoc w =
     (case Get_ConfigMap C w getConfigMapNamespaceName of
        Inl err \<Rightarrow> Inr w
      | Inr found \<Rightarrow>
          (case map_get (CM_Data found) ConfigMapConfig of
             None \<Rightarrow> Inr w
           | Some config \<Rightarrow>
               (case YamlUnmarshal fw config of
                  Inl err \<Rightarrow> Inr w
                | Inr rc \<Rightarrow>
                    gbind (deref rc) (\<lambda>rc.
                    gbind (other_services (NN_Name serviceLoc @ ''.'' @ NN_Namespace serviceLoc)
                             (RLC_Descriptors rc)) (\<lambda>newCm.
                      let configmap = constructConfigMap fw (newCm @ map Some desc)
                      in if CM_Data found \<noteq> CM_Data configmap
                         then Inr (fst (Update_ConfigMap C w
                                (configmap\<lparr>CM_ResourceVersion := CM_ResourceVersion found\<rparr>)))
                         else Inr w)))))"

subsection \<open>The entries of the ConfigMap\<close>

lemma other_services_Inr_iff:
  "other_services s items = Inr kept \<longleftrightarrow>
     None \<notin> set items \<and> kept = filter (\<lambda>p. \<forall>d. p = Some d \<longrightarrow> \<not> strings_Contains (Value d) s) items"
proof (induction items arbitrary: kept)
  case (Cons item items)
  then show ?case by (cases item) auto
qed auto

definition service_info :: "NamespacedName \<Rightarrow> string" where
  "service_info loc = NN_Name loc @ ''.'' @ NN_Namespace loc"

lemma descriptor_value_service:
  "strings_Contains (generateDescriptorValue fw d loc) (service_info loc)"
  unfolding strings_Contains_iff generateDescriptorValue_def service_info_def Let_def
  by (intro exI [of _ "''Service[''"] exI [of _ "'']-User[none]-Id['' @ fmt_nat
      (unat (adler32_Checksum (CompactTextString fw d @ NamespacedName_String fw loc))) @ '']''"])
    simp

text \<open>
  A piece of text with no bracket lies in a bracketed text exactly when it lies in one of the
  pieces between the brackets.
\<close>

lemma Contains_separated:
  assumes "c \<notin> set sub"
  shows "strings_Contains (a @ c # b) sub \<longleftrightarrow> strings_Contains a sub \<or> strings_Contains b sub"
proof
  assume "strings_Contains (a @ c # b) sub"
  then obtain u v where uv: "a @ c # b = u @ sub @ v" by (auto simp: strings_Contains_iff)
  show "strings_Contains a sub \<or> strings_Contains b sub"
  proof (cases "length u \<le> length a")
    case True
    then obtain us where a: "a = u @ us" using uv by (metis append_eq_append_conv_if append_take_drop_id)
    then have us: "us @ c # b = sub @ v" using uv by simp
    show ?thesis
    proof (cases "length sub \<le> length us")
      case True
      then obtain vs where "us = sub @ vs" using us
        by (metis append_eq_append_conv_if append_take_drop_id)
      then show ?thesis using a by (auto simp: strings_Contains_iff)
    next
      case False
      then have "sub ! length us = (us @ c # b) ! length us" using us by (simp add: nth_append)
      then have "sub ! length us = c" by simp
      with assms False show ?thesis by (metis not_le nth_mem)
    qed
  next
    case False
    then obtain n where n: "length u = Suc (length a + n)" by (metis less_iff_Suc_add not_le)
    have "drop (length u) (a @ c # b) = sub @ v" using uv by simp
    then have "drop n b = sub @ v" using n by simp
    then have "b = take n b @ sub @ v" by (metis append_take_drop_id)
    then show ?thesis by (auto simp: strings_Contains_iff)
  qed
next
  assume "strings_Contains a sub \<or> strings_Contains b sub"
  then consider u v where "a = u @ sub @ v" | u v where "b = u @ sub @ v"
    by (auto simp: strings_Contains_iff)
  then show "strings_Contains (a @ c # b) sub"
  proof cases
    case 1
    then have "a @ c # b = u @ sub @ (v @ c # b)" by simp
    then show ?thesis unfolding strings_Contains_iff by blast
  next
    case 2
    then have "a @ c # b = (a @ c # u) @ sub @ v" by simp
    then show ?thesis unfolding strings_Contains_iff by blast
  qed
qed

lemma Contains_char: "c \<in> set sub \<Longrightarrow> c \<notin> set s \<Longrightarrow> \<not> strings_Contains s sub"
  by (auto simp: strings_Contains_iff)

text \<open>
  Which descriptors of the service \<open>loc\<close> the refresh of \<open>other\<close> removes: those whose
  \<open>name.namespace\<close> has the other's as a substring.
\<close>

definition bracket_free :: "NamespacedName \<Rightarrow> bool" where
  "bracket_free loc \<longleftrightarrow> (\<forall>c \<in> {CHR ''['', CHR '']''}. c \<notin> set (NN_Name loc) \<and> c \<notin> set (NN_Namespace loc))"

lemma value_contains_iff:
  assumes "bracket_free other"
  shows "strings_Contains (generateDescriptorValue fw d loc) (service_info other)
           \<longleftrightarrow> strings_Contains (service_info loc) (service_info other)"
proof -
  let ?n = "fmt_nat (unat (adler32_Checksum (CompactTextString fw d @ NamespacedName_String fw loc)))"
  have free: "CHR ''['' \<notin> set (service_info other)" "CHR '']'' \<notin> set (service_info other)"
    using assms by (auto simp: bracket_free_def service_info_def)
  have dot: "CHR ''.'' \<in> set (service_info other)" by (simp add: service_info_def)
  have digits: "CHR ''.'' \<notin> set ?n" using fmt_nat_digits [of "CHR ''.''"] by (auto simp: is_digit_def)
  have no: "\<not> strings_Contains ?n (service_info other)"
    "\<not> strings_Contains ''Service'' (service_info other)"
    "\<not> strings_Contains ''-User'' (service_info other)"
    "\<not> strings_Contains ''none'' (service_info other)"
    "\<not> strings_Contains ''-Id'' (service_info other)"
    "\<not> strings_Contains '''' (service_info other)"
    by (rule Contains_char [OF dot], simp add: digits)+
  have "generateDescriptorValue fw d loc = ''Service'' @ CHR ''['' # (service_info loc @ CHR '']'' #
      (''-User'' @ CHR ''['' # (''none'' @ CHR '']'' # (''-Id'' @ CHR ''['' # (?n @ CHR '']'' # '''')))))"
    by (simp add: generateDescriptorValue_def service_info_def Let_def)
  then show ?thesis
    by (simp only: Contains_separated [OF free(1)] Contains_separated [OF free(2)] no simp_thms)
qed

text \<open>The descriptors the ConfigMap holds after a refresh of \<open>loc\<close> with descriptors \<open>desc\<close>.\<close>

definition of_other_services :: "NamespacedName \<Rightarrow> Descriptor option \<Rightarrow> bool" where
  "of_other_services loc p \<longleftrightarrow> (\<forall>d. p = Some d \<longrightarrow> \<not> strings_Contains (Value d) (service_info loc))"

definition merged_descriptors ::
    "NamespacedName \<Rightarrow> Descriptor option list \<Rightarrow> Descriptor list \<Rightarrow> Descriptor option list" where
  "merged_descriptors loc ds desc = filter (of_other_services loc) ds @ map Some desc"

lemma merged_descriptors_idem:
  assumes "\<forall>d \<in> set desc. strings_Contains (Value d) (service_info loc)"
  shows "merged_descriptors loc (merged_descriptors loc ds desc) desc = merged_descriptors loc ds desc"
proof -
  have "filter (of_other_services loc) (map Some desc) = []"
    using assms by (auto simp: filter_empty_conv of_other_services_def)
  then show ?thesis by (simp add: merged_descriptors_def)
qed

definition configmap_data :: "framework \<Rightarrow> Descriptor option list \<Rightarrow> string gomap" where
  "configmap_data fw ds = Some (fmap_of_list
     [(''config.yaml'', json_string (YamlMarshal fw \<lparr>RLC_Domain = ''slime'', RLC_Descriptors = ds\<rparr>))])"

definition holds_config :: "framework \<Rightarrow> ConfigMap \<Rightarrow> RateLimitConfig option \<Rightarrow> bool" where
  "holds_config fw cm rc \<longleftrightarrow>
     (\<exists>yml. map_get (CM_Data cm) ''config.yaml'' = Some yml \<and> YamlUnmarshal fw yml = Inr rc)"

lemma constructConfigMap_data [simp]: "CM_Data (constructConfigMap fw ds) = configmap_data fw ds"
  by (simp add: constructConfigMap_def configmap_data_def DomainName_def ConfigMapConfig_def Let_def)

lemma refreshConfigMap_writes:
  assumes "Get_ConfigMap C w getConfigMapNamespaceName = Inr cm"
    and "holds_config fw cm (Some rc)" and "None \<notin> set (RLC_Descriptors rc)"
  shows "refreshConfigMap fw C desc loc w =
           (let ds = merged_descriptors loc (RLC_Descriptors rc) desc
            in Inr (if CM_Data cm = configmap_data fw ds then w
                    else fst (Update_ConfigMap C w ((constructConfigMap fw ds)
                           \<lparr>CM_ResourceVersion := CM_ResourceVersion cm\<rparr>))))"
proof -
  have "other_services (NN_Name loc @ ''.'' @ NN_Namespace loc) (RLC_Descriptors rc)
      = Inr (filter (of_other_services loc) (RLC_Descriptors rc))"
    using assms(3) by (simp add: other_services_Inr_iff of_other_services_def [abs_def] service_info_def)
  moreover obtain yml where "map_get (CM_Data cm) ConfigMapConfig = Some yml"
    "YamlUnmarshal fw yml = Inr (Some rc)"
    using assms(2) by (auto simp: holds_config_def ConfigMapConfig_def)
  ultimately show ?thesis
    by (simp add: refreshConfigMap_def assms(1) merged_descriptors_def Let_def del: append.simps)
qed

lemma refreshConfigMap_panic_iff:
  "(\<exists>p. refreshConfigMap fw C desc loc w = Inl p) \<longleftrightarrow>
     (\<exists>cm rc. Get_ConfigMap C w getConfigMapNamespaceName = Inr cm \<and> holds_config fw cm rc
        \<and> (case rc of None \<Rightarrow> True | Some c \<Rightarrow> None \<in> set (RLC_Descriptors c)))"
proof (cases "Get_ConfigMap C w getConfigMapNamespaceName")
  case (Inl err)
  then show ?thesis by (simp add: refreshConfigMap_def)
next
  case (Inr cm)
  show ?thesis
  proof (cases "map_get (CM_Data cm) ConfigMapConfig")
    case None
    with Inr show ?thesis by (simp add: refreshConfigMap_def holds_config_def ConfigMapConfig_def)
  next
    case (Some yml)
    note conf = this
    show ?thesis
    proof (cases "YamlUnmarshal fw yml")
      case (Inl err)
      with conf Inr show ?thesis
        by (simp add: refreshConfigMap_def holds_config_def ConfigMapConfig_def)
    next
      case rc: (Inr rc)
      have only: "holds_config fw cm rc' \<longleftrightarrow> rc' = rc" for rc'
        using conf rc by (auto simp: holds_config_def ConfigMapConfig_def)
      show ?thesis
      proof (cases rc)
        case None
        with conf rc Inr only show ?thesis by (simp add: refreshConfigMap_def)
      next
        case (Some c)
        show ?thesis
        proof (cases "None \<in> set (RLC_Descriptors c)")
          case True
          then obtain p where "other_services (NN_Name loc @ ''.'' @ NN_Namespace loc)
              (RLC_Descriptors c) = Inl p"
            using other_services_Inr_iff by (metis not_Inl_iff)
          with True conf rc Some Inr only show ?thesis
            by (simp add: refreshConfigMap_def del: append.simps)
        next
          case False
          have "\<not> (\<exists>p. refreshConfigMap fw C desc loc w = Inl p)"
            using refreshConfigMap_writes [OF Inr _ False, of fw desc loc] only Some
            by (simp add: Let_def)
          with False Some Inr only show ?thesis by auto
        qed
      qed
    qed
  qed
qed

text \<open>The YAML library reads back what it writes.\<close>

definition yaml_round_trip :: "framework \<Rightarrow> bool" where
  "yaml_round_trip fw \<longleftrightarrow>
     (\<forall>rc. \<exists>t. YamlMarshal fw rc = Inr t \<and> YamlUnmarshal fw t = Inr (Some rc))"

lemma configmap_data_holds:
  assumes "yaml_round_trip fw" "CM_Data cm = configmap_data fw ds"
  shows "holds_config fw cm (Some \<lparr>RLC_Domain = ''slime'', RLC_Descriptors = ds\<rparr>)"
proof -
  obtain t where "YamlMarshal fw \<lparr>RLC_Domain = ''slime'', RLC_Descriptors = ds\<rparr> = Inr t"
    "YamlUnmarshal fw t = Inr (Some \<lparr>RLC_Domain = ''slime'', RLC_Descriptors = ds\<rparr>)"
    using assms(1) unfolding yaml_round_trip_def by blast
  then show ?thesis using assms(2) by (simp add: holds_config_def configmap_data_def json_string_def)
qed

lemma configmap_data_inject:
  assumes "yaml_round_trip fw"
  shows "configmap_data fw ds = configmap_data fw ds' \<longleftrightarrow> ds = ds'"
proof
  assume same: "configmap_data fw ds = configmap_data fw ds'"
  let ?cm = "\<lambda>ds. (constructConfigMap fw ds)"
  have "holds_config fw (?cm ds) (Some \<lparr>RLC_Domain = ''slime'', RLC_Descriptors = ds\<rparr>)"
    "holds_config fw (?cm ds') (Some \<lparr>RLC_Domain = ''slime'', RLC_Descriptors = ds'\<rparr>)"
    by (rule configmap_data_holds [OF assms], simp)+
  with same show "ds = ds'" by (auto simp: holds_config_def)
qed simp

lemma refreshConfigMap_stable:
  assumes "yaml_round_trip fw" "None \<notin> set ds"
    and "\<forall>d \<in> set desc. strings_Contains (Value d) (service_info loc)"
    and "Get_ConfigMap C w getConfigMapNamespaceName = Inr cm"
    and "CM_Data cm = configmap_data fw (merged_descriptors loc ds desc)"
  shows "refreshConfigMap fw C desc loc w = Inr w"
proof -
  let ?ds = "merged_descriptors loc ds desc"
  have "None \<notin> set (RLC_Descriptors \<lparr>RLC_Domain = ''slime'', RLC_Descriptors = ?ds\<rparr>)"
    using assms(2) by (auto simp: merged_descriptors_def)
  from refreshConfigMap_writes [OF assms(4) configmap_data_holds [OF assms(1,5)] this, of desc loc]
  show ?thesis by (simp add: assms(5) merged_descriptors_idem [OF assms(3)])
qed

end
