(* ===== verification/Process.thy ===== *)
theory Process
  imports EnvoyFilters ConfigMap
begin

section \<open>Applying the result: \<open>controllers/process.go\<close>\<close>

text \<open>
  \<open>refresh\<close> generates the EnvoyFilters of a SmartLimiter, creates, updates or deletes the
  stored ones (\<open>refreshEnvoyFilter\<close>), rewrites the ConfigMap of the rate-limit service
  (\<open>refreshConfigMap\<close>) and the status.
\<close>

subsection \<open>One EnvoyFilter\<close>

definition refreshEnvoyFilter ::
    "framework \<Rightarrow> 'w client \<Rightarrow> SmartLimiter \<Rightarrow> EnvoyFilterCR \<Rightarrow> 'w \<Rightarrow> 'w \<times> goerror option" where
  "refreshEnvoyFilter fw C sl obj0 w =
     (case SetControllerReference fw sl obj0 of
        Inl err \<Rightarrow> (w, Some err)
      | Inr obj1 \<Rightarrow>
          let loc = \<lparr>NN_Namespace = SL_Namespace sl, NN_Name = EF_Name obj1\<rparr>;
              istioRev = IstioRevFromLabel fw (SL_Labels sl);
              obj = obj1\<lparr>EF_Labels := PatchIstioRevLabel fw (EF_Labels obj1) istioRev\<rparr>
          in case Get_EnvoyFilter C w loc of
               Inl err \<Rightarrow>
                 if IsNotFound err
                 then (if EF_Spec obj \<noteq> None
                       then (case Create_EnvoyFilter C w obj of
                               (w', Some err) \<Rightarrow> (w', Some (OtherError ''creating a new EnvoyFilter err''))
                             | (w', None) \<Rightarrow> (w', None))
                       else (w, None))
                 else (w, Some (OtherError ''get envoyfilter err''))
             | Inr found \<Rightarrow>
                 if IstioRevFromLabel fw (EF_Labels found) \<noteq> istioRev then (w, None)
                 else
                   let foundSpec = json_string (MarshalSpec fw (EF_Spec found));
                       objSpec = json_string (MarshalSpec fw (EF_Spec obj))
                   in if EF_Spec obj \<noteq> None
                      then (if foundSpec \<noteq> objSpec
                            then Update_EnvoyFilter C w
                                   (obj\<lparr>EF_ResourceVersion := EF_ResourceVersion found\<rparr>)
                            else (w, None))
                      else (case Delete_EnvoyFilter C w obj of
                              (w', Some err) \<Rightarrow> (w', if IsNotFound err then None else Some err)
                            | (w', None) \<Rightarrow> (w', None)))"

subsection \<open>Refreshing one SmartLimiter\<close>

definition getMaterial ::
    "framework \<Rightarrow> 'm cmap \<Rightarrow> 'm SmartLimiterReconciler \<Rightarrow> NamespacedName \<Rightarrow> string gomap" where
  "getMaterial fw M r loc =
     (case cmap_Get M (metricInfo r) (request_key loc) of
        Some (EndpointsPtr ep) \<Rightarrow> CopyMap fw (Endpoints_Info ep)
      | _ \<Rightarrow> None)"

definition envoyfilter_name :: "framework \<Rightarrow> SmartLimiter \<Rightarrow> string \<Rightarrow> string" where
  "envoyfilter_name fw sl k =
     (if k = Wellkonw_BaseSet fw
      then SL_Name sl @ ''.'' @ SL_Namespace sl @ ''.ratelimit''
      else SL_Name sl @ ''.'' @ SL_Namespace sl @ ''.'' @ k @ ''.ratelimit'')"

definition envoyfilter_object ::
    "framework \<Rightarrow> SmartLimiter \<Rightarrow> string \<Rightarrow> EnvoyFilter option \<Rightarrow> EnvoyFilterCR" where
  "envoyfilter_object fw sl k ef =
     \<lparr>EF_Name = envoyfilter_name fw sl k, EF_Namespace = SL_Namespace sl, EF_Labels = None,
      EF_OwnerReferences = [], EF_ResourceVersion = '''',
      EF_Spec = (case ef of None \<Rightarrow> None
                 | Some f \<Rightarrow> (case ProtoToMap fw f of Inl err \<Rightarrow> None | Inr mi \<Rightarrow> Some mi))\<rparr>"

fun refresh_envoyfilters ::
    "framework \<Rightarrow> 'w client \<Rightarrow> SmartLimiter \<Rightarrow> (string \<times> EnvoyFilter option) list \<Rightarrow> 'w \<Rightarrow> 'w" where
  "refresh_envoyfilters fw C sl [] w = w"
| "refresh_envoyfilters fw C sl ((k, ef) # efs) w =
     refresh_envoyfilters fw C sl efs
       (fst (refreshEnvoyFilter fw C sl (envoyfilter_object fw sl k ef) w))"

definition refresh ::
    "framework \<Rightarrow> 'm cmap \<Rightarrow> 'w client \<Rightarrow> chooser \<Rightarrow> 'm SmartLimiterReconciler \<Rightarrow> SmartLimiter
       \<Rightarrow> 'w \<Rightarrow> ('w \<times> goerror option) go" where
  "refresh fw M C ch r sl w =
     (let loc = \<lparr>NN_Namespace = SL_Namespace sl, NN_Name = SL_Name sl\<rparr>;
          material = getMaterial fw M r loc
      in if Sets (SL_Spec sl) = None
         then Inr (w, Some (OtherError ''invalid rateLimit spec with none sets''))
         else
           gbind (GenerateEnvoyConfigs fw C (ch_left ch) w (SL_Spec sl) material loc) (\<lambda>(cs, err).
             case err of
               Some e \<Rightarrow> Inr (w, Some e)
             | None \<Rightarrow>
                 let w1 = refresh_envoyfilters fw C sl
                            (go_range (ch_right ch) (setsEnvoyFilter cs)) w
                 in gbind (if global_enabled (r_env r)
                           then refreshConfigMap fw C (configs_globalDescriptors cs) loc w1
                           else Inr w1) (\<lambda>w2.
                      Inr (Update_Status C w2 (sl\<lparr>SL_Status :=
                        \<lparr>RatelimitStatus = Some (setsSmartLimitDescriptor cs),
                         MetricStatus = material\<rparr>\<rparr>)))))"

definition subscribe ::
    "framework \<Rightarrow> 'm cmap \<Rightarrow> 'w client \<Rightarrow> chooser \<Rightarrow> 'm SmartLimiterReconciler \<Rightarrow> string
       \<Rightarrow> 'w \<Rightarrow> 'w go" where
  "subscribe fw M C ch r host w =
     (case IsK8SService fw host of
        (name, ns, ok) \<Rightarrow>
          if ok
          then (case Get_SmartLimiter C w \<lparr>NN_Namespace = ns, NN_Name = name\<rparr> of
                  Inl err \<Rightarrow> Inr w
                | Inr sl \<Rightarrow> gbind (refresh fw M C ch r sl w) (\<lambda>(w', err). Inr w'))
          else Inr w)"

subsection \<open>The contract of the API server\<close>

text \<open>
  \<open>stored w\<close> is what the server holds in state \<open>w\<close>. Reads are truthful (they may fail), a
  write that succeeds stores or removes the object, a write that fails changes no
  EnvoyFilter, and the other operations leave EnvoyFilters alone.
\<close>

definition envoyfilter_loc :: "EnvoyFilterCR \<Rightarrow> NamespacedName" where
  "envoyfilter_loc cr = \<lparr>NN_Namespace = EF_Namespace cr, NN_Name = EF_Name cr\<rparr>"

definition same_content :: "EnvoyFilterCR \<Rightarrow> EnvoyFilterCR \<Rightarrow> bool" where
  "same_content a b \<longleftrightarrow> EF_Spec a = EF_Spec b \<and> EF_Labels a = EF_Labels b"

definition stores_envoyfilters ::
    "'w client \<Rightarrow> ('w \<Rightarrow> NamespacedName \<Rightarrow> EnvoyFilterCR option) \<Rightarrow> bool" where
  "stores_envoyfilters C stored \<longleftrightarrow>
     (\<forall>w loc cr. Get_EnvoyFilter C w loc = Inr cr \<longrightarrow> stored w loc = Some cr)
   \<and> (\<forall>w loc err. Get_EnvoyFilter C w loc = Inl err \<longrightarrow> IsNotFound err \<longrightarrow> stored w loc = None)
   \<and> (\<forall>w cr w'. Create_EnvoyFilter C w cr = (w', None) \<longrightarrow>
        (\<exists>cr'. same_content cr' cr \<and> stored w' = (stored w)(envoyfilter_loc cr \<mapsto> cr')))
   \<and> (\<forall>w cr w' err. Create_EnvoyFilter C w cr = (w', Some err) \<longrightarrow> stored w' = stored w)
   \<and> (\<forall>w cr w'. Update_EnvoyFilter C w cr = (w', None) \<longrightarrow>
        (\<exists>cr'. same_content cr' cr \<and> stored w' = (stored w)(envoyfilter_loc cr \<mapsto> cr')))
   \<and> (\<forall>w cr w' err. Update_EnvoyFilter C w cr = (w', Some err) \<longrightarrow> stored w' = stored w)
   \<and> (\<forall>w cr w'. Delete_EnvoyFilter C w cr = (w', None) \<longrightarrow>
        stored w' = (stored w)(envoyfilter_loc cr := None))
   \<and> (\<forall>w cr w' err. Delete_EnvoyFilter C w cr = (w', Some err) \<longrightarrow>
        stored w' = stored w \<and> (IsNotFound err \<longrightarrow> stored w (envoyfilter_loc cr) = None))
   \<and> (\<forall>w cm. stored (fst (Update_ConfigMap C w cm)) = stored w)
   \<and> (\<forall>w sl. stored (fst (Update_Status C w sl)) = stored w)"

lemma stores_envoyfiltersD:
  assumes "stores_envoyfilters C stored"
  shows "Get_EnvoyFilter C w loc = Inr cr \<Longrightarrow> stored w loc = Some cr"
    and "Get_EnvoyFilter C w loc = Inl err \<Longrightarrow> IsNotFound err \<Longrightarrow> stored w loc = None"
    and "Create_EnvoyFilter C w cr = (w', None) \<Longrightarrow>
           \<exists>cr'. same_content cr' cr \<and> stored w' = (stored w)(envoyfilter_loc cr \<mapsto> cr')"
    and "Create_EnvoyFilter C w cr = (w', Some err) \<Longrightarrow> stored w' = stored w"
    and "Update_EnvoyFilter C w cr = (w', None) \<Longrightarrow>
           \<exists>cr'. same_content cr' cr \<and> stored w' = (stored w)(envoyfilter_loc cr \<mapsto> cr')"
    and "Update_EnvoyFilter C w cr = (w', Some err) \<Longrightarrow> stored w' = stored w"
    and "Delete_EnvoyFilter C w cr = (w', None) \<Longrightarrow>
           stored w' = (stored w)(envoyfilter_loc cr := None)"
    and "Delete_EnvoyFilter C w cr = (w', Some err) \<Longrightarrow> stored w' = stored w"
    and "Delete_EnvoyFilter C w cr = (w', Some err) \<Longrightarrow> IsNotFound err \<Longrightarrow>
           stored w (envoyfilter_loc cr) = None"
    and "stored (fst (Update_ConfigMap C w cm)) = stored w"
    and "stored (fst (Update_Status C w sl)) = stored w"
  using assms unfolding stores_envoyfilters_def by - meson+

text \<open>\<open>controllerutil.SetControllerReference\<close> touches only the owner references.\<close>

definition sets_owner_only :: "framework \<Rightarrow> bool" where
  "sets_owner_only fw \<longleftrightarrow> (\<forall>sl obj obj'. SetControllerReference fw sl obj = Inr obj' \<longrightarrow>
     (\<exists>rs. obj' = obj\<lparr>EF_OwnerReferences := rs\<rparr>))"

lemma owner_onlyE:
  assumes "sets_owner_only fw" "SetControllerReference fw sl obj = Inr obj'"
  obtains rs where "obj' = obj\<lparr>EF_OwnerReferences := rs\<rparr>"
  using assms unfolding sets_owner_only_def by blast

subsection \<open>What refreshing one EnvoyFilter achieves\<close>

definition foreign_revision :: "framework \<Rightarrow> SmartLimiter \<Rightarrow> EnvoyFilterCR \<Rightarrow> bool" where
  "foreign_revision fw sl cr \<longleftrightarrow>
     IstioRevFromLabel fw (EF_Labels cr) \<noteq> IstioRevFromLabel fw (SL_Labels sl)"

definition spec_text :: "framework \<Rightarrow> iface gomap \<Rightarrow> string" where
  "spec_text fw spec = json_string (MarshalSpec fw spec)"

text \<open>
  The stored EnvoyFilter is as wanted: absent when there is no spec, and otherwise present
  with a spec of the same JSON text; one of another Istio revision is left as it was.
\<close>

definition as_wanted ::
    "framework \<Rightarrow> SmartLimiter \<Rightarrow> iface gomap \<Rightarrow> EnvoyFilterCR option \<Rightarrow> EnvoyFilterCR option \<Rightarrow> bool" where
  "as_wanted fw sl spec before after \<longleftrightarrow>
     (if \<exists>cr. before = Some cr \<and> foreign_revision fw sl cr then after = before
      else case spec of
             None \<Rightarrow> after = None
           | Some _ \<Rightarrow> \<exists>cr. after = Some cr \<and> spec_text fw (EF_Spec cr) = spec_text fw spec)"

text \<open>The object the code submits.\<close>

definition submitted :: "framework \<Rightarrow> SmartLimiter \<Rightarrow> string list \<Rightarrow> EnvoyFilterCR \<Rightarrow> EnvoyFilterCR" where
  "submitted fw sl rs obj = obj\<lparr>EF_OwnerReferences := rs,
     EF_Labels := PatchIstioRevLabel fw (EF_Labels obj) (IstioRevFromLabel fw (SL_Labels sl))\<rparr>"

lemma submitted_fields [simp]:
  "envoyfilter_loc (submitted fw sl rs obj) = envoyfilter_loc obj"
  "EF_Spec (submitted fw sl rs obj) = EF_Spec obj"
  "envoyfilter_loc ((submitted fw sl rs obj)\<lparr>EF_ResourceVersion := v\<rparr>) = envoyfilter_loc obj"
  "EF_Spec ((submitted fw sl rs obj)\<lparr>EF_ResourceVersion := v\<rparr>) = EF_Spec obj"
  by (simp_all add: submitted_def envoyfilter_loc_def)

lemma refreshEnvoyFilter_writes:
  assumes "sets_owner_only fw"
  shows "\<exists>rs v. fst (refreshEnvoyFilter fw C sl obj w) \<in>
           {w, fst (Create_EnvoyFilter C w (submitted fw sl rs obj)),
            fst (Update_EnvoyFilter C w ((submitted fw sl rs obj)\<lparr>EF_ResourceVersion := v\<rparr>)),
            fst (Delete_EnvoyFilter C w (submitted fw sl rs obj))}"
proof (cases "SetControllerReference fw sl obj")
  case (Inr obj1)
  then obtain rs where obj1: "obj1 = obj\<lparr>EF_OwnerReferences := rs\<rparr>"
    using assms by (elim owner_onlyE)
  show ?thesis
    unfolding refreshEnvoyFilter_def Inr obj1 submitted_def Let_def
    by (rule exI [of _ rs]) (auto split: sum.split option.split prod.split)
qed (simp add: refreshEnvoyFilter_def)

lemma refreshEnvoyFilter_frame:
  assumes "stores_envoyfilters C stored" "sets_owner_only fw"
    and "loc \<noteq> envoyfilter_loc obj"
  shows "stored (fst (refreshEnvoyFilter fw C sl obj w)) loc = stored w loc"
proof -
  note laws = stores_envoyfiltersD [OF assms(1)]
  have "stored (fst (Create_EnvoyFilter C w cr)) loc = stored w loc"
    "stored (fst (Update_EnvoyFilter C w cr)) loc = stored w loc"
    "stored (fst (Delete_EnvoyFilter C w cr)) loc = stored w loc"
    if "envoyfilter_loc cr = envoyfilter_loc obj" for cr
  proof -
    show "stored (fst (Create_EnvoyFilter C w cr)) loc = stored w loc"
      using laws(3,4) [of w cr] that assms(3)
      by (cases "Create_EnvoyFilter C w cr"; cases "snd (Create_EnvoyFilter C w cr)") auto
    show "stored (fst (Update_EnvoyFilter C w cr)) loc = stored w loc"
      using laws(5,6) [of w cr] that assms(3)
      by (cases "Update_EnvoyFilter C w cr"; cases "snd (Update_EnvoyFilter C w cr)") auto
    show "stored (fst (Delete_EnvoyFilter C w cr)) loc = stored w loc"
      using laws(7,8) [of w cr] that assms(3)
      by (cases "Delete_EnvoyFilter C w cr"; cases "snd (Delete_EnvoyFilter C w cr)") auto
  qed
  then show ?thesis
    using refreshEnvoyFilter_writes [OF assms(2), of C sl obj w] by (elim exE) auto
qed

text \<open>The two cases of the code: nothing is stored under the name, or something is.\<close>

lemma refreshEnvoyFilter_not_found:
  assumes "SetControllerReference fw sl obj = Inr (obj\<lparr>EF_OwnerReferences := rs\<rparr>)"
    and "EF_Namespace obj = SL_Namespace sl"
    and "Get_EnvoyFilter C w (envoyfilter_loc obj) = Inl err" "IsNotFound err"
  shows "refreshEnvoyFilter fw C sl obj w =
           (if EF_Spec obj = None then (w, None)
            else case Create_EnvoyFilter C w (submitted fw sl rs obj) of
                   (w', None) \<Rightarrow> (w', None)
                 | (w', Some err) \<Rightarrow> (w', Some (OtherError ''creating a new EnvoyFilter err'')))"
  using assms by (auto simp: refreshEnvoyFilter_def submitted_def envoyfilter_loc_def Let_def
      split: prod.split option.split)

lemma refreshEnvoyFilter_found:
  assumes "SetControllerReference fw sl obj = Inr (obj\<lparr>EF_OwnerReferences := rs\<rparr>)"
    and "EF_Namespace obj = SL_Namespace sl"
    and "Get_EnvoyFilter C w (envoyfilter_loc obj) = Inr found"
  shows "refreshEnvoyFilter fw C sl obj w =
           (if foreign_revision fw sl found then (w, None)
            else if EF_Spec obj = None
            then (case Delete_EnvoyFilter C w (submitted fw sl rs obj) of
                    (w', None) \<Rightarrow> (w', None)
                  | (w', Some err) \<Rightarrow> (w', if IsNotFound err then None else Some err))
            else if spec_text fw (EF_Spec found) = spec_text fw (EF_Spec obj) then (w, None)
            else Update_EnvoyFilter C w
                   ((submitted fw sl rs obj)\<lparr>EF_ResourceVersion := EF_ResourceVersion found\<rparr>))"
  using assms by (auto simp: refreshEnvoyFilter_def submitted_def envoyfilter_loc_def foreign_revision_def
      spec_text_def Let_def split: prod.split option.split)

lemma owner_set:
  assumes "sets_owner_only fw" "refreshEnvoyFilter fw C sl obj w = (w', None)"
  obtains rs where "SetControllerReference fw sl obj = Inr (obj\<lparr>EF_OwnerReferences := rs\<rparr>)"
proof (cases "SetControllerReference fw sl obj")
  case (Inr obj1)
  with assms(1) that show ?thesis by (elim owner_onlyE) auto
qed (use assms(2) in \<open>auto simp: refreshEnvoyFilter_def\<close>)

lemma refreshEnvoyFilter_wanted:
  assumes "stores_envoyfilters C stored" "sets_owner_only fw"
    and "EF_Namespace obj = SL_Namespace sl"
    and "refreshEnvoyFilter fw C sl obj w = (w', None)"
  shows "as_wanted fw sl (EF_Spec obj) (stored w (envoyfilter_loc obj)) (stored w' (envoyfilter_loc obj))"
proof -
  note laws = stores_envoyfiltersD [OF assms(1)]
  obtain rs where set: "SetControllerReference fw sl obj = Inr (obj\<lparr>EF_OwnerReferences := rs\<rparr>)"
    by (rule owner_set [OF assms(2,4)])
  let ?loc = "envoyfilter_loc obj"
  have written: "\<exists>cr. stored w' ?loc = Some cr \<and> EF_Spec cr = EF_Spec obj"
    if "Create_EnvoyFilter C w cr = (w', None) \<or> Update_EnvoyFilter C w cr = (w', None)"
      "envoyfilter_loc cr = ?loc" "EF_Spec cr = EF_Spec obj" for cr
    using laws(3,5) [of w cr w'] that by (auto simp: same_content_def)
  show ?thesis
  proof (cases "Get_EnvoyFilter C w ?loc")
    case (Inl err)
    then have missing: "IsNotFound err"
      using assms(3,4) by (auto simp: refreshEnvoyFilter_def set envoyfilter_loc_def Let_def split: if_splits)
    then have "stored w ?loc = None" using laws(2) Inl by blast
    then show ?thesis
      using assms(4) written [of "submitted fw sl rs obj"]
      unfolding refreshEnvoyFilter_not_found [OF set assms(3) Inl missing]
      by (auto simp: as_wanted_def split: if_splits prod.splits option.splits)
  next
    case (Inr found)
    then have "stored w ?loc = Some found" using laws(1) by blast
    moreover have "stored w' ?loc = None"
      if "Delete_EnvoyFilter C w (submitted fw sl rs obj) = (w', e)" "e = None \<or> IsNotFound (the e)" for e
      using laws(7,8,9) [of w "submitted fw sl rs obj" w'] that by (cases e) auto
    ultimately show ?thesis
      using assms(4) written [of "(submitted fw sl rs obj)\<lparr>EF_ResourceVersion := EF_ResourceVersion found\<rparr>"]
      unfolding refreshEnvoyFilter_found [OF set assms(3) Inr]
      by (fastforce simp: as_wanted_def split: if_splits prod.splits option.splits)
  qed
qed

text \<open>An EnvoyFilter of another Istio revision is never written.\<close>

lemma refreshEnvoyFilter_foreign:
  assumes "sets_owner_only fw"
    and "Get_EnvoyFilter C w \<lparr>NN_Namespace = SL_Namespace sl, NN_Name = EF_Name obj\<rparr> = Inr found"
    and "foreign_revision fw sl found"
  shows "fst (refreshEnvoyFilter fw C sl obj w) = w"
proof (cases "SetControllerReference fw sl obj")
  case (Inr obj1)
  then obtain rs where "obj1 = obj\<lparr>EF_OwnerReferences := rs\<rparr>"
    using assms(1) by (elim owner_onlyE)
  with Inr assms(2,3) show ?thesis
    by (simp add: refreshEnvoyFilter_def foreign_revision_def)
qed (simp add: refreshEnvoyFilter_def)

subsection \<open>All EnvoyFilters of a SmartLimiter\<close>

text \<open>The name determines the set: two sets of one SmartLimiter never share an EnvoyFilter.\<close>

lemma envoyfilter_name_inject [simp]:
  "envoyfilter_name fw sl k = envoyfilter_name fw sl k' \<longleftrightarrow> k = k'"
proof -
  have "x @ ''.ratelimit'' = ''ratelimit'' \<longleftrightarrow> False" "''ratelimit'' = x @ ''.ratelimit'' \<longleftrightarrow> False" for x
    by (auto dest: arg_cong [where f = length])
  then show ?thesis by (auto simp: envoyfilter_name_def)
qed

definition set_loc :: "framework \<Rightarrow> SmartLimiter \<Rightarrow> string \<Rightarrow> NamespacedName" where
  "set_loc fw sl k = \<lparr>NN_Namespace = SL_Namespace sl, NN_Name = envoyfilter_name fw sl k\<rparr>"

lemma set_loc_inject [simp]: "set_loc fw sl k = set_loc fw sl k' \<longleftrightarrow> k = k'"
  by (simp add: set_loc_def)

lemma envoyfilter_object_fields [simp]:
  "envoyfilter_loc (envoyfilter_object fw sl k ef) = set_loc fw sl k"
  "EF_Namespace (envoyfilter_object fw sl k ef) = SL_Namespace sl"
  by (simp_all add: envoyfilter_loc_def envoyfilter_object_def set_loc_def)

lemma refresh_envoyfilters_frame:
  assumes "stores_envoyfilters C stored" "sets_owner_only fw"
    and "\<forall>k \<in> fst ` set efs. loc \<noteq> set_loc fw sl k"
  shows "stored (refresh_envoyfilters fw C sl efs w) loc = stored w loc"
  using assms(3)
proof (induction efs arbitrary: w)
  case (Cons e efs)
  obtain k ef where e: "e = (k, ef)" by (cases e)
  with Cons.prems have "loc \<noteq> envoyfilter_loc (envoyfilter_object fw sl k ef)" by simp
  from refreshEnvoyFilter_frame [OF assms(1,2) this] Cons show ?case by (simp add: e)
qed simp

text \<open>No call to the API server fails, except that reading or deleting may say "not found".\<close>

definition never_fails :: "framework \<Rightarrow> 'w client \<Rightarrow> bool" where
  "never_fails fw C \<longleftrightarrow>
     (\<forall>sl obj. \<exists>obj'. SetControllerReference fw sl obj = Inr obj')
   \<and> (\<forall>w loc err. Get_EnvoyFilter C w loc = Inl err \<longrightarrow> IsNotFound err)
   \<and> (\<forall>w cr. snd (Create_EnvoyFilter C w cr) = None)
   \<and> (\<forall>w cr. snd (Update_EnvoyFilter C w cr) = None)
   \<and> (\<forall>w cr err. snd (Delete_EnvoyFilter C w cr) = Some err \<longrightarrow> IsNotFound err)"

text \<open>The same for the EnvoyFilter of one set only.\<close>

definition calls_succeed :: "framework \<Rightarrow> 'w client \<Rightarrow> SmartLimiter \<Rightarrow> NamespacedName \<Rightarrow> bool" where
  "calls_succeed fw C sl loc \<longleftrightarrow>
     (\<forall>obj. envoyfilter_loc obj = loc \<longrightarrow> (\<exists>obj'. SetControllerReference fw sl obj = Inr obj'))
   \<and> (\<forall>w err. Get_EnvoyFilter C w loc = Inl err \<longrightarrow> IsNotFound err)
   \<and> (\<forall>w cr. envoyfilter_loc cr = loc \<longrightarrow> snd (Create_EnvoyFilter C w cr) = None)
   \<and> (\<forall>w cr. envoyfilter_loc cr = loc \<longrightarrow> snd (Update_EnvoyFilter C w cr) = None)
   \<and> (\<forall>w cr err. envoyfilter_loc cr = loc \<longrightarrow> snd (Delete_EnvoyFilter C w cr) = Some err \<longrightarrow> IsNotFound err)"

lemma never_fails_calls_succeed:
  "never_fails fw C \<Longrightarrow> calls_succeed fw C sl loc"
  unfolding never_fails_def calls_succeed_def by blast

lemma refreshEnvoyFilter_no_error:
  assumes "sets_owner_only fw" "calls_succeed fw C sl (envoyfilter_loc obj)"
    and "EF_Namespace obj = SL_Namespace sl"
  shows "snd (refreshEnvoyFilter fw C sl obj w) = None"
proof -
  obtain obj' where "SetControllerReference fw sl obj = Inr obj'"
    using assms(2) unfolding calls_succeed_def by blast
  with assms(1) obtain rs where set: "SetControllerReference fw sl obj = Inr (obj\<lparr>EF_OwnerReferences := rs\<rparr>)"
    by (metis owner_onlyE)
  let ?new = "submitted fw sl rs obj"
  have calls: "snd (Create_EnvoyFilter C w ?new) = None"
    "snd (Update_EnvoyFilter C w (?new\<lparr>EF_ResourceVersion := v\<rparr>)) = None"
    "snd (Delete_EnvoyFilter C w ?new) = Some err \<Longrightarrow> IsNotFound err" for v err
    using assms(2) submitted_fields(1,3) [where fw = fw and sl = sl and rs = rs and obj = obj] unfolding calls_succeed_def by metis+
  show ?thesis
  proof (cases "Get_EnvoyFilter C w (envoyfilter_loc obj)")
    case (Inl err)
    with assms(2) have "IsNotFound err" unfolding calls_succeed_def by blast
    from refreshEnvoyFilter_not_found [OF set assms(3) Inl this] calls(1) show ?thesis
      by (auto split: prod.split option.split)
  next
    case (Inr found)
    from refreshEnvoyFilter_found [OF set assms(3) Inr] calls show ?thesis
      by (auto split: prod.split option.split)
  qed
qed

text \<open>A call that fails leaves every EnvoyFilter as it was.\<close>

lemma refreshEnvoyFilter_failed:
  assumes "stores_envoyfilters C stored"
    and "refreshEnvoyFilter fw C sl obj w = (w', Some err)"
  shows "stored w' = stored w"
  using assms(2) stores_envoyfiltersD(4,6,8) [OF assms(1)]
  by (auto simp: refreshEnvoyFilter_def Let_def split: sum.splits prod.splits option.splits if_splits)

text \<open>So a failing call concerns its own set only: the loop goes on with the others.\<close>

lemma refresh_envoyfilters_each:
  assumes "stores_envoyfilters C stored" "sets_owner_only fw"
    and "distinct (map fst efs)" "(k, ef) \<in> set efs"
  shows "as_wanted fw sl (EF_Spec (envoyfilter_object fw sl k ef)) (stored w (set_loc fw sl k))
           (stored (refresh_envoyfilters fw C sl efs w) (set_loc fw sl k))
       \<or> \<not> calls_succeed fw C sl (set_loc fw sl k)
         \<and> stored (refresh_envoyfilters fw C sl efs w) (set_loc fw sl k) = stored w (set_loc fw sl k)"
  using assms(3,4)
proof (induction efs arbitrary: w)
  case (Cons e efs)
  obtain k' ef' where e: "e = (k', ef')" by (cases e)
  obtain w' err where run: "refreshEnvoyFilter fw C sl (envoyfilter_object fw sl k' ef') w = (w', err)"
    by fastforce
  show ?case
  proof (cases "k = k'")
    case True
    with Cons.prems e have ef: "ef = ef'" "k \<notin> fst ` set efs"
      by (auto simp: rev_image_eqI)
    then have rest: "stored (refresh_envoyfilters fw C sl efs w') (set_loc fw sl k) = stored w' (set_loc fw sl k)"
      by (intro refresh_envoyfilters_frame [OF assms(1,2)]) auto
    show ?thesis
    proof (cases err)
      case None
      with refreshEnvoyFilter_wanted [OF assms(1,2), of "envoyfilter_object fw sl k' ef'" sl w w']
        True ef e run rest show ?thesis by simp
    next
      case (Some x)
      have "\<not> calls_succeed fw C sl (set_loc fw sl k)"
        using refreshEnvoyFilter_no_error [OF assms(2), of C sl "envoyfilter_object fw sl k' ef'" w]
          Some True run by auto
      with refreshEnvoyFilter_failed [OF assms(1)] Some True ef e run rest show ?thesis by auto
    qed
  next
    case False
    with refreshEnvoyFilter_frame [OF assms(1,2), of "set_loc fw sl k"
        "envoyfilter_object fw sl k' ef'" sl w] run
    have "stored w' (set_loc fw sl k) = stored w (set_loc fw sl k)" by simp
    with Cons.IH [of w'] Cons.prems False e run show ?thesis by auto
  qed
qed simp

lemma refresh_envoyfilters_wanted:
  assumes "stores_envoyfilters C stored" "sets_owner_only fw" "never_fails fw C"
    and "distinct (map fst efs)" "(k, ef) \<in> set efs"
  shows "as_wanted fw sl (EF_Spec (envoyfilter_object fw sl k ef)) (stored w (set_loc fw sl k))
           (stored (refresh_envoyfilters fw C sl efs w) (set_loc fw sl k))"
  using refresh_envoyfilters_each [OF assms(1,2,4,5)] never_fails_calls_succeed [OF assms(3)] by blast

text \<open>What is stored as wanted is left alone by the next refresh.\<close>

lemma refreshEnvoyFilter_unchanged:
  assumes "stores_envoyfilters C stored" "sets_owner_only fw" "never_fails fw C"
    and "EF_Namespace obj = SL_Namespace sl"
    and "as_wanted fw sl (EF_Spec obj) before (stored w (envoyfilter_loc obj))"
  shows "refreshEnvoyFilter fw C sl obj w = (w, None)"
proof -
  note laws = stores_envoyfiltersD [OF assms(1)]
  obtain rs where set: "SetControllerReference fw sl obj = Inr (obj\<lparr>EF_OwnerReferences := rs\<rparr>)"
    using refreshEnvoyFilter_no_error [OF assms(2) never_fails_calls_succeed [OF assms(3)] assms(4)]
    by (metis owner_set [OF assms(2)] prod.collapse)
  show ?thesis
  proof (cases "Get_EnvoyFilter C w (envoyfilter_loc obj)")
    case (Inl err)
    then have missing: "IsNotFound err" using assms(3) unfolding never_fails_def by blast
    with laws(2) Inl have "stored w (envoyfilter_loc obj) = None" by blast
    with assms(5) show ?thesis
      unfolding refreshEnvoyFilter_not_found [OF set assms(4) Inl missing]
      by (auto simp: as_wanted_def split: if_splits option.splits)
  next
    case (Inr found)
    with laws(1) have "stored w (envoyfilter_loc obj) = Some found" by blast
    with assms(5) show ?thesis
      unfolding refreshEnvoyFilter_found [OF set assms(4) Inr]
      by (auto simp: as_wanted_def split: if_splits option.splits)
  qed
qed

lemma refresh_envoyfilters_unchanged:
  assumes "stores_envoyfilters C stored" "sets_owner_only fw" "never_fails fw C"
    and "\<forall>(k, ef) \<in> set efs. \<exists>before.
           as_wanted fw sl (EF_Spec (envoyfilter_object fw sl k ef)) before (stored w (set_loc fw sl k))"
  shows "refresh_envoyfilters fw C sl efs w = w"
  using assms(4)
proof (induction efs)
  case (Cons e efs)
  obtain k ef where e: "e = (k, ef)" by (cases e)
  with Cons.prems obtain before where
    "as_wanted fw sl (EF_Spec (envoyfilter_object fw sl k ef)) before (stored w (set_loc fw sl k))"
    by auto
  then have "refreshEnvoyFilter fw C sl (envoyfilter_object fw sl k ef) w = (w, None)"
    by (intro refreshEnvoyFilter_unchanged [OF assms(1-3)]) simp_all
  with Cons e show ?case by simp
qed simp

subsection \<open>A whole refresh\<close>

definition object_loc :: "SmartLimiter \<Rightarrow> NamespacedName" where
  "object_loc sl = \<lparr>NN_Namespace = SL_Namespace sl, NN_Name = SL_Name sl\<rparr>"

definition config_write ::
    "framework \<Rightarrow> 'w client \<Rightarrow> 'm SmartLimiterReconciler \<Rightarrow> Descriptor list \<Rightarrow> NamespacedName
       \<Rightarrow> 'w \<Rightarrow> 'w go" where
  "config_write fw C r desc loc w =
     (if global_enabled (r_env r) then refreshConfigMap fw C desc loc w else Inr w)"

lemma refresh_unfold:
  "refresh fw M C ch r sl w =
     (if Sets (SL_Spec sl) = None
      then Inr (w, Some (OtherError ''invalid rateLimit spec with none sets''))
      else gbind (GenerateEnvoyConfigs fw C (ch_left ch) w (SL_Spec sl)
                    (getMaterial fw M r (object_loc sl)) (object_loc sl)) (\<lambda>(cs, err).
             case err of
               Some e \<Rightarrow> Inr (w, Some e)
             | None \<Rightarrow>
                 gbind (config_write fw C r (configs_globalDescriptors cs) (object_loc sl)
                   (refresh_envoyfilters fw C sl (go_range (ch_right ch) (setsEnvoyFilter cs)) w)) (\<lambda>w2.
                      Inr (Update_Status C w2 (sl\<lparr>SL_Status :=
                        \<lparr>RatelimitStatus = Some (setsSmartLimitDescriptor cs),
                         MetricStatus = getMaterial fw M r (object_loc sl)\<rparr>\<rparr>)))))"
  by (simp add: refresh_def object_loc_def config_write_def Let_def)

lemma refreshConfigMap_stored:
  assumes "stores_envoyfilters C stored" "config_write fw C r desc loc w = Inr w'"
  shows "stored w' = stored w"
  using assms(2) stores_envoyfiltersD(10) [OF assms(1)]
  by (auto simp: config_write_def refreshConfigMap_def Let_def split: if_splits sum.splits option.splits)

lemma refresh_status_stored:
  assumes "stores_envoyfilters C stored" "(w', e) = Update_Status C w sl"
  shows "stored w' = stored w"
  using stores_envoyfiltersD(11) [OF assms(1)] assms(2) by (metis fst_conv)

lemma refresh_Inr:
  assumes "refresh fw M C ch r sl w = Inr (w', e)"
  obtains (no_sets) "Sets (SL_Spec sl) = None" "w' = w" "e \<noteq> None"
  | (failed) err cs where "Sets (SL_Spec sl) \<noteq> None" "w' = w" "e = Some err"
      "GenerateEnvoyConfigs fw C (ch_left ch) w (SL_Spec sl)
         (getMaterial fw M r (object_loc sl)) (object_loc sl) = Inr (cs, Some err)"
  | (applied) cs w2 where "Sets (SL_Spec sl) \<noteq> None"
      "GenerateEnvoyConfigs fw C (ch_left ch) w (SL_Spec sl)
         (getMaterial fw M r (object_loc sl)) (object_loc sl) = Inr (cs, None)"
      "config_write fw C r (configs_globalDescriptors cs) (object_loc sl)
         (refresh_envoyfilters fw C sl (go_range (ch_right ch) (setsEnvoyFilter cs)) w) = Inr w2"
      "(w', e) = Update_Status C w2 (sl\<lparr>SL_Status :=
         \<lparr>RatelimitStatus = Some (setsSmartLimitDescriptor cs),
          MetricStatus = getMaterial fw M r (object_loc sl)\<rparr>\<rparr>)"
proof (cases "Sets (SL_Spec sl)")
  case None
  with assms show ?thesis by (intro no_sets) (auto simp: refresh_unfold)
next
  case (Some sets)
  with assms obtain cs err where gen: "GenerateEnvoyConfigs fw C (ch_left ch) w (SL_Spec sl)
         (getMaterial fw M r (object_loc sl)) (object_loc sl) = Inr (cs, err)"
    by (auto simp: refresh_unfold)
  show ?thesis
  proof (cases err)
    case None
    with assms gen Some obtain w2 where "config_write fw C r (configs_globalDescriptors cs)
         (object_loc sl) (refresh_envoyfilters fw C sl (go_range (ch_right ch) (setsEnvoyFilter cs)) w)
         = Inr w2"
      "(w', e) = Update_Status C w2 (sl\<lparr>SL_Status :=
         \<lparr>RatelimitStatus = Some (setsSmartLimitDescriptor cs),
          MetricStatus = getMaterial fw M r (object_loc sl)\<rparr>\<rparr>)"
      by (auto simp: refresh_unfold)
    with gen None Some show ?thesis by (intro applied) auto
  next
    case (Some err')
    with assms gen \<open>Sets (SL_Spec sl) = Some sets\<close> show ?thesis
      by (intro failed [of err' cs]) (auto simp: refresh_unfold)
  qed
qed

lemma refresh_applied_stored:
  assumes "stores_envoyfilters C stored" "refresh fw M C ch r sl w = Inr (w', e)"
    and "Sets (SL_Spec sl) \<noteq> None"
    and "GenerateEnvoyConfigs fw C (ch_left ch) w (SL_Spec sl)
           (getMaterial fw M r (object_loc sl)) (object_loc sl) = Inr (cs, None)"
  shows "stored w'
    = stored (refresh_envoyfilters fw C sl (go_range (ch_right ch) (setsEnvoyFilter cs)) w)"
  using assms(2)
proof (cases rule: refresh_Inr)
  case (applied cs' w2)
  with assms(4) refreshConfigMap_stored [OF assms(1)] refresh_status_stored [OF assms(1) applied(4)]
  show ?thesis by simp
qed (use assms(3,4) in auto)

text \<open>What no write touches, a refresh leaves as it was.\<close>

definition writes_preserve :: "'w client \<Rightarrow> ('w \<Rightarrow> 'x) \<Rightarrow> bool" where
  "writes_preserve C obs \<longleftrightarrow> (\<forall>w.
     (\<forall>cr. obs (fst (Create_EnvoyFilter C w cr)) = obs w \<and> obs (fst (Update_EnvoyFilter C w cr)) = obs w
         \<and> obs (fst (Delete_EnvoyFilter C w cr)) = obs w)
   \<and> (\<forall>cm. obs (fst (Update_ConfigMap C w cm)) = obs w) \<and> (\<forall>sl. obs (fst (Update_Status C w sl)) = obs w))"

lemma refresh_preserves:
  assumes "writes_preserve C obs" "sets_owner_only fw" "refresh fw M C ch r sl w = Inr (w', e)"
  shows "obs w' = obs w"
proof -
  have one: "obs (fst (refreshEnvoyFilter fw C sl obj v)) = obs v" for obj v
    using refreshEnvoyFilter_writes [OF assms(2), of C sl obj v] assms(1)
    unfolding writes_preserve_def by auto
  have all: "obs (refresh_envoyfilters fw C sl efs v) = obs v" for efs v
    by (induction efs arbitrary: v) (auto simp: one)
  have config: "obs v' = obs v" if "config_write fw C r ds loc v = Inr v'" for ds loc v v'
    using that assms(1)
    by (auto simp: writes_preserve_def config_write_def refreshConfigMap_def Let_def
        split: if_splits sum.splits option.splits)
  from assms(3) show ?thesis
  proof (cases rule: refresh_Inr)
    case (applied cs w2)
    with assms(1) config all show ?thesis unfolding writes_preserve_def by (metis fst_conv)
  qed simp_all
qed

text \<open>The content wanted for a set: the EnvoyFilter of its evaluated descriptors.\<close>

definition wanted_spec ::
    "framework \<Rightarrow> SmartLimiter \<Rightarrow> (string, iface) fmap \<Rightarrow> string gomap \<Rightarrow> Subset list \<Rightarrow> string
       \<Rightarrow> iface gomap \<Rightarrow> bool" where
  "wanted_spec fw sl m sel sbs k spec \<longleftrightarrow>
     (if set_valid fw (SL_Spec sl) m k = [] then spec = None
      else \<exists>sb ch ef. sb \<in> set sbs \<and> Subset_Name sb = k \<and> fair ch
        \<and> descriptorsToEnvoyFilter fw ch (set_valid fw (SL_Spec sl) m k)
            (Some (map_items sel ++\<^sub>f map_items (Subset_Labels sb))) (object_loc sl)
            (Rls (SL_Spec sl)) = Inr (Some ef)
        \<and> spec = (case ProtoToMap fw ef of Inl err \<Rightarrow> None | Inr mi \<Rightarrow> Some mi))"

lemma generated_specs:
  assumes "fair ch" "converts_messages fw" "copies_maps fw"
    and "sets_loop fw ch (SL_Spec sl) m sel (object_loc sl) (map Some sbs) no_configs = Inr cs"
    and "fmlookup (setsEnvoyFilter cs) k = Some ef"
  shows "wanted_spec fw sl m sel sbs k (EF_Spec (envoyfilter_object fw sl k ef))"
proof -
  let ?vs = "set_valid fw (SL_Spec sl) m k"
  have "\<exists>sb \<in> set sbs. Subset_Name sb = k \<and> (if ?vs = [] then ef = None
         else \<exists>ch1 ch2 labels. fair ch1 \<and> fair ch2 \<and> selector_of fw sel sb ch1 = Inr labels
            \<and> descriptorsToEnvoyFilter fw ch2 ?vs labels (object_loc sl) (Rls (SL_Spec sl)) = Inr ef)"
    using sets_loop_ef [OF assms(4,1), of k] by (simp add: no_configs_def assms(5) split del: if_split)
  then obtain sb where sb: "sb \<in> set sbs" "Subset_Name sb = k" and
    ef: "if ?vs = [] then ef = None
         else \<exists>ch1 ch2 labels. fair ch1 \<and> fair ch2 \<and> selector_of fw sel sb ch1 = Inr labels
            \<and> descriptorsToEnvoyFilter fw ch2 ?vs labels (object_loc sl) (Rls (SL_Spec sl)) = Inr ef"
    by blast
  show ?thesis
  proof (cases "?vs = []")
    case True
    with ef show ?thesis by (simp add: wanted_spec_def envoyfilter_object_def)
  next
    case False
    with ef obtain ch1 ch2 labels where c: "fair ch1" "fair ch2"
      "selector_of fw sel sb ch1 = Inr labels"
      "descriptorsToEnvoyFilter fw ch2 ?vs labels (object_loc sl) (Rls (SL_Spec sl)) = Inr ef" by auto
    then obtain f where f: "ef = Some f"
      using descriptorsToEnvoyFilter_not_nil [OF c(2) assms(2)] by (cases ef) auto
    have "labels = Some (map_items sel ++\<^sub>f map_items (Subset_Labels sb))"
      using c(3) selector_of_eq [OF c(1) assms(3)] by simp
    with c f sb False show ?thesis
      unfolding wanted_spec_def envoyfilter_object_def by auto
  qed
qed

text \<open>
  After a refresh, the stored EnvoyFilter of every set of the host is as wanted, or a call for
  this set can fail and it is as before; and every other EnvoyFilter is as before.
\<close>

lemma refresh_reconciles:
  assumes "fair ch" "converts_messages fw" "copies_maps fw"
    and "stores_envoyfilters C stored" "sets_owner_only fw"
    and "Sets (SL_Spec sl) \<noteq> None" "Get_Service C w (object_loc sl) = Inr svc"
    and "host_sets fw C w (object_loc sl) = Inr (map Some sbs)"
    and "refresh fw M C ch r sl w = Inr (w', e)"
  shows "k \<in> Subset_Name ` set sbs \<Longrightarrow>
           \<exists>spec. wanted_spec fw sl (MapToMapInterface fw (getMaterial fw M r (object_loc sl)))
                    (Service_Selector svc) sbs k spec
             \<and> (as_wanted fw sl spec (stored w (set_loc fw sl k)) (stored w' (set_loc fw sl k))
                \<or> \<not> calls_succeed fw C sl (set_loc fw sl k)
                  \<and> stored w' (set_loc fw sl k) = stored w (set_loc fw sl k))"
    and "loc \<notin> set_loc fw sl ` Subset_Name ` set sbs \<Longrightarrow> stored w' loc = stored w loc"
proof -
  let ?m = "MapToMapInterface fw (getMaterial fw M r (object_loc sl))"
  obtain cs where gen: "GenerateEnvoyConfigs fw C (ch_left ch) w (SL_Spec sl)
         (getMaterial fw M r (object_loc sl)) (object_loc sl) = Inr (cs, None)"
    using assms(9)
  proof (cases rule: refresh_Inr)
    case (failed err cs)
    with assms(7,8) show ?thesis by (auto simp: GenerateEnvoyConfigs_def)
  qed (use assms(6) that in auto)
  have loop: "sets_loop fw (ch_left ch) (SL_Spec sl) ?m (Service_Selector svc) (object_loc sl) (map Some sbs)
      no_configs = Inr cs"
    using gen assms(7,8) by (auto simp: GenerateEnvoyConfigs_def)
  have f: "fair (ch_left ch)" "fair (ch_right ch)" using assms(1) by auto
  have dom: "fmdom (setsEnvoyFilter cs) = fset_of_list (map Subset_Name sbs)"
    using sets_loop_dom [OF loop] by (simp add: no_configs_def)
  let ?efs = "go_range (ch_right ch) (setsEnvoyFilter cs)"
  have stored': "stored w' = stored (refresh_envoyfilters fw C sl ?efs w)"
    by (rule refresh_applied_stored [OF assms(4,9,6) gen])
  show "\<exists>spec. wanted_spec fw sl ?m (Service_Selector svc) sbs k spec
             \<and> (as_wanted fw sl spec (stored w (set_loc fw sl k)) (stored w' (set_loc fw sl k))
                \<or> \<not> calls_succeed fw C sl (set_loc fw sl k)
                  \<and> stored w' (set_loc fw sl k) = stored w (set_loc fw sl k))"
    if "k \<in> Subset_Name ` set sbs"
  proof -
    from that have "k |\<in>| fmdom (setsEnvoyFilter cs)" by (simp add: dom fset_of_list.rep_eq)
    then obtain ef where ef: "fmlookup (setsEnvoyFilter cs) k = Some ef" by (meson fmdomE)
    then have "(k, ef) \<in> set ?efs" using f(2) by simp
    from refresh_envoyfilters_each [OF assms(4,5) distinct_fst_go_range [OF f(2)] this, of sl w]
      generated_specs [OF f(1) assms(2,3) loop ef] stored'
    show ?thesis by auto
  qed
  show "stored w' loc = stored w loc" if loc: "loc \<notin> set_loc fw sl ` Subset_Name ` set sbs"
  proof -
    have "k \<in> Subset_Name ` set sbs" if "k \<in> fst ` set ?efs" for k
    proof -
      from that f(2) have "k |\<in>| fmdom (setsEnvoyFilter cs)" by (auto intro: fmdomI)
      then show ?thesis by (simp add: dom fset_of_list.rep_eq)
    qed
    with loc have "\<forall>k \<in> fst ` set ?efs. loc \<noteq> set_loc fw sl k" by blast
    from refresh_envoyfilters_frame [OF assms(4,5) this] stored' show ?thesis by simp
  qed
qed

text \<open>
  A second refresh, on the same service, sets and metrics, finds everything as wanted. The order
  of the route patches is in the text of the spec, so it has to be the same; the order in which
  the EnvoyFilters are visited is free.
\<close>

lemma refresh_converged:
  assumes "stores_envoyfilters C stored" "sets_owner_only fw" "never_fails fw C"
    and "fair ch" "fair ch'" "ch_left ch' = ch_left ch"
    and "refresh fw M C ch r sl w = Inr (w', e)" "refresh fw M C ch' r sl w' = Inr (w'', e')"
    and "Get_Service C w' (object_loc sl) = Get_Service C w (object_loc sl)"
    and "host_sets fw C w' (object_loc sl) = host_sets fw C w (object_loc sl)"
  shows "stored w'' = stored w'"
proof -
  have same: "GenerateEnvoyConfigs fw C (ch_left ch') w' (SL_Spec sl) (getMaterial fw M r (object_loc sl))
        (object_loc sl)
      = GenerateEnvoyConfigs fw C (ch_left ch) w (SL_Spec sl) (getMaterial fw M r (object_loc sl))
        (object_loc sl)"
    using assms(6,9,10) by (simp add: GenerateEnvoyConfigs_def)
  from assms(8) show ?thesis
  proof (cases rule: refresh_Inr)
    case (applied cs w2)
    let ?efs = "go_range (ch_right ch) (setsEnvoyFilter cs)"
    let ?efs' = "go_range (ch_right ch') (setsEnvoyFilter cs)"
    have f: "fair (ch_right ch)" "fair (ch_right ch')" using assms(4,5) by auto
    have stored': "stored w' = stored (refresh_envoyfilters fw C sl ?efs w)"
      using applied(1,2) unfolding same by (rule refresh_applied_stored [OF assms(1,7)])
    have "\<forall>(k, ef) \<in> set ?efs'. \<exists>before.
        as_wanted fw sl (EF_Spec (envoyfilter_object fw sl k ef)) before (stored w' (set_loc fw sl k))"
      using refresh_envoyfilters_wanted [OF assms(1-3) distinct_fst_go_range [OF f(1)]] f
      by (fastforce simp: stored')
    from refresh_envoyfilters_unchanged [OF assms(1-3) this] show ?thesis
      using refreshConfigMap_stored [OF assms(1) applied(3)] refresh_status_stored [OF assms(1) applied(4)]
      by simp
  qed simp_all
qed

text \<open>The status a refresh writes lists exactly the sets that have evaluated descriptors.\<close>

lemma refresh_status:
  assumes "Sets (SL_Spec sl) \<noteq> None" "Get_Service C w (object_loc sl) = Inr svc"
    and "host_sets fw C w (object_loc sl) = Inr (map Some sbs)"
    and "refresh fw M C ch r sl w = Inr (w', e)"
  shows "\<exists>w2 status. Update_Status C w2 (sl\<lparr>SL_Status := \<lparr>RatelimitStatus = Some status,
             MetricStatus = getMaterial fw M r (object_loc sl)\<rparr>\<rparr>) = (w', e)
           \<and> (\<forall>k. fmlookup status k =
                (let vs = set_valid fw (SL_Spec sl)
                            (MapToMapInterface fw (getMaterial fw M r (object_loc sl))) k
                 in if k \<in> Subset_Name ` set sbs \<and> vs \<noteq> [] then Some (status_entry vs) else None))"
  using assms(4)
proof (cases rule: refresh_Inr)
  case (applied cs w2)
  have loop: "sets_loop fw (ch_left ch) (SL_Spec sl)
      (MapToMapInterface fw (getMaterial fw M r (object_loc sl))) (Service_Selector svc) (object_loc sl)
      (map Some sbs) no_configs = Inr cs"
    using applied(2) assms(2,3) by (auto simp: GenerateEnvoyConfigs_def)
  from sets_loop_status [OF loop] applied(4) show ?thesis
    by (intro exI [of _ w2] exI [of _ "setsSmartLimitDescriptor cs"]) (simp add: no_configs_def Let_def)
next
  case (failed err cs)
  with assms(2,3) show ?thesis by (auto simp: GenerateEnvoyConfigs_def)
qed (use assms(1) in auto)

text \<open>Without the service, a refresh reports the error and writes nothing.\<close>

lemma refresh_without_service:
  assumes "Sets (SL_Spec sl) \<noteq> None" "Get_Service C w (object_loc sl) = Inl err"
    and "host_sets fw C w (object_loc sl) = Inr (map Some sbs)"
  shows "refresh fw M C ch r sl w = Inr (w, Some err)"
  using assms(1) by (auto simp add: refresh_unfold GenerateEnvoyConfigs_def assms(2,3))

subsection \<open>When nothing panics\<close>

lemma GenerateEnvoyConfigs_total:
  assumes "fair ch" "converts_messages fw" "copies_maps fw" "complete_spec spec"
    and "host_sets fw C w loc = Inr (map Some sbs)"
  shows "\<exists>cs e. GenerateEnvoyConfigs fw C ch w spec material loc = Inr (cs, e)"
proof (cases "Get_Service C w loc")
  case (Inl err)
  with assms(5) show ?thesis by (simp add: GenerateEnvoyConfigs_def)
next
  case (Inr svc)
  obtain cs where "sets_loop fw ch spec (MapToMapInterface fw material) (Service_Selector svc) loc
      (map Some sbs) no_configs = Inr cs"
    using sets_loop_total [OF assms(1-4)] by blast
  with Inr assms(5) show ?thesis by (simp add: GenerateEnvoyConfigs_def)
qed

text \<open>Every ConfigMap the client returns holds a configuration without nil entries.\<close>

definition sound_configmaps :: "framework \<Rightarrow> 'w client \<Rightarrow> bool" where
  "sound_configmaps fw C \<longleftrightarrow>
     (\<forall>w cm rc. Get_ConfigMap C w getConfigMapNamespaceName = Inr cm \<longrightarrow> holds_config fw cm rc
        \<longrightarrow> (\<exists>c. rc = Some c \<and> None \<notin> set (RLC_Descriptors c)))"

lemma refreshConfigMap_total:
  assumes "sound_configmaps fw C"
  shows "\<exists>w'. refreshConfigMap fw C desc loc w = Inr w'"
proof -
  have "\<not> (\<exists>p. refreshConfigMap fw C desc loc w = Inl p)"
    unfolding refreshConfigMap_panic_iff
    using assms unfolding sound_configmaps_def by (metis option.case(2))
  then show ?thesis unfolding not_ex not_Inl_iff by blast
qed

lemma refresh_total:
  assumes "fair ch" "converts_messages fw" "copies_maps fw" "complete_spec (SL_Spec sl)"
    and "sound_configmaps fw C" "host_sets fw C w (object_loc sl) = Inr (map Some sbs)"
  shows "\<exists>w' e. refresh fw M C ch r sl w = Inr (w', e)"
proof -
  obtain cs err where gen: "GenerateEnvoyConfigs fw C (ch_left ch) w (SL_Spec sl)
      (getMaterial fw M r (object_loc sl)) (object_loc sl) = Inr (cs, err)"
    using GenerateEnvoyConfigs_total [OF fair_ch_left [OF assms(1)] assms(2-4,6)] by blast
  obtain w2 where cw: "config_write fw C r (configs_globalDescriptors cs) (object_loc sl)
      (refresh_envoyfilters fw C sl (go_range (ch_right ch) (setsEnvoyFilter cs)) w) = Inr w2"
    using refreshConfigMap_total [OF assms(5)]
    by (cases "global_enabled (r_env r)") (fastforce simp: config_write_def)+
  obtain w' e where "Update_Status C w2 (sl\<lparr>SL_Status :=
      \<lparr>RatelimitStatus = Some (setsSmartLimitDescriptor cs),
       MetricStatus = getMaterial fw M r (object_loc sl)\<rparr>\<rparr>) = (w', e)" by fastforce
  with gen cw show ?thesis by (cases err) (auto simp: refresh_unfold)
qed

subsection \<open>The EnvoyFilter of each set\<close>

lemma configs_of_sets:
  assumes "fair ch" "converts_messages fw" "copies_maps fw"
    and "host_sets fw C w loc = Inr (map Some sbs)" "Get_Service C w loc = Inr svc"
    and "GenerateEnvoyConfigs fw C ch w spec material loc = Inr (conf, None)"
  shows "fset (fmdom (setsEnvoyFilter conf)) = Subset_Name ` set sbs"
    and "fmlookup (setsEnvoyFilter conf) k = Some (Some ef) \<Longrightarrow>
           \<exists>sb \<in> set sbs. Subset_Name sb = k \<and> WorkloadSelector_Labels ef
             = Some (map_items (Service_Selector svc) ++\<^sub>f map_items (Subset_Labels sb))"
    and "fmlookup (setsEnvoyFilter conf) k = Some None \<Longrightarrow>
           set_valid fw spec (MapToMapInterface fw material) k = []"
    and "fmlookup (setsEnvoyFilter conf) k = Some (Some ef) \<Longrightarrow>
           set_valid fw spec (MapToMapInterface fw material) k \<noteq> []"
proof -
  let ?m = "MapToMapInterface fw material"
  have loop: "sets_loop fw ch spec ?m (Service_Selector svc) loc (map Some sbs) no_configs = Inr conf"
    using assms(4-6) by (auto simp: GenerateEnvoyConfigs_def)
  show "fset (fmdom (setsEnvoyFilter conf)) = Subset_Name ` set sbs"
    using sets_loop_dom [OF loop] by (simp add: no_configs_def fset_of_list.rep_eq)
  have entry: "\<exists>sb \<in> set sbs. Subset_Name sb = k \<and> (if set_valid fw spec ?m k = [] then e = None
         else \<exists>ch1 ch2 labels. fair ch1 \<and> fair ch2
            \<and> selector_of fw (Service_Selector svc) sb ch1 = Inr labels
            \<and> descriptorsToEnvoyFilter fw ch2 (set_valid fw spec ?m k) labels loc (Rls spec) = Inr e)"
    if "fmlookup (setsEnvoyFilter conf) k = Some e" for e
    using sets_loop_ef [OF loop assms(1), of k] that by (simp add: no_configs_def split del: if_split)
  show "\<exists>sb \<in> set sbs. Subset_Name sb = k \<and> WorkloadSelector_Labels ef
             = Some (map_items (Service_Selector svc) ++\<^sub>f map_items (Subset_Labels sb))"
    if ef: "fmlookup (setsEnvoyFilter conf) k = Some (Some ef)"
  proof -
    from entry [OF ef] obtain sb ch1 ch2 labels where sb: "sb \<in> set sbs" "Subset_Name sb = k"
      and c: "fair ch1" "selector_of fw (Service_Selector svc) sb ch1 = Inr labels"
        "descriptorsToEnvoyFilter fw ch2 (set_valid fw spec ?m k) labels loc (Rls spec) = Inr (Some ef)"
      by (auto split: if_splits)
    have "WorkloadSelector_Labels ef = labels"
      by (rule descriptorsToEnvoyFilter_Some [OF c(3)])
    with sb c(2) selector_of_eq [OF c(1) assms(3)] show ?thesis by auto
  qed
  show "set_valid fw spec ?m k = []" if none: "fmlookup (setsEnvoyFilter conf) k = Some None"
  proof (rule ccontr)
    assume ne: "set_valid fw spec ?m k \<noteq> []"
    from entry [OF none] ne obtain ch2 labels where "fair ch2"
      "descriptorsToEnvoyFilter fw ch2 (set_valid fw spec ?m k) labels loc (Rls spec) = Inr None"
      by auto
    with descriptorsToEnvoyFilter_not_nil assms(2) show False by blast
  qed
  show "set_valid fw spec ?m k \<noteq> []" if "fmlookup (setsEnvoyFilter conf) k = Some (Some ef)"
    using entry [OF that] by auto
qed

end
