(* ===== verification/Metrics.thy ===== *)
theory Metrics
  imports Process
begin

section \<open>Consuming metrics: \<open>controllers/process.go\<close>\<close>

text \<open>
  \<open>ConsumeMetric\<close> and \<open>Refresh\<close> merge new metrics into \<open>metricInfo\<close> and refresh the object
  they belong to; \<open>WatchMetric\<close> is the loop over the two channels, here over the list of what
  it receives.
\<close>

subsection \<open>Operations\<close>

definition update_metricInfo ::
    "chooser \<Rightarrow> 'm cmap \<Rightarrow> NamespacedName \<Rightarrow> string gomap \<Rightarrow> 'm \<Rightarrow> 'm go" where
  "update_metricInfo ch M nn args m =
     (case cmap_Get M m (request_key nn) of
        None \<Rightarrow> Inr (cmap_Set M m (request_key nn)
                  (EndpointsPtr \<lparr>Endpoints_Location = nn, Endpoints_Info = args\<rparr>))
      | Some (EndpointsPtr ep) \<Rightarrow>
          gbind (gfold (\<lambda>(key, value). map_set key value) (go_range ch (map_items args))
                   (Endpoints_Info ep)) (\<lambda>info.
            Inr (cmap_Set M m (request_key nn) (EndpointsPtr (ep\<lparr>Endpoints_Info := info\<rparr>))))
      | Some EmptyStruct \<Rightarrow> Inr m)"

definition Refresh ::
    "framework \<Rightarrow> 'm cmap \<Rightarrow> 'w client \<Rightarrow> chooser \<Rightarrow> NamespacedName \<Rightarrow> string gomap
       \<Rightarrow> 'm SmartLimiterReconciler \<times> 'w \<Rightarrow> ('m SmartLimiterReconciler \<times> 'w \<times> goerror option) go" where
  "Refresh fw M C ch nn args = (\<lambda>(r, w).
     gbind (update_metricInfo (ch_left ch) M nn args (metricInfo r)) (\<lambda>info.
       let r' = r\<lparr>metricInfo := info\<rparr>
       in case Get_SmartLimiter C w nn of
            Inl err \<Rightarrow> Inr (r', w, if IsNotFound err then None else Some err)
          | Inr sl \<Rightarrow>
              gbind (refresh fw M C (ch_right ch) r' sl w) (\<lambda>(w', err). Inr (r', w', err))))"

definition result_info ::
    "chooser \<Rightarrow> bool gomap \<Rightarrow> metric_Result \<Rightarrow> string gomap \<Rightarrow> string gomap go" where
  "result_info ch isGroup result info =
     (if map_get isGroup (Result_Name result) \<noteq> Some True
      then (if fcard (fmdom (map_items (Result_Value result))) \<noteq> 1 then Inr info
            else map_set (Result_Name result)
                   (fold (\<lambda>(k, value) metricValue. value)
                     (go_range ch (map_items (Result_Value result))) '''') info)
      else Inr (Result_Value result))"

definition pod_info :: "string \<times> 64 word \<Rightarrow> string gomap \<Rightarrow> string gomap go" where
  "pod_info = (\<lambda>(subset, number) info.
     if number = 0 then Inr info else map_set subset (fmt_int (sint number)) info)"

definition metric_info ::
    "chooser \<Rightarrow> StaticMeta \<Rightarrow> metric_Result list \<Rightarrow> string gomap go" where
  "metric_info ch meta results =
     gbind (gfold (result_info (ch_left ch) (IsGroup meta)) results (Some fmempty)) (\<lambda>info.
       gfold pod_info (go_range (ch_right ch) (map_items (NPod meta))) info)"

fun consume_items ::
    "framework \<Rightarrow> codec \<Rightarrow> 'm cmap \<Rightarrow> 'w client \<Rightarrow> chooser \<Rightarrow> (string \<times> metric_Result list) list
       \<Rightarrow> 'm SmartLimiterReconciler \<times> 'w \<Rightarrow> ('m SmartLimiterReconciler \<times> 'w) go" where
  "consume_items fw J M C ch [] s = Inr s"
| "consume_items fw J M C ch ((metaInfo, results) # rest) s =
     (case Unmarshal_StaticMeta J metaInfo of
        Inl err \<Rightarrow> consume_items fw J M C (ch_right ch) rest s
      | Inr meta \<Rightarrow>
          let loc = \<lparr>NN_Namespace = Meta_Namespace meta, NN_Name = Meta_Name meta\<rparr>
          in gbind (metric_info (ch_left (ch_left ch)) meta results) (\<lambda>info.
             gbind (Refresh fw M C (ch_right (ch_left ch)) loc info s) (\<lambda>(r, w, err).
               consume_items fw J M C (ch_right ch) rest (r, w))))"

definition ConsumeMetric ::
    "framework \<Rightarrow> codec \<Rightarrow> 'm cmap \<Rightarrow> 'w client \<Rightarrow> chooser \<Rightarrow> Metric
       \<Rightarrow> 'm SmartLimiterReconciler \<times> 'w \<Rightarrow> ('m SmartLimiterReconciler \<times> 'w) go" where
  "ConsumeMetric fw J M C ch metricMap s =
     consume_items fw J M C (ch_right ch) (go_range (ch_left ch) (map_items metricMap)) s"

text \<open>What \<open>select\<close> delivers: a metric of one of the channels, or that a channel is closed.\<close>

datatype channel = WatcherMetricChan | TickerMetricChan
datatype received = Received channel Metric | Closed channel

fun WatchMetric ::
    "framework \<Rightarrow> codec \<Rightarrow> 'm cmap \<Rightarrow> 'w client \<Rightarrow> chooser \<Rightarrow> received list
       \<Rightarrow> 'm SmartLimiterReconciler \<times> 'w \<Rightarrow> ('m SmartLimiterReconciler \<times> 'w) go" where
  "WatchMetric fw J M C ch [] s = Inr s"
| "WatchMetric fw J M C ch (Closed c # rest) s = Inr s"
| "WatchMetric fw J M C ch (Received c m # rest) s =
     gbind (ConsumeMetric fw J M C (ch_left ch) m s)
       (WatchMetric fw J M C (ch_right ch) rest)"

subsection \<open>Merging metrics\<close>

lemma gfold_map_set_items:
  "fair ch \<Longrightarrow> gfold (\<lambda>(k, v). map_set k v) (go_range ch (map_items args)) (Some m)
     = Inr (Some (m ++\<^sub>f map_items args))"
  by (simp add: gfold_map_set)

text \<open>
  \<open>info_at\<close> is what \<open>metricInfo\<close> holds for an object. A refresh with \<open>args\<close> stores them for
  a new object and overrides the old values with them for a known one; no value ever
  disappears, and the other objects are untouched.
\<close>

definition info_at :: "'m cmap \<Rightarrow> 'm \<Rightarrow> NamespacedName \<Rightarrow> string gomap option" where
  "info_at M m nn = (case cmap_Get M m (request_key nn) of
     Some (EndpointsPtr ep) \<Rightarrow> Some (Endpoints_Info ep) | _ \<Rightarrow> None)"

lemma update_metricInfo_new:
  assumes "concurrent_map M" "cmap_Get M m (request_key nn) = None"
  shows "\<exists>m'. update_metricInfo ch M nn args m = Inr m' \<and> info_at M m' nn = Some args
           \<and> (\<forall>k. k \<noteq> request_key nn \<longrightarrow> cmap_Get M m' k = cmap_Get M m k)"
  by (simp add: update_metricInfo_def assms(2) info_at_def concurrent_mapD [OF assms(1)])

lemma update_metricInfo_known:
  assumes "concurrent_map M" "fair ch" "info_at M m nn = Some (Some info)"
  shows "\<exists>m'. update_metricInfo ch M nn args m = Inr m'
           \<and> info_at M m' nn = Some (Some (info ++\<^sub>f map_items args))
           \<and> (\<forall>k. k \<noteq> request_key nn \<longrightarrow> cmap_Get M m' k = cmap_Get M m k)"
proof -
  obtain ep where "cmap_Get M m (request_key nn) = Some (EndpointsPtr ep)"
    "Endpoints_Info ep = Some info"
    using assms(3) by (auto simp: info_at_def split: option.splits interface.splits)
  then show ?thesis
    by (simp add: update_metricInfo_def info_at_def gfold_map_set_items [OF assms(2)]
        concurrent_mapD [OF assms(1)])
qed

text \<open>Writing into a nil \<open>Info\<close>, which a metric without a value can leave behind, panics.\<close>

lemma update_metricInfo_nil:
  assumes "fair ch" "info_at M m nn = Some None" "map_items args \<noteq> fmempty"
  shows "update_metricInfo ch M nn args m = Inl NilMapWrite"
proof -
  obtain ep where ep: "cmap_Get M m (request_key nn) = Some (EndpointsPtr ep)"
    "Endpoints_Info ep = None"
    using assms(2) by (auto simp: info_at_def split: option.splits interface.splits)
  have "go_range ch (map_items args) \<noteq> []"
  proof
    assume "go_range ch (map_items args) = []"
    then have "set (go_range ch (map_items args)) = {}" by simp
    then have "fmlookup (map_items args) k = None" for k
      using assms(1) by (cases "fmlookup (map_items args) k") auto
    then have "map_items args = fmempty" by (intro fmap_ext) simp
    with assms(3) show False by blast
  qed
  then obtain k v kvs where "go_range ch (map_items args) = (k, v) # kvs"
    by (cases "go_range ch (map_items args)") auto
  with ep show ?thesis by (simp add: update_metricInfo_def)
qed

subsection \<open>What a metric contributes\<close>

definition single_value :: "string gomap \<Rightarrow> string option" where
  "single_value m = (case sorted_list_of_fset (fmdom (map_items m)) of
     [k] \<Rightarrow> fmlookup (map_items m) k | _ \<Rightarrow> None)"

fun collected :: "metric_Result list \<Rightarrow> (string, string) fmap \<Rightarrow> (string, string) fmap" where
  "collected [] m = m"
| "collected (r # rs) m = collected rs (case single_value (Result_Value r) of
     None \<Rightarrow> m | Some v \<Rightarrow> fmupd (Result_Name r) v m)"

definition pod_counts :: "StaticMeta \<Rightarrow> (string, string) fmap" where
  "pod_counts meta = fmmap (\<lambda>n. fmt_int (sint n)) (fmfilter (\<lambda>k. map_get (NPod meta) k \<noteq> Some 0)
     (map_items (NPod meta)))"

lemma lookup_pod_counts:
  "fmlookup (pod_counts meta) k = (case map_get (NPod meta) k of
     None \<Rightarrow> None | Some n \<Rightarrow> if n = 0 then None else Some (fmt_int (sint n)))"
  by (simp add: pod_counts_def split: option.split)

lemma result_info_plain:
  assumes "fair ch" "map_get grp (Result_Name r) \<noteq> Some True"
  shows "result_info ch grp r (Some m) = Inr (Some (collected [r] m))"
proof (cases "sorted_list_of_fset (fmdom (map_items (Result_Value r)))")
  case Nil
  then have "fmdom (map_items (Result_Value r)) = {||}"
    by (metis fset_of_list_simps(1) sorted_list_of_fset_simps(2))
  then have "fcard (fmdom (map_items (Result_Value r))) = 0" by (simp add: fcard.rep_eq)
  with assms Nil show ?thesis by (simp add: result_info_def single_value_def fcard.rep_eq)
next
  case (Cons k ks)
  have len: "fcard (fmdom (map_items (Result_Value r))) = Suc (length ks)"
    using Cons by (metis length_Cons fcard.rep_eq length_sorted_list_of_set sorted_list_of_fset.rep_eq)
  show ?thesis
  proof (cases ks)
    case Nil
    have "fmdom (map_items (Result_Value r)) = {|k|}"
      using Cons Nil by (metis fset_of_list_simps sorted_list_of_fset_simps(2))
    then have "ch [] (fmdom (map_items (Result_Value r))) = [k]"
      using assms(1) by (simp add: fair_singleton)
    moreover obtain v where "fmlookup (map_items (Result_Value r)) k = Some v"
      using \<open>fmdom _ = _\<close> by (metis finsertI1 fmdomE)
    ultimately show ?thesis
      using assms len Cons Nil by (simp add: result_info_def single_value_def go_range_map)
  next
    case (Cons k' ks')
    with assms len \<open>sorted_list_of_fset _ = _\<close> show ?thesis
      by (simp add: result_info_def single_value_def)
  qed
qed

lemma gfold_result_info_plain:
  assumes "fair ch" "\<forall>r \<in> set rs. map_get grp (Result_Name r) \<noteq> Some True"
  shows "gfold (result_info ch grp) rs (Some m) = Inr (Some (collected rs m))"
  using assms(2)
proof (induction rs arbitrary: m)
  case (Cons r rs)
  then show ?case by (simp add: result_info_plain [OF assms(1)])
qed simp

lemma gfold_pod_info:
  "gfold pod_info kvs (Some m) =
     Inr (Some (put_all (map (\<lambda>(k, n). (k, fmt_int (sint n))) (filter (\<lambda>(k, n). n \<noteq> 0) kvs)) m))"
  by (induction kvs arbitrary: m) (auto simp: pod_info_def)

lemma map_of_pod_items:
  "distinct (map fst kvs) \<Longrightarrow>
     map_of (map (\<lambda>(k, n). (k, fmt_int (sint n))) (filter (\<lambda>(k, n). n \<noteq> 0) kvs)) k =
       (case map_of kvs k of None \<Rightarrow> None | Some n \<Rightarrow> if n = 0 then None else Some (fmt_int (sint n)))"
  by (induction kvs) (auto simp: map_of_eq_None_iff image_iff split: option.splits)

lemma pods_of_range:
  assumes "fair ch"
  shows "put_all (map (\<lambda>(k, n). (k, fmt_int (sint n)))
           (filter (\<lambda>(k, n). n \<noteq> 0) (go_range ch (map_items (NPod meta))))) m = m ++\<^sub>f pod_counts meta"
proof (rule fmap_ext)
  fix k
  let ?kvs = "go_range ch (map_items (NPod meta))"
  let ?f = "map (\<lambda>(k, n). (k, fmt_int (sint n))) (filter (\<lambda>(k, n). n \<noteq> 0) ?kvs)"
  have d: "distinct (map fst ?kvs)" using assms by simp
  then have d': "distinct (map fst ?f)"
    by (simp add: comp_def case_prod_beta distinct_map_filter)
  show "fmlookup (put_all ?f m) k = fmlookup (m ++\<^sub>f pod_counts meta) k"
    using assms map_of_pod_items [OF d, of k]
    by (auto simp: fmlookup_put_all [OF d'] pod_counts_def fmlookup_dom_iff split: option.splits)
qed

text \<open>
  With group metrics: the value of a group metric takes the place of all that was collected before
  it; later results are added to it.
\<close>

fun gathered :: "bool gomap \<Rightarrow> metric_Result list \<Rightarrow> (string, string) fmap \<Rightarrow> (string, string) fmap" where
  "gathered grp [] m = m"
| "gathered grp (r # rs) m = gathered grp rs
     (if map_get grp (Result_Name r) = Some True then map_items (Result_Value r) else collected [r] m)"

definition groups_present :: "bool gomap \<Rightarrow> metric_Result list \<Rightarrow> bool" where
  "groups_present grp rs \<longleftrightarrow>
     (\<forall>r \<in> set rs. map_get grp (Result_Name r) = Some True \<longrightarrow> Result_Value r \<noteq> None)"

lemma gfold_result_info:
  assumes "fair ch" "groups_present grp rs"
  shows "gfold (result_info ch grp) rs (Some m) = Inr (Some (gathered grp rs m))"
  using assms(2)
proof (induction rs arbitrary: m)
  case (Cons r rs)
  have "result_info ch grp r (Some m) = Inr (Some
      (if map_get grp (Result_Name r) = Some True then map_items (Result_Value r) else collected [r] m))"
  proof (cases "map_get grp (Result_Name r) = Some True")
    case True
    with Cons.prems show ?thesis by (auto simp: result_info_def groups_present_def)
  qed (simp add: result_info_plain [OF assms(1)] del: collected.simps)
  with Cons show ?case by (simp add: groups_present_def del: collected.simps)
qed simp

lemma metric_info_gathered:
  assumes "fair ch" "groups_present (IsGroup meta) rs"
  shows "metric_info ch meta rs = Inr (Some (gathered (IsGroup meta) rs fmempty ++\<^sub>f pod_counts meta))"
  using assms(2)
  by (simp add: metric_info_def gfold_result_info [OF fair_ch_left [OF assms(1)]]
      gfold_pod_info pods_of_range [OF fair_ch_right [OF assms(1)]])

lemma metric_info_plain:
  assumes "fair ch" "\<forall>r \<in> set rs. map_get (IsGroup meta) (Result_Name r) \<noteq> Some True"
  shows "metric_info ch meta rs = Inr (Some (collected rs fmempty ++\<^sub>f pod_counts meta))"
  using assms(2)
  by (simp add: metric_info_def gfold_result_info_plain [OF fair_ch_left [OF assms(1)]]
      gfold_pod_info pods_of_range [OF fair_ch_right [OF assms(1)]])

text \<open>
  A group metric replaces what was collected before it, and a group metric without a value
  leaves a nil map, into which the pod counts cannot be written.
\<close>

lemma metric_info_group:
  assumes "fair ch" "map_get (IsGroup meta) (Result_Name r) = Some True"
    and "\<forall>r \<in> set rs. map_get (IsGroup meta) (Result_Name r) \<noteq> Some True"
  shows "metric_info ch meta (rs @ [r]) =
           gfold pod_info (go_range (ch_right ch) (map_items (NPod meta))) (Result_Value r)"
  using assms(2,3)
  by (simp add: metric_info_def gfold_append result_info_def
      gfold_result_info_plain [OF fair_ch_left [OF assms(1)]])

lemma metric_info_group_last:
  assumes "fair ch" "map_get (IsGroup meta) (Result_Name r) = Some True"
    and "\<forall>r \<in> set rs. map_get (IsGroup meta) (Result_Name r) \<noteq> Some True"
    and "Result_Value r = Some vs"
  shows "metric_info ch meta (rs @ [r]) = Inr (Some (vs ++\<^sub>f pod_counts meta))"
  by (simp add: metric_info_group [OF assms(1-3)] assms(4) gfold_pod_info
      pods_of_range [OF fair_ch_right [OF assms(1)]])

subsection \<open>One metric, all metrics\<close>

text \<open>The loop over the two channels consumes the metrics in the order in which they arrive.\<close>

lemma WatchMetric_received:
  "WatchMetric fw J M C ch (map (\<lambda>(c, m). Received c m) cms @ rest) s =
     gbind (gfold (\<lambda>(i, c, m). ConsumeMetric fw J M C (nth_chooser ch i) m) (List.enumerate 0 cms) s)
       (WatchMetric fw J M C ((ch_right ^^ length cms) ch) rest)"
proof (induction cms arbitrary: ch s)
  case (Cons cm cms)
  obtain c m where cm: "cm = (c, m)" by (cases cm)
  have shift: "gfold (\<lambda>(i, c, m). ConsumeMetric fw J M C (nth_chooser ch i) m) (List.enumerate (Suc n) xs) t
      = gfold (\<lambda>(i, c, m). ConsumeMetric fw J M C (nth_chooser (ch_right ch) i) m) (List.enumerate n xs) t"
    for n xs t
  proof (induction xs arbitrary: n t)
    case (Cons x xs)
    then show ?case
      by (cases "ConsumeMetric fw J M C (nth_chooser (ch_right ch) n) (snd x) t")
        (auto simp: nth_chooser_Suc case_prod_beta)
  qed simp
  show ?case
    by (cases "ConsumeMetric fw J M C (ch_left ch) m s")
      (auto simp: cm Cons.IH shift nth_chooser_0 funpow_swap1)
qed simp

text \<open>One metric of one object.\<close>

lemma Refresh_metric:
  assumes "concurrent_map M" "fair ch" "Get_SmartLimiter C w nn = Inr sl"
    and "cmap_Get M (metricInfo r) (request_key nn) = None \<and> old = fmempty
       \<or> info_at M (metricInfo r) nn = Some (Some old)"
    and "Refresh fw M C ch nn (Some args) (r, w) = Inr (r', w', e)"
  shows "info_at M (metricInfo r') nn = Some (Some (old ++\<^sub>f args))"
    and "refresh fw M C (ch_right ch) r' sl w = Inr (w', e)"
proof -
  obtain m where m: "update_metricInfo (ch_left ch) M nn (Some args) (metricInfo r) = Inr m"
    "info_at M m nn = Some (Some (old ++\<^sub>f args))"
    using assms(4) update_metricInfo_new [OF assms(1), of "metricInfo r" nn "ch_left ch" "Some args"]
      update_metricInfo_known [OF assms(1) fair_ch_left [OF assms(2)], of "metricInfo r" nn old "Some args"]
    by auto
  with assms(3,5) show "info_at M (metricInfo r') nn = Some (Some (old ++\<^sub>f args))"
    "refresh fw M C (ch_right ch) r' sl w = Inr (w', e)"
    by (auto simp: Refresh_def Let_def gbind_Inr_iff split: prod.splits)
qed

lemma ConsumeMetric_one:
  assumes "concurrent_map M" "fair ch" "copies_maps fw"
    and "Unmarshal_StaticMeta J t = Inr meta"
    and "groups_present (IsGroup meta) rs"
    and "Get_SmartLimiter C w (object_loc sl) = Inr sl"
    and "object_loc sl = \<lparr>NN_Namespace = Meta_Namespace meta, NN_Name = Meta_Name meta\<rparr>"
    and "cmap_Get M (metricInfo r) (request_key (object_loc sl)) = None \<and> old = fmempty
       \<or> info_at M (metricInfo r) (object_loc sl) = Some (Some old)"
    and "ConsumeMetric fw J M C ch (Some (fmupd t rs fmempty)) (r, w) = Inr (r', w')"
  shows "\<exists>ch' e. fair ch' \<and> refresh fw M C ch' r' sl w = Inr (w', e)
           \<and> getMaterial fw M r' (object_loc sl)
               = Some (old ++\<^sub>f (gathered (IsGroup meta) rs fmempty ++\<^sub>f pod_counts meta))"
proof -
  let ?ch = "ch_right (ch_left (ch_right ch))" and ?args = "gathered (IsGroup meta) rs fmempty ++\<^sub>f pod_counts meta"
  have f: "fair ?ch" using assms(2) by simp
  obtain e where run: "Refresh fw M C ?ch (object_loc sl) (Some ?args) (r, w) = Inr (r', w', e)"
    using assms(9) metric_info_gathered [OF _ assms(5)] assms(2)
    by (auto simp: ConsumeMetric_def go_range_single assms(4,7) Let_def gbind_Inr_iff)
  note res = Refresh_metric [OF assms(1) f assms(6,8) run]
  have "getMaterial fw M r' (object_loc sl) = Some (old ++\<^sub>f ?args)"
    using res(1) assms(3) by (auto simp: getMaterial_def info_at_def copies_maps_def
        split: option.splits interface.splits)
  with res(2) f show ?thesis by (blast intro: fair_ch_right)
qed

text \<open>
  A metric may have items for many objects. What it stores for one of them does not depend on the
  others, when a single item is for this object.
\<close>

definition meta_loc :: "StaticMeta \<Rightarrow> NamespacedName" where
  "meta_loc meta = \<lparr>NN_Namespace = Meta_Namespace meta, NN_Name = Meta_Name meta\<rparr>"

definition only_item :: "codec \<Rightarrow> string \<Rightarrow> NamespacedName \<Rightarrow> Metric \<Rightarrow> bool" where
  "only_item J t nn metric \<longleftrightarrow> (\<forall>t' meta. t' \<noteq> t \<longrightarrow> map_get metric t' \<noteq> None \<longrightarrow>
     Unmarshal_StaticMeta J t' = Inr meta \<longrightarrow> request_key (meta_loc meta) \<noteq> request_key nn)"

lemma update_metricInfo_other:
  assumes "concurrent_map M" "update_metricInfo ch M nn args m = Inr m'" "k \<noteq> request_key nn"
  shows "cmap_Get M m' k = cmap_Get M m k"
  using assms(2,3)
  by (auto simp: update_metricInfo_def concurrent_mapD [OF assms(1)] gbind_Inr_iff
      split: option.splits interface.splits)

lemma Refresh_other:
  assumes "concurrent_map M" "Refresh fw M C ch nn args (r, w) = Inr (r', w', e)" "k \<noteq> request_key nn"
  shows "cmap_Get M (metricInfo r') k = cmap_Get M (metricInfo r) k"
proof -
  obtain m where "update_metricInfo (ch_left ch) M nn args (metricInfo r) = Inr m" "metricInfo r' = m"
    using assms(2) by (cases "Get_SmartLimiter C w nn") (auto simp: Refresh_def Let_def gbind_Inr_iff)
  with update_metricInfo_other [OF assms(1) _ assms(3)] show ?thesis by blast
qed

lemma consume_items_other:
  assumes "concurrent_map M" "consume_items fw J M C ch items (r, w) = Inr (r', w')"
    and "\<forall>(t, rs) \<in> set items. \<forall>meta. Unmarshal_StaticMeta J t = Inr meta \<longrightarrow> request_key (meta_loc meta) \<noteq> k"
  shows "cmap_Get M (metricInfo r') k = cmap_Get M (metricInfo r) k"
  using assms(2,3)
proof (induction items arbitrary: ch r w)
  case (Cons item items)
  obtain t rs where item: "item = (t, rs)" by (cases item)
  show ?case
  proof (cases "Unmarshal_StaticMeta J t")
    case (Inl err)
    with Cons item show ?thesis by simp
  next
    case (Inr meta)
    with Cons.prems item obtain info r1 w1 e where
      "Refresh fw M C (ch_right (ch_left ch)) (meta_loc meta) info (r, w) = Inr (r1, w1, e)"
      "consume_items fw J M C (ch_right ch) items (r1, w1) = Inr (r', w')"
      by (auto simp: Let_def gbind_Inr_iff meta_loc_def)
    moreover have "k \<noteq> request_key (meta_loc meta)" using Cons.prems(2) item Inr by auto
    ultimately show ?thesis using Refresh_other [OF assms(1)] Cons by simp
  qed
qed simp

text \<open>What is stored for an object that has no entry yet, or one with a map.\<close>

definition stored_info :: "'m cmap \<Rightarrow> 'm \<Rightarrow> NamespacedName \<Rightarrow> (string, string) fmap \<Rightarrow> bool" where
  "stored_info M m nn old \<longleftrightarrow>
     cmap_Get M m (request_key nn) = None \<and> old = fmempty \<or> info_at M m nn = Some (Some old)"

lemma update_metricInfo_stored:
  assumes "concurrent_map M" "fair ch" "stored_info M m nn old"
    and "update_metricInfo ch M nn (Some args) m = Inr m'"
  shows "info_at M m' nn = Some (Some (old ++\<^sub>f args))"
  using assms(3) update_metricInfo_new [OF assms(1), of m nn ch "Some args"]
    update_metricInfo_known [OF assms(1,2), of m nn old "Some args"] assms(4)
  unfolding stored_info_def by auto

lemma consume_items_stores:
  assumes "concurrent_map M" "Unmarshal_StaticMeta J t = Inr meta" "groups_present (IsGroup meta) rs"
    and "fair ch" "consume_items fw J M C ch items (r, w) = Inr (r', w')"
    and "distinct (map fst items)" "(t, rs) \<in> set items"
    and "\<forall>(t', rs) \<in> set items. \<forall>meta'. t' \<noteq> t \<longrightarrow> Unmarshal_StaticMeta J t' = Inr meta' \<longrightarrow>
           request_key (meta_loc meta') \<noteq> request_key (meta_loc meta)"
    and "stored_info M (metricInfo r) (meta_loc meta) old"
  shows "info_at M (metricInfo r') (meta_loc meta)
    = Some (Some (old ++\<^sub>f (gathered (IsGroup meta) rs fmempty ++\<^sub>f pod_counts meta)))"
  using assms(4-)
proof (induction items arbitrary: ch r w)
  case (Cons item items)
  obtain t1 rs1 where item: "item = (t1, rs1)" by (cases item)
  show ?case
  proof (cases "t1 = t")
    case True
    with Cons.prems(3,4) item have rs1: "rs1 = rs" by (force simp: image_iff)
    have others: "\<forall>(t', rs) \<in> set items. \<forall>meta'. Unmarshal_StaticMeta J t' = Inr meta' \<longrightarrow>
        request_key (meta_loc meta') \<noteq> request_key (meta_loc meta)"
      using Cons.prems(3,5) item True by (force simp: image_iff)
    let ?args = "gathered (IsGroup meta) rs fmempty ++\<^sub>f pod_counts meta"
    obtain r1 w1 e where
      run: "Refresh fw M C (ch_right (ch_left ch)) (meta_loc meta) (Some ?args) (r, w) = Inr (r1, w1, e)"
        "consume_items fw J M C (ch_right ch) items (r1, w1) = Inr (r', w')"
      using Cons.prems(1,2) item True rs1 metric_info_gathered [OF _ assms(3), of "ch_left (ch_left ch)"] assms(2)
      by (auto simp: Let_def gbind_Inr_iff meta_loc_def)
    obtain m where "update_metricInfo (ch_left (ch_right (ch_left ch))) M (meta_loc meta) (Some ?args) (metricInfo r)
        = Inr m" "metricInfo r1 = m"
      using run(1) by (cases "Get_SmartLimiter C w (meta_loc meta)") (auto simp: Refresh_def Let_def gbind_Inr_iff)
    moreover have "fair (ch_left (ch_right (ch_left ch)))" using Cons.prems(1) by simp
    ultimately have "info_at M (metricInfo r1) (meta_loc meta) = Some (Some (old ++\<^sub>f ?args))"
      using update_metricInfo_stored [OF assms(1) _ Cons.prems(6)] by blast
    moreover have "cmap_Get M (metricInfo r') (request_key (meta_loc meta))
        = cmap_Get M (metricInfo r1) (request_key (meta_loc meta))"
      by (rule consume_items_other [OF assms(1) run(2) others])
    ultimately show ?thesis by (simp add: info_at_def)
  next
    case False
    with Cons.prems(4) item have "(t, rs) \<in> set items" by simp
    note IH = Cons.IH [OF _ _ _ this _, of "ch_right ch"]
    show ?thesis
    proof (cases "Unmarshal_StaticMeta J t1")
      case (Inl err)
      with Cons.prems item IH [of r w] show ?thesis by simp
    next
      case (Inr meta1)
      with Cons.prems(2) item obtain info r1 w1 e where
        run: "Refresh fw M C (ch_right (ch_left ch)) (meta_loc meta1) info (r, w) = Inr (r1, w1, e)"
          "consume_items fw J M C (ch_right ch) items (r1, w1) = Inr (r', w')"
        by (auto simp: Let_def gbind_Inr_iff meta_loc_def)
      have "request_key (meta_loc meta) \<noteq> request_key (meta_loc meta1)"
        using Cons.prems(5) item Inr False by auto
      from Refresh_other [OF assms(1) run(1) this]
      have "stored_info M (metricInfo r1) (meta_loc meta) old"
        using Cons.prems(6) by (simp add: stored_info_def info_at_def)
      with Cons.prems item run(2) IH [of r1 w1] show ?thesis by simp
    qed
  qed
qed simp

lemma ConsumeMetric_stores:
  assumes "concurrent_map M" "fair ch" "Unmarshal_StaticMeta J t = Inr meta"
    and "groups_present (IsGroup meta) rs" "map_get metric t = Some rs" "only_item J t (meta_loc meta) metric"
    and "stored_info M (metricInfo r) (meta_loc meta) old"
    and "ConsumeMetric fw J M C ch metric (r, w) = Inr (r', w')"
  shows "info_at M (metricInfo r') (meta_loc meta)
    = Some (Some (old ++\<^sub>f (gathered (IsGroup meta) rs fmempty ++\<^sub>f pod_counts meta)))"
proof -
  have f: "fair (ch_left ch)" using assms(2) by simp
  show ?thesis
  proof (rule consume_items_stores [OF assms(1,3,4) fair_ch_right [OF assms(2)]
        assms(8) [unfolded ConsumeMetric_def] distinct_fst_go_range [OF f] _ _ assms(7)])
    show "(t, rs) \<in> set (go_range (ch_left ch) (map_items metric))"
      using assms(5) by (simp add: set_go_range [OF f])
    show "\<forall>(t', rs) \<in> set (go_range (ch_left ch) (map_items metric)). \<forall>meta'. t' \<noteq> t \<longrightarrow>
        Unmarshal_StaticMeta J t' = Inr meta' \<longrightarrow> request_key (meta_loc meta') \<noteq> request_key (meta_loc meta)"
      using assms(6) by (auto simp: set_go_range [OF f] only_item_def)
  qed
qed

text \<open>
  The loop consumes what arrives on either channel in order, and ends with the first channel
  that is closed.
\<close>

lemma watching_is_consuming_in_order:
  "WatchMetric fw J M C ch (map (\<lambda>(c, m). Received c m) cms @ Closed c # rest) s =
     gfold (\<lambda>(i, c, m). ConsumeMetric fw J M C (nth_chooser ch i) m) (List.enumerate 0 cms) s"
proof -
  have "gbind g Inr = g" for g :: "'x go" by (cases g) auto
  moreover have "WatchMetric fw J M C ch' (Closed c # rest) = Inr" for ch' by (rule ext) simp
  ultimately show ?thesis by (simp add: WatchMetric_received)
qed

text \<open>
  Merging overrides values and never removes one: the count of a subset that has lost all its
  pods stays.
\<close>

lemma metrics_accumulate:
  assumes "concurrent_map M" "fair ch" "info_at M m nn = Some (Some info)"
  shows "\<exists>m' info'. update_metricInfo ch M nn args m = Inr m' \<and> info_at M m' nn = Some (Some info')
           \<and> (\<forall>k. fmlookup info' k = (case map_get args k of None \<Rightarrow> fmlookup info k | Some v \<Rightarrow> Some v))
           \<and> (\<forall>k. k \<noteq> request_key nn \<longrightarrow> cmap_Get M m' k = cmap_Get M m k)"
proof -
  have "fmlookup (info ++\<^sub>f map_items args) k
      = (case map_get args k of None \<Rightarrow> fmlookup info k | Some v \<Rightarrow> Some v)" for k
    by (auto simp: fmlookup_dom_iff split: option.split)
  with update_metricInfo_known [OF assms, of args] show ?thesis by blast
qed

end
