(* ===== verification/Producer.thy ===== *)
theory Producer
  imports State
begin

section \<open>Which metrics to ask for: \<open>controllers/producer.go\<close>\<close>

text \<open>
  The framework's metric producer calls \<open>handleWatcherEvent\<close> when an endpoint changes and
  \<open>handleTickerEvent\<close> periodically. For each object of interest they count the pods of
  the service by subset (\<open>queryServicePods\<close>, \<open>querySubsetPods\<close>) and, when the adaptive mode
  is on, build the Prometheus queries of the configured handlers. The result is a map from
  the JSON of a \<open>StaticMeta\<close> to the queries.
\<close>

subsection \<open>Pods and subsets\<close>

definition queryServicePods ::
    "framework \<Rightarrow> 'w client \<Rightarrow> 'w \<Rightarrow> NamespacedName \<Rightarrow> Pod list \<times> goerror option" where
  "queryServicePods fw C w loc =
     (case K8S_Get_Service C w loc of
        Inl err \<Rightarrow> ([], Some (OtherError ''get service faild''))
      | Inr service \<Rightarrow>
          (case List_Pods C w (NN_Namespace loc) (SelectorString fw (Service_Selector service)) of
             Inl err \<Rightarrow> ([], Some (OtherError ''query pod list faild''))
           | Inr podList \<Rightarrow> (filter (\<lambda>item. Pod_DeletionTimestamp item = None) podList, None)))"

definition append2Subsets ::
    "string \<Rightarrow> (string, string slice) fmap \<Rightarrow> Pod \<Rightarrow> (string, string slice) fmap" where
  "append2Subsets subsetName subsetsPods pod =
     (case fmlookup subsetsPods subsetName of
        Some (Some ps) \<Rightarrow> fmupd subsetName (Some (ps @ [Pod_Name pod])) subsetsPods
      | _ \<Rightarrow> fmupd subsetName (Some [Pod_Name pod]) subsetsPods)"

definition append2Base ::
    "framework \<Rightarrow> (string, string slice) fmap \<Rightarrow> Pod \<Rightarrow> (string, string slice) fmap" where
  "append2Base fw subsetsPods pod =
     (case fmlookup subsetsPods (Wellkonw_BaseSet fw) of
        Some (Some ps) \<Rightarrow> fmupd (Wellkonw_BaseSet fw) (Some (ps @ [Pod_Name pod])) subsetsPods
      | _ \<Rightarrow> fmupd (Wellkonw_BaseSet fw) (Some [Pod_Name pod]) subsetsPods)"

definition assign_pod ::
    "framework \<Rightarrow> Subset option list \<Rightarrow> Pod \<Rightarrow> (string, string slice) fmap
       \<Rightarrow> (string, string slice) fmap go" where
  "assign_pod fw subsets pod =
     gfold (\<lambda>p subsetsPods. gbind (deref p) (\<lambda>sb.
       Inr (if IsContain fw (Pod_Labels pod) (Subset_Labels sb)
            then append2Subsets (Subset_Name sb) subsetsPods pod else subsetsPods))) subsets"

definition querySubsetPods ::
    "framework \<Rightarrow> 'w client \<Rightarrow> 'w \<Rightarrow> Pod list \<Rightarrow> NamespacedName
       \<Rightarrow> ((string, string slice) fmap \<times> goerror option) go" where
  "querySubsetPods fw C w pods loc =
     (let host = UnityHost fw (NN_Name loc) (NN_Namespace loc)
      in gbind (if HostSubsetMapping_Get C w 0 host \<noteq> NoEntry
                then (case HostSubsetMapping_Get C w 1 host of
                        SubsetSlice subsets \<Rightarrow> gfold (assign_pod fw subsets) pods fmempty
                      | _ \<Rightarrow> Inr fmempty)
                else Inr fmempty) (\<lambda>assigned.
           Inr (fold (\<lambda>pod m. append2Base fw m pod) pods assigned, None)))"

subsection \<open>The static information\<close>

definition generateMeta ::
    "chooser \<Rightarrow> (string, string slice) fmap \<Rightarrow> NamespacedName \<Rightarrow> StaticMeta" where
  "generateMeta ch subsetsPods loc =
     (let nPod = fold (\<lambda>(k, v) m. if 0 < length (elems v)
                                  then fmupd (k @ ''.pod'') (of_nat (length (elems v))) m else m)
                   (go_range ch subsetsPods) fmempty
      in \<lparr>Meta_Name = NN_Name loc, Meta_Namespace = NN_Namespace loc, NPod = Some nPod,
          IsGroup = Some fmempty\<rparr>)"

subsection \<open>Queries\<close>

definition replaceQueryString ::
    "chooser \<Rightarrow> string \<Rightarrow> string \<Rightarrow> prometheus_source_type \<Rightarrow> NamespacedName
       \<Rightarrow> (string, string slice) fmap \<Rightarrow> metric_Handler list \<times> (string, bool) fmap" where
  "replaceQueryString ch metricName query0 typ loc subsetsPods =
     (let query = strings_ReplaceAll query0 ''$namespace'' (NN_Namespace loc)
      in case typ of
           Prometheus_Source_Value \<Rightarrow>
             if strings_Contains query ''$pod_name''
             then fold (\<lambda>(subsetName, subsetPods) (handlers, isGroup).
                    let h = \<lparr>Metric_Name = subsetName @ ''.'' @ metricName,
                             Metric_Query = strings_ReplaceAll query ''$pod_name''
                               (strings_Join (elems subsetPods) ''|'')\<rparr>
                    in (handlers @ [h], fmupd (Metric_Name h) False isGroup))
                  (go_range ch subsetsPods) ([], fmempty)
             else ([\<lparr>Metric_Name = metricName, Metric_Query = query\<rparr>],
                   fmupd metricName False fmempty)
         | Prometheus_Source_Group \<Rightarrow>
             ([\<lparr>Metric_Name = metricName, Metric_Query = query\<rparr>], fmupd metricName True fmempty)
         | Prometheus_Source_Other \<Rightarrow> ([], fmempty))"

fun query_handlers ::
    "chooser \<Rightarrow> NamespacedName \<Rightarrow> (string, string slice) fmap
       \<Rightarrow> (string \<times> PrometheusHandler option) list \<Rightarrow> metric_Handler list \<times> bool gomap
       \<Rightarrow> (metric_Handler list \<times> bool gomap) go" where
  "query_handlers ch loc subsetsPods [] s = Inr s"
| "query_handlers ch loc subsetsPods ((customMetricName, handler) # rest) (queryHandlers, metaGroup) =
     gbind (deref handler) (\<lambda>h.
       if Handler_Query h = '''' then query_handlers (ch_right ch) loc subsetsPods rest (queryHandlers, metaGroup)
       else case replaceQueryString (ch_left (ch_left ch)) customMetricName (Handler_Query h)
                   (Handler_Type h) loc subsetsPods of
              (handlers, isGroup) \<Rightarrow>
                gbind (gfold (\<lambda>(name, group). map_set name group)
                         (go_range (ch_right (ch_left ch)) isGroup) metaGroup) (\<lambda>metaGroup'.
                  query_handlers (ch_right ch) loc subsetsPods rest (handlers, metaGroup')))"

definition generateQueryString ::
    "codec \<Rightarrow> chooser \<Rightarrow> (string, string slice) fmap \<Rightarrow> NamespacedName
       \<Rightarrow> PrometheusHandler option gomap \<Rightarrow> QueryMap go" where
  "generateQueryString J ch subsetsPods loc handlers =
     (let meta = generateMeta (ch_left (ch_left ch)) subsetsPods loc
      in gbind (query_handlers (ch_right ch) loc subsetsPods
                  (go_range (ch_right (ch_left ch)) (map_items handlers)) ([], IsGroup meta))
           (\<lambda>(queryHandlers, metaGroup).
              let metaInfo = StaticMeta_String J (meta\<lparr>IsGroup := metaGroup\<rparr>)
              in if metaInfo = '''' then Inr (Some fmempty)
                 else Inr (Some (fmupd metaInfo queryHandlers fmempty))))"

subsection \<open>Events\<close>

definition handlePrometheusEvent ::
    "framework \<Rightarrow> codec \<Rightarrow> 'w client \<Rightarrow> chooser \<Rightarrow> 'w \<Rightarrow> Environment \<Rightarrow> NamespacedName \<Rightarrow> QueryMap go" where
  "handlePrometheusEvent fw J C ch w env loc =
     (case Option.bind (Env_Config env) (\<lambda>c. Option.bind (Config_Metric c) (\<lambda>m.
             Option.bind (Metric_Prometheus m) Prometheus_Handlers)) of
        None \<Rightarrow> Inr None
      | Some handlers \<Rightarrow>
          (case queryServicePods fw C w loc of
             (_, Some err) \<Rightarrow> Inr None
           | (pods, None) \<Rightarrow>
               gbind (querySubsetPods fw C w pods loc) (\<lambda>result.
                 case result of
                   (_, Some err) \<Rightarrow> Inr None
                 | (subsetsPods, None) \<Rightarrow> generateQueryString J ch subsetsPods loc (Some handlers))))"

definition handleLocalEvent ::
    "framework \<Rightarrow> codec \<Rightarrow> 'w client \<Rightarrow> chooser \<Rightarrow> 'w \<Rightarrow> NamespacedName \<Rightarrow> QueryMap go" where
  "handleLocalEvent fw J C ch w loc =
     (case queryServicePods fw C w loc of
        (_, Some err) \<Rightarrow> Inr None
      | (pods, None) \<Rightarrow>
          gbind (querySubsetPods fw C w pods loc) (\<lambda>result.
            case result of
              (_, Some err) \<Rightarrow> Inr None
            | (subsetsPods, None) \<Rightarrow>
                let metaInfo = StaticMeta_String J (generateMeta ch subsetsPods loc)
                in Inr (if metaInfo = '''' then None else Some (fmupd metaInfo [] fmempty))))"

definition handleEvent ::
    "framework \<Rightarrow> codec \<Rightarrow> 'm cmap \<Rightarrow> 'w client \<Rightarrow> chooser \<Rightarrow> 'm SmartLimiterReconciler \<Rightarrow> 'w
       \<Rightarrow> NamespacedName \<Rightarrow> QueryMap go" where
  "handleEvent fw J M C ch r w loc =
     (case cmap_Get M (interest r) (request_key loc) of
        None \<Rightarrow> Inr None
      | Some _ \<Rightarrow>
          if adaptive_enabled (r_env r) then handlePrometheusEvent fw J C ch w (r_env r) loc
          else handleLocalEvent fw J C ch w loc)"

definition handleWatcherEvent ::
    "framework \<Rightarrow> codec \<Rightarrow> 'm cmap \<Rightarrow> 'w client \<Rightarrow> chooser \<Rightarrow> 'm SmartLimiterReconciler \<Rightarrow> 'w
       \<Rightarrow> NamespacedName \<Rightarrow> QueryMap go" where
  "handleWatcherEvent fw J M C ch r w eventNN = handleEvent fw J M C ch r w eventNN"

fun ticker_loop ::
    "framework \<Rightarrow> codec \<Rightarrow> 'm cmap \<Rightarrow> 'w client \<Rightarrow> chooser \<Rightarrow> 'm SmartLimiterReconciler \<Rightarrow> 'w
       \<Rightarrow> (string \<times> interface) list \<Rightarrow> (string, metric_Handler list) fmap \<Rightarrow> QueryMap go" where
  "ticker_loop fw J M C ch r w [] queryMap = Inr (Some queryMap)"
| "ticker_loop fw J M C ch r w ((k, _) # rest) queryMap =
     (case strings_Split (CHR ''/'') k of
        namespace # name # _ \<Rightarrow>
          gbind (handleEvent fw J M C (ch_left (ch_left ch)) r w
                   \<lparr>NN_Namespace = namespace, NN_Name = name\<rparr>) (\<lambda>qm.
            ticker_loop fw J M C (ch_right ch) r w rest
              (fold (\<lambda>(meta, handlers) m. fmupd meta handlers m)
                (go_range (ch_right (ch_left ch)) (map_items qm)) queryMap))
      | _ \<Rightarrow> Inl IndexOutOfRange)"

definition handleTickerEvent ::
    "framework \<Rightarrow> codec \<Rightarrow> 'm cmap \<Rightarrow> 'w client \<Rightarrow> chooser \<Rightarrow> 'm SmartLimiterReconciler \<Rightarrow> 'w
       \<Rightarrow> QueryMap go" where
  "handleTickerEvent fw J M C ch r w =
     ticker_loop fw J M C (ch_right ch) r w (go_range (ch_left ch) (cmap_Items M (interest r))) fmempty"

definition newPrometheusSourceConfig ::
    "(string \<Rightarrow> goerror + 'api) \<Rightarrow> Environment \<Rightarrow> goerror + 'api" where
  "newPrometheusSourceConfig newClient env =
     (case Option.bind (Env_Config env) (\<lambda>c. Option.bind (Config_Metric c) Metric_Prometheus) of
        None \<Rightarrow> Inl (OtherError ''failure create prometheus client, empty prometheus config'')
      | Some p \<Rightarrow> newClient (Prometheus_Address p))"

subsection \<open>The pods of a subset\<close>

text \<open>
  The map of pod names by subset is a grouping map; \<open>append2Base\<close> is the same update under
  the name of the base set.
\<close>

definition pods_under :: "(string, string slice) fmap \<Rightarrow> string \<Rightarrow> string list" where
  "pods_under m k = elems (Option.bind (fmlookup m k) id)"

definition add_pod_name :: "string \<Rightarrow> string \<Rightarrow> (string, string slice) fmap \<Rightarrow> (string, string slice) fmap" where
  "add_pod_name k name m =
     append2Subsets k m \<lparr>Pod_Name = name, Pod_Labels = None, Pod_DeletionTimestamp = None\<rparr>"

interpretation subset_pods: multimap fmempty add_pod_name pods_under
  by unfold_locales
    (auto simp: add_pod_name_def pods_under_def append2Subsets_def split: option.splits)

lemma append2Subsets_name: "append2Subsets k m pod = add_pod_name k (Pod_Name pod) m"
  by (simp add: add_pod_name_def append2Subsets_def split: option.split)

lemma append2Base_name: "append2Base fw m pod = add_pod_name (Wellkonw_BaseSet fw) (Pod_Name pod) m"
  by (simp add: add_pod_name_def append2Subsets_def append2Base_def split: option.split)

definition in_subset :: "framework \<Rightarrow> Pod \<Rightarrow> Subset \<Rightarrow> bool" where
  "in_subset fw pod sb = IsContain fw (Pod_Labels pod) (Subset_Labels sb)"

definition pod_assignments :: "framework \<Rightarrow> Subset list \<Rightarrow> Pod list \<Rightarrow> (string \<times> string) list" where
  "pod_assignments fw subsets pods =
     concat (map (\<lambda>pod. map (\<lambda>sb. (Subset_Name sb, Pod_Name pod)) (filter (in_subset fw pod) subsets)) pods)
     @ map (\<lambda>pod. (Wellkonw_BaseSet fw, Pod_Name pod)) pods"

lemma assign_pod_names:
  "assign_pod fw (map Some subsets) pod m =
     Inr (fold (\<lambda>(k, v). add_pod_name k v)
       (map (\<lambda>sb. (Subset_Name sb, Pod_Name pod)) (filter (in_subset fw pod) subsets)) m)"
  unfolding assign_pod_def
  by (induction subsets arbitrary: m) (auto simp: in_subset_def append2Subsets_name)

lemma assign_pods:
  "gfold (assign_pod fw (map Some subsets)) pods m =
     Inr (fold (\<lambda>(k, v). add_pod_name k v)
       (concat (map (\<lambda>pod. map (\<lambda>sb. (Subset_Name sb, Pod_Name pod))
          (filter (in_subset fw pod) subsets)) pods)) m)"
  by (induction pods arbitrary: m) (auto simp: assign_pod_names)

lemma base_pods:
  "fold (\<lambda>pod m. append2Base fw m pod) pods m =
     fold (\<lambda>(k, v). add_pod_name k v) (map (\<lambda>pod. (Wellkonw_BaseSet fw, Pod_Name pod)) pods) m"
  by (induction pods arbitrary: m) (auto simp: append2Base_name)

text \<open>The subsets an event knows of, nil ones included, and the map it builds when there are none.\<close>

fun entry_subsets :: "subset_entry \<Rightarrow> Subset option list" where
  "entry_subsets (SubsetSlice subsets) = subsets"
| "entry_subsets _ = []"

definition known_subsets :: "framework \<Rightarrow> 'w client \<Rightarrow> 'w \<Rightarrow> NamespacedName \<Rightarrow> Subset option list" where
  "known_subsets fw C w loc =
     (let host = UnityHost fw (NN_Name loc) (NN_Namespace loc)
      in if HostSubsetMapping_Get C w 0 host = NoEntry then []
         else entry_subsets (HostSubsetMapping_Get C w 1 host))"

definition subset_map :: "framework \<Rightarrow> Subset list \<Rightarrow> Pod list \<Rightarrow> (string, string slice) fmap" where
  "subset_map fw subsets pods =
     fold (\<lambda>(k, v). add_pod_name k v) (pod_assignments fw subsets pods) fmempty"

lemma querySubsetPods_eq:
  assumes "known_subsets fw C w loc = map Some subsets"
  shows "querySubsetPods fw C w pods loc = Inr (subset_map fw subsets pods, None)"
proof -
  let ?host = "UnityHost fw (NN_Name loc) (NN_Namespace loc)"
  have none: "concat (map (\<lambda>pod. []) pods) = ([] :: (string \<times> string) list)" by (induction pods) auto
  show ?thesis
    using assms
    by (cases "HostSubsetMapping_Get C w 1 ?host")
      (auto simp: none querySubsetPods_def known_subsets_def assign_pods base_pods pod_assignments_def
        subset_map_def Let_def split: if_splits)
qed

lemma sound_subsets_known:
  assumes "sound_subsets C"
  shows "\<exists>subsets. known_subsets fw C w loc = map Some subsets"
proof -
  have "None \<notin> set (known_subsets fw C w loc)"
    using assms
    by (cases "HostSubsetMapping_Get C w 1 (UnityHost fw (NN_Name loc) (NN_Namespace loc))")
      (auto simp: sound_subsets_def known_subsets_def Let_def)
  then show ?thesis by (metis ex_map_conv not_None_eq)
qed

lemma subset_map_under:
  "pods_under (subset_map fw subsets pods) k =
     map snd (filter (\<lambda>(k', v). k' = k) (pod_assignments fw subsets pods))"
  by (simp add: subset_map_def subset_pods.get_build)

text \<open>Every pod is in the base set; a named subset has the pods whose labels contain its own.\<close>

lemma filter_subset_name:
  assumes "distinct (map Subset_Name sbs)" "sb \<in> set sbs"
  shows "filter (\<lambda>s. Subset_Name s = Subset_Name sb \<and> P s) sbs = (if P sb then [sb] else [])"
  using assms
proof (induction sbs)
  case (Cons s sbs)
  have none: "filter (\<lambda>t. Subset_Name t = Subset_Name s \<and> P t) sbs = []"
    using Cons.prems(1) by (auto simp: filter_empty_conv rev_image_eqI)
  show ?case
  proof (cases "s = sb")
    case True
    with none show ?thesis by auto
  next
    case False
    with Cons.prems have "sb \<in> set sbs" "Subset_Name s \<noteq> Subset_Name sb"
      by (auto simp: rev_image_eqI)
    with Cons show ?thesis by simp
  qed
qed simp

text \<open>
  The pods under a name: each pod once for every subset of this name whose labels it has, and
  for the name of the base set all pods after that.
\<close>

lemma pods_under_subset_map:
  "pods_under (subset_map fw sbs pods) k =
     concat (map (\<lambda>pod. replicate (length (filter (\<lambda>sb. Subset_Name sb = k \<and> in_subset fw pod sb) sbs))
       (Pod_Name pod)) pods)
     @ (if k = Wellkonw_BaseSet fw then map Pod_Name pods else [])"
proof -
  have "map snd (filter (\<lambda>(k', v). k' = k) (concat (map (\<lambda>pod.
        map (\<lambda>sb. (Subset_Name sb, Pod_Name pod)) (filter (in_subset fw pod) sbs)) pods)))
      = concat (map (\<lambda>pod. replicate (length (filter (\<lambda>sb. Subset_Name sb = k \<and> in_subset fw pod sb) sbs))
          (Pod_Name pod)) pods)"
    by (induction pods) (auto simp: filter_map comp_def filter_filter conj_commute map_replicate_const)
  then show ?thesis
    by (simp add: subset_map_under pod_assignments_def filter_map comp_def)
qed

lemma subset_pods_of:
  assumes "distinct (map Subset_Name sbs)" "Wellkonw_BaseSet fw \<notin> Subset_Name ` set sbs"
  shows "pods_under (subset_map fw sbs pods) (Wellkonw_BaseSet fw) = map Pod_Name pods"
    and "sb \<in> set sbs \<Longrightarrow> pods_under (subset_map fw sbs pods) (Subset_Name sb)
           = map Pod_Name (filter (\<lambda>pod. in_subset fw pod sb) pods)"
proof -
  have "filter (\<lambda>s. Subset_Name s = Wellkonw_BaseSet fw \<and> in_subset fw pod s) sbs = []" for pod
    using assms(2) by (auto simp: filter_empty_conv image_iff)
  then show "pods_under (subset_map fw sbs pods) (Wellkonw_BaseSet fw) = map Pod_Name pods"
    by (simp add: pods_under_subset_map)
  show "pods_under (subset_map fw sbs pods) (Subset_Name sb)
      = map Pod_Name (filter (\<lambda>pod. in_subset fw pod sb) pods)" if sb: "sb \<in> set sbs"
  proof -
    have "concat (map (\<lambda>pod. replicate (length (if in_subset fw pod sb then [sb] else [])) (Pod_Name pod)) pods)
        = map Pod_Name (filter (\<lambda>pod. in_subset fw pod sb) pods)"
      by (induction pods) auto
    moreover have "Wellkonw_BaseSet fw \<noteq> Subset_Name sb" using assms(2) sb by auto
    ultimately show ?thesis
      by (simp add: pods_under_subset_map filter_subset_name [OF assms(1) sb])
  qed
qed

subsection \<open>Counts\<close>

lemma NPod_generateMeta:
  assumes "fair ch"
  shows "map_get (NPod (generateMeta ch m loc)) (k @ ''.pod'') =
           (if pods_under m k = [] then None else Some (of_nat (length (pods_under m k))))"
proof -
  let ?step = "\<lambda>(k, v) n. if 0 < length (elems v)
      then fmupd (k @ ''.pod'') (of_nat (length (elems v))) n else n"
  have "fmlookup (fold ?step kvs n) (k @ ''.pod'') = (case map_of kvs k of
      None \<Rightarrow> fmlookup n (k @ ''.pod'')
    | Some v \<Rightarrow> if elems v = [] then fmlookup n (k @ ''.pod'') else Some (of_nat (length (elems v))))"
    if "distinct (map fst kvs)" for kvs :: "(string \<times> string slice) list" and n
    using that
  proof (induction kvs arbitrary: n)
    case (Cons kv kvs)
    then have "map_of kvs (fst kv) = None" by (simp add: map_of_eq_None_iff)
    with Cons show ?case by (cases kv) (auto split: option.splits)
  qed simp
  from this [of "go_range ch m" fmempty] assms show ?thesis
    by (auto simp: generateMeta_def pods_under_def Let_def split: option.splits)
qed

lemma generateMeta_fields [simp]:
  "Meta_Name (generateMeta ch m loc) = NN_Name loc"
  "Meta_Namespace (generateMeta ch m loc) = NN_Namespace loc"
  "IsGroup (generateMeta ch m loc) = Some fmempty"
  by (simp_all add: generateMeta_def)

text \<open>The order in which the subsets are visited does not matter for the counts.\<close>

lemma fold_ext_on:
  "distinct (map fst kvs) \<Longrightarrow>
   fmlookup (fold (\<lambda>(k, v) n. if P v then fmupd (k @ s) (f v) n else n) kvs n) j =
     (case List.find (\<lambda>(k, v). k @ s = j \<and> P v) kvs of None \<Rightarrow> fmlookup n j | Some (k, v) \<Rightarrow> Some (f v))"
proof (induction kvs arbitrary: n)
  case (Cons kv kvs)
  obtain k v where kv: "kv = (k, v)" by (cases kv)
  show ?case
  proof (cases "k @ s = j \<and> P v")
    case True
    then have "List.find (\<lambda>(k, v). k @ s = j \<and> P v) kvs = None"
      using Cons.prems kv by (auto simp: find_None_iff rev_image_eqI)
    with Cons True kv show ?thesis by simp
  next
    case False
    with Cons kv show ?thesis by (auto split: option.splits)
  qed
qed simp

lemma generateMeta_order:
  assumes "fair ch" "fair ch'"
  shows "generateMeta ch m loc = generateMeta ch' m loc"
proof -
  let ?step = "\<lambda>(k, v) n. if 0 < length (elems v)
      then fmupd (k @ ''.pod'') (of_nat (length (elems v)) :: 64 word) n else n"
  have "List.find (\<lambda>(k, v). k @ ''.pod'' = j \<and> 0 < length (elems v)) (go_range ch m)
      = List.find (\<lambda>(k, v). k @ ''.pod'' = j \<and> 0 < length (elems v)) (go_range ch' m)" for j
  proof -
    have unique: "List.find (\<lambda>(k, v). k @ ''.pod'' = j \<and> 0 < length (elems v)) kvs = Some (k, v)"
      if "distinct (map fst kvs)" "(k, v) \<in> set kvs" "k @ ''.pod'' = j" "0 < length (elems v)" for kvs k v
      using that by (induction kvs) (auto simp: rev_image_eqI)
    show ?thesis
    proof (cases "List.find (\<lambda>(k, v). k @ ''.pod'' = j \<and> 0 < length (elems v)) (go_range ch m)")
      case None
      then have "List.find (\<lambda>(k, v). k @ ''.pod'' = j \<and> 0 < length (elems v)) (go_range ch' m) = None"
        using assms by (auto simp: find_None_iff)
      with None show ?thesis by simp
    next
      case (Some kv)
      then obtain k v where kv: "kv = (k, v)" "(k, v) \<in> set (go_range ch m)"
        "k @ ''.pod'' = j" "0 < length (elems v)"
        by (cases kv) (auto simp: find_Some_iff dest: nth_mem)
      with assms have "(k, v) \<in> set (go_range ch' m)" by simp
      from unique [OF distinct_fst_go_range [OF assms(2)] this kv(3,4)] Some kv(1) show ?thesis by simp
    qed
  qed
  then have "fold ?step (go_range ch m) fmempty = fold ?step (go_range ch' m) fmempty"
    using assms by (intro fmap_ext) (simp add: fold_ext_on)
  then show ?thesis by (simp add: generateMeta_def Let_def)
qed

subsection \<open>Events\<close>

lemma request_key_Split: "\<exists>a b cs. strings_Split (CHR ''/'') (u @ CHR ''/'' # v) = a # b # cs"
proof -
  have "2 \<le> length (strings_Split (CHR ''/'') (u @ CHR ''/'' # v))"
    by (simp add: length_Split)
  then show ?thesis by (metis One_nat_def Suc_1 Suc_le_length_iff)
qed

lemma request_key_parts:
  assumes "CHR ''/'' \<notin> set (NN_Namespace nn)" "CHR ''/'' \<notin> set (NN_Name nn)"
  shows "strings_Split (CHR ''/'') (request_key nn) = [NN_Namespace nn, NN_Name nn]"
  using assms by (simp add: request_key_def Split_pair)

text \<open>Every handler that is configured exists.\<close>

definition handlers_present :: "Environment \<Rightarrow> bool" where
  "handlers_present env \<longleftrightarrow>
     (\<forall>c m p k. Env_Config env = Some c \<longrightarrow> Config_Metric c = Some m \<longrightarrow> Metric_Prometheus m = Some p
        \<longrightarrow> map_get (Prometheus_Handlers p) k \<noteq> Some None)"

lemma query_handlers_total:
  assumes "fair ch" "\<forall>(k, h) \<in> set hs. h \<noteq> None"
  shows "\<exists>q g. query_handlers ch loc sp hs (q0, Some g0) = Inr (q, Some g)"
  using assms
proof (induction hs arbitrary: ch q0 g0)
  case (Cons kh hs)
  obtain k h where kh: "kh = (k, Some h)" using Cons.prems(2) by (cases kh) auto
  have f: "fair (ch_right ch)" "fair (ch_right (ch_left ch))" using Cons.prems(1) by auto
  obtain q1 g1 where rep: "replaceQueryString (ch_left (ch_left ch)) k (Handler_Query h)
      (Handler_Type h) loc sp = (q1, g1)" by fastforce
  have merge: "gfold (\<lambda>(name, group). map_set name group) (go_range (ch_right (ch_left ch)) g1) (Some g0)
      = Inr (Some (put_all (go_range (ch_right (ch_left ch)) g1) g0))"
  proof -
    have "gfold (\<lambda>(name, group). map_set name group) kvs (Some m) = Inr (Some (put_all kvs m))"
      for kvs :: "(string \<times> bool) list" and m by (induction kvs m rule: put_all.induct) auto
    then show ?thesis .
  qed
  have rest: "\<forall>(k, h) \<in> set hs. h \<noteq> None" using Cons.prems(2) by simp
  show ?case
    using Cons.IH [OF f(1) rest] by (simp add: kh rep merge)
qed auto

lemma handleEvent_total:
  assumes "fair ch" "handlers_present (r_env r)" "sound_subsets C"
  shows "\<exists>q. handleEvent fw J M C ch r w loc = Inr q"
proof -
  have gen: "\<exists>q. generateQueryString J ch sp loc (Some hs) = Inr q"
    if "\<forall>k. fmlookup hs k \<noteq> Some None" for sp hs
  proof -
    let ?g = "IsGroup (generateMeta (ch_left (ch_left ch)) sp loc)"
    have "h \<noteq> None" if "(k, h) \<in> set (go_range (ch_right (ch_left ch)) (map_items (Some hs)))" for k h
      using that \<open>\<forall>k. fmlookup hs k \<noteq> Some None\<close> assms(1) by (cases h) auto
    then have "\<forall>(k, h) \<in> set (go_range (ch_right (ch_left ch)) (map_items (Some hs))). h \<noteq> None"
      by blast
    then obtain q g where "query_handlers (ch_right ch) loc sp
        (go_range (ch_right (ch_left ch)) (map_items (Some hs))) ([], Some fmempty) = Inr (q, Some g)"
      using query_handlers_total [OF fair_ch_right [OF assms(1)]] by blast
    then show ?thesis by (simp add: generateQueryString_def Let_def)
  qed
  obtain sbs where "known_subsets fw C w loc = map Some sbs"
    using sound_subsets_known [OF assms(3)] by blast
  note pods = querySubsetPods_eq [OF this]
  show ?thesis
  proof (cases "cmap_Get M (interest r) (request_key loc)")
    case (Some v)
    show ?thesis
    proof (cases "adaptive_enabled (r_env r)")
      case True
      have "\<exists>q. handlePrometheusEvent fw J C ch w (r_env r) loc = Inr q"
        using gen assms(2)
        by (fastforce simp: handlePrometheusEvent_def handlers_present_def bind_eq_Some_conv pods
            split: option.split prod.split)
      with Some True show ?thesis by (simp add: handleEvent_def)
    next
      case False
      have "\<exists>q. handleLocalEvent fw J C ch w loc = Inr q"
        by (auto simp: handleLocalEvent_def pods Let_def split: option.split prod.split)
      with Some False show ?thesis by (simp add: handleEvent_def)
    qed
  qed (simp add: handleEvent_def)
qed

lemma ticker_loop_total:
  assumes "fair ch" "handlers_present (r_env r)" "sound_subsets C"
    and "\<forall>(k, v) \<in> set items. CHR ''/'' \<in> set k"
  shows "\<exists>q. ticker_loop fw J M C ch r w items q0 = Inr (Some q)"
  using assms(1,4)
proof (induction items arbitrary: ch q0)
  case (Cons kv items)
  obtain k v where kv: "kv = (k, v)" by (cases kv)
  with Cons.prems(2) obtain u x where "k = u @ CHR ''/'' # x" by (auto dest: split_list)
  then obtain a b cs where split: "strings_Split (CHR ''/'') k = a # b # cs"
    using request_key_Split [of u x] by auto
  obtain q where q: "handleEvent fw J M C (ch_left (ch_left ch)) r w
      \<lparr>NN_Namespace = a, NN_Name = b\<rparr> = Inr q"
    using handleEvent_total [OF fair_ch_left [OF fair_ch_left [OF Cons.prems(1)]] assms(2,3),
        of fw J M w "\<lparr>NN_Namespace = a, NN_Name = b\<rparr>"] by (elim exE)
  have rest: "\<forall>(k, v) \<in> set items. CHR ''/'' \<in> set k" using Cons.prems(2) by simp
  show ?case
    unfolding kv ticker_loop.simps split list.case q gbind.simps
    by (rule Cons.IH [OF fair_ch_right [OF Cons.prems(1)] rest])
qed simp

text \<open>
  The JSON of this \<open>StaticMeta\<close> is not empty and decodes to the same value (Go's JSON reads
  back every value whose strings are valid UTF-8, as the names of Kubernetes objects are).
\<close>

definition json_round_trip :: "codec \<Rightarrow> StaticMeta \<Rightarrow> bool" where
  "json_round_trip J m \<longleftrightarrow>
     (\<exists>t. Marshal_StaticMeta J m = Inr t \<and> t \<noteq> '''' \<and> Unmarshal_StaticMeta J t = Inr m)"

lemma json_round_tripD:
  assumes "json_round_trip J m"
  shows "StaticMeta_String J m \<noteq> ''''" "Unmarshal_StaticMeta J (StaticMeta_String J m) = Inr m"
proof -
  obtain t where "Marshal_StaticMeta J m = Inr t" "t \<noteq> ''''" "Unmarshal_StaticMeta J t = Inr m"
    using assms unfolding json_round_trip_def by blast
  then show "StaticMeta_String J m \<noteq> ''''" "Unmarshal_StaticMeta J (StaticMeta_String J m) = Inr m"
    by (simp_all add: StaticMeta_String_def)
qed

text \<open>
  What the pods of a service amount to: the counts of the pods of its subsets that are not nil.
\<close>

definition service_meta :: "framework \<Rightarrow> 'w client \<Rightarrow> 'w \<Rightarrow> NamespacedName \<Rightarrow> StaticMeta" where
  "service_meta fw C w loc =
     generateMeta ascending (subset_map fw (List.map_filter id (known_subsets fw C w loc))
       (fst (queryServicePods fw C w loc))) loc"

lemma map_filter_id_Some [simp]: "List.map_filter id (map Some xs) = xs"
  by (induction xs) (simp_all add: map_filter_simps)

lemma handleLocalEvent_eq:
  assumes "fair ch" "json_round_trip J (service_meta fw C w loc)"
    and "known_subsets fw C w loc = map Some subsets"
  shows "handleLocalEvent fw J C ch w loc =
           Inr (if snd (queryServicePods fw C w loc) = None
                then Some (fmupd (StaticMeta_String J (service_meta fw C w loc)) [] fmempty) else None)"
proof -
  obtain pods err where p: "queryServicePods fw C w loc = (pods, err)" by fastforce
  let ?m = "subset_map fw subsets pods"
  have "generateMeta ch ?m loc = service_meta fw C w loc"
    using generateMeta_order [OF assms(1) fair_ascending] by (simp add: service_meta_def p assms(3))
  then show ?thesis
    using json_round_tripD(1) [OF assms(2)] p querySubsetPods_eq [OF assms(3)]
    by (cases err) (auto simp: handleLocalEvent_def Let_def split: prod.splits)
qed

lemma fmdom_put_items: "fmdom (fold (\<lambda>(k, v) m. fmupd k v m) kvs m) = fmdom m |\<union>| fset_of_list (map fst kvs)"
  by (induction kvs arbitrary: m) auto

lemma ticker_loop_mono:
  assumes "ticker_loop fw J M C ch r w items q0 = Inr (Some q)"
  shows "fmdom q0 |\<subseteq>| fmdom q"
  using assms
proof (induction items arbitrary: ch q0)
  case (Cons kv items)
  obtain k v where kv: "kv = (k, v)" by (cases kv)
  from Cons.prems obtain qm where
    "ticker_loop fw J M C (ch_right ch) r w items (fold (\<lambda>(meta, handlers) m. fmupd meta handlers m)
       (go_range (ch_right (ch_left ch)) (map_items qm)) q0) = Inr (Some q)"
    by (auto simp: kv split: list.splits)
  from Cons.IH [OF this] show ?case by (auto simp: fmdom_put_items)
qed simp

text \<open>In local mode the ticker asks for every object of interest whose pods can be listed.\<close>

lemma ticker_loop_local:
  assumes "fair ch" "json_round_trip J (service_meta fw C w nn)" "\<not> adaptive_enabled (r_env r)"
    and "ticker_loop fw J M C ch r w items q0 = Inr (Some q)"
    and "request_key nn \<in> fst ` set items" "cmap_Get M (interest r) (request_key nn) \<noteq> None"
    and "CHR ''/'' \<notin> set (NN_Namespace nn)" "CHR ''/'' \<notin> set (NN_Name nn)"
    and "snd (queryServicePods fw C w nn) = None" "known_subsets fw C w nn = map Some subsets"
  shows "StaticMeta_String J (service_meta fw C w nn) |\<in>| fmdom q"
  using assms(1,4,5)
proof (induction items arbitrary: ch q0)
  case (Cons kv items)
  obtain k v where kv: "kv = (k, v)" by (cases kv)
  from Cons.prems(2) obtain a b cs qm where
    qm: "strings_Split (CHR ''/'') k = a # b # cs"
      "handleEvent fw J M C (ch_left (ch_left ch)) r w \<lparr>NN_Namespace = a, NN_Name = b\<rparr> = Inr qm" and
    rest: "ticker_loop fw J M C (ch_right ch) r w items (fold (\<lambda>(meta, handlers) m. fmupd meta handlers m)
       (go_range (ch_right (ch_left ch)) (map_items qm)) q0) = Inr (Some q)"
    by (auto simp: kv split: list.splits)
  show ?case
  proof (cases "k = request_key nn")
    case True
    with qm(1) request_key_parts [OF assms(7,8)] have "a = NN_Namespace nn" "b = NN_Name nn" by auto
    then have "\<lparr>NN_Namespace = a, NN_Name = b\<rparr> = nn" by simp
    with qm(2) assms(3,6,9) handleLocalEvent_eq [OF _ assms(2,10), of "ch_left (ch_left ch)"] Cons.prems(1)
    have "qm = Some (fmupd (StaticMeta_String J (service_meta fw C w nn)) [] fmempty)"
      by (auto simp: handleEvent_def)
    then have "StaticMeta_String J (service_meta fw C w nn)
        \<in> fst ` set (go_range (ch_right (ch_left ch)) (map_items qm))"
      using Cons.prems(1) by (force simp: image_iff)
    then have "StaticMeta_String J (service_meta fw C w nn) |\<in>| fmdom (fold (\<lambda>(meta, handlers) m.
        fmupd meta handlers m) (go_range (ch_right (ch_left ch)) (map_items qm)) q0)"
      by (simp add: fmdom_put_items fset_of_list.rep_eq)
    with ticker_loop_mono [OF rest] show ?thesis by blast
  next
    case False
    with Cons.prems(3) kv have "request_key nn \<in> fst ` set items" by auto
    from Cons.IH [OF fair_ch_right [OF Cons.prems(1)] rest this] show ?thesis .
  qed
qed simp

subsection \<open>Queries\<close>

text \<open>
  Each handler with a query replaces the queries of the one before: only those of the last
  handler of the range are sent.
\<close>

lemma query_handlers_append:
  assumes "fair ch"
  shows "query_handlers ch loc sp (xs @ ys) s = Inr t \<Longrightarrow>
    \<exists>ch' s'. fair ch' \<and> query_handlers ch loc sp xs s = Inr s' \<and> query_handlers ch' loc sp ys s' = Inr t"
  using assms
proof (induction xs arbitrary: ch s)
  case (Cons kh rest)
  obtain queryHandlers metaGroup where s: "s = (queryHandlers, metaGroup)" by (cases s)
  obtain name h where kh: "kh = (name, Some h)"
    using Cons.prems(1) s by (cases kh; cases "snd kh") auto
  have f: "fair (ch_right ch)" using Cons.prems(2) by simp
  show ?case
  proof (cases "Handler_Query h = ''''")
    case True
    with Cons.prems(1) s kh have "query_handlers (ch_right ch) loc sp (rest @ ys) s = Inr t" by simp
    from Cons.IH [OF this f] True s kh show ?thesis by simp
  next
    case False
    obtain hs g where rep: "replaceQueryString (ch_left (ch_left ch)) name (Handler_Query h)
        (Handler_Type h) loc sp = (hs, g)" by fastforce
    obtain g' where g': "gfold (\<lambda>(name, group). map_set name group)
        (go_range (ch_right (ch_left ch)) g) metaGroup = Inr g'"
      "query_handlers (ch_right ch) loc sp (rest @ ys) (hs, g') = Inr t"
      using Cons.prems(1) False by (auto simp: s kh rep)
    from Cons.IH [OF g'(2) f] False s kh rep g'(1) show ?thesis by simp
  qed
qed auto

lemma query_handlers_last:
  assumes "fair ch" "Handler_Query h \<noteq> ''''"
    and "query_handlers ch loc sp (xs @ [(name, Some h)]) s = Inr (hs, g)"
  shows "\<exists>ch'. fair ch' \<and> hs = fst (replaceQueryString ch' name (Handler_Query h) (Handler_Type h) loc sp)"
proof -
  obtain ch' s' where "fair ch'" "query_handlers ch' loc sp [(name, Some h)] s' = Inr (hs, g)"
    using query_handlers_append [OF assms(1,3)] by blast
  with assms(2) show ?thesis
    by (cases s') (auto simp: split: prod.splits intro!: exI [of _ "ch_left (ch_left ch')"])
qed

end
