(* ===== verification/Reconciler.thy ===== *)
theory Reconciler
  imports Metrics Producer
begin

section \<open>The controller: \<open>controllers/smartlimiter_controller.go\<close>\<close>

text \<open>
  \<open>Reconcile\<close> keeps the set of objects of interest and cleans up after deleted objects.
  \<open>NewReconciler\<close> is the initial state and the configuration of the metric producer. The
  step relation \<open>limiter_step\<close> is the whole controller: reconcile requests, metrics from the
  producer, changed DestinationRules, and any change of the cluster from outside, in any
  order, each handler as one step.
\<close>

subsection \<open>Start\<close>

record 'api ProducerConfig =
  EnableWatcherProducer :: bool
  EnableTickerProducer :: bool
  EnablePrometheusSource :: bool
  EnableMockSource :: bool
  PrometheusSourceConfig :: "'api option"
  WatcherName :: string
  WatcherKinds :: "(string \<times> string \<times> string) list"
  TickerName :: string
  TickerDurations :: "int list" \<comment> \<open>in seconds\<close>

definition newProducerConfig ::
    "(string \<Rightarrow> goerror + 'api) \<Rightarrow> Environment \<Rightarrow> goerror + 'api ProducerConfig" where
  "newProducerConfig newClient env =
     (let pc = \<lparr>EnableWatcherProducer = False, EnableTickerProducer = True,
                EnablePrometheusSource = False, EnableMockSource = False,
                PrometheusSourceConfig = None,
                WatcherName = ''smartLimiter-watcher'',
                WatcherKinds = [('''', ''v1'', ''Endpoints'')],
                TickerName = ''smartLimiter-ticker'', TickerDurations = [30]\<rparr>
      in if adaptive_enabled env
         then (case newPrometheusSourceConfig newClient env of
                 Inl err \<Rightarrow> Inl err
               | Inr source \<Rightarrow> Inr (pc\<lparr>PrometheusSourceConfig := Some source,
                   EnablePrometheusSource := True, EnableWatcherProducer := True\<rparr>))
         else Inr (pc\<lparr>EnableMockSource := True\<rparr>))"

definition empty_spec :: SmartLimiterSpec where
  "empty_spec = \<lparr>Sets = None, Rls = ''''\<rparr>"

text \<open>An error of \<open>newProducerConfig\<close> ends the process (\<open>os.Exit(1)\<close>).\<close>

definition NewReconciler ::
    "(string \<Rightarrow> goerror + 'api) \<Rightarrow> 'm cmap \<Rightarrow> Environment
       \<Rightarrow> goerror + 'm SmartLimiterReconciler \<times> 'api ProducerConfig" where
  "NewReconciler newClient M env =
     (let r = \<lparr>r_env = env, interest = cmap_New M, metricInfo = cmap_New M,
               lastUpdatePolicy = empty_spec\<rparr>
      in case newProducerConfig newClient env of
           Inl err \<Rightarrow> Inl err
         | Inr pc \<Rightarrow> Inr (r, pc))"

subsection \<open>Reconcile\<close>

definition Reconcile ::
    "framework \<Rightarrow> 'm cmap \<Rightarrow> 'w client \<Rightarrow> NamespacedName \<Rightarrow> 'm SmartLimiterReconciler \<times> 'w
       \<Rightarrow> ('m SmartLimiterReconciler \<times> 'w \<times> goerror option) go" where
  "Reconcile fw M C req = (\<lambda>(r, w).
     case Get_SmartLimiter C w req of
       Inl err \<Rightarrow>
         if IsNotFound err
         then
           let r' = r\<lparr>metricInfo := cmap_Pop M (metricInfo r) (request_key req),
                      interest := cmap_Pop M (interest r) (request_key req),
                      lastUpdatePolicy := empty_spec\<rparr>
           in gbind (if global_enabled (r_env r) then refreshConfigMap fw C [] req w else Inr w)
                (\<lambda>w'. Inr (r', w', None))
         else Inr (r, w, Some err)
     | Inr sl \<Rightarrow>
         if \<not> Env_RevInScope (r_env r) (IstioRevFromLabel fw (SL_Labels sl)) then Inr (r, w, None)
         else if SL_Spec sl = lastUpdatePolicy r then Inr (r, w, None)
         else Inr (r\<lparr>lastUpdatePolicy := SL_Spec sl,
                     interest := cmap_Set M (interest r) (request_key req) EmptyStruct\<rparr>, w, None))"

subsection \<open>The controller as a state machine\<close>

inductive limiter_step ::
    "framework \<Rightarrow> codec \<Rightarrow> 'm cmap \<Rightarrow> 'w client \<Rightarrow> 'm SmartLimiterReconciler \<times> 'w
       \<Rightarrow> 'm SmartLimiterReconciler \<times> 'w \<Rightarrow> bool"
  for fw :: framework and J :: codec and M :: "'m cmap" and C :: "'w client" where
  reconcile: "Reconcile fw M C req s = Inr (r', w', err) \<Longrightarrow> limiter_step fw J M C s (r', w')"
| consume: "fair ch \<Longrightarrow> ConsumeMetric fw J M C ch metric s = Inr s' \<Longrightarrow> limiter_step fw J M C s s'"
| subscribed: "fair ch \<Longrightarrow> subscribe fw M C ch r host w = Inr w' \<Longrightarrow>
     limiter_step fw J M C (r, w) (r, w')"
| outside: "limiter_step fw J M C (r, w) (r, w')"

definition limiter_init ::
    "(string \<Rightarrow> goerror + 'api) \<Rightarrow> 'm cmap \<Rightarrow> Environment \<Rightarrow> 'm SmartLimiterReconciler \<times> 'w \<Rightarrow> bool" where
  "limiter_init newClient M env s \<longleftrightarrow> (\<exists>pc. NewReconciler newClient M env = Inr (fst s, pc))"

inductive_cases limiter_stepE: "limiter_step fw J M C s t"

subsection \<open>Keys\<close>

definition slash_free :: "NamespacedName \<Rightarrow> bool" where
  "slash_free nn \<longleftrightarrow> CHR ''/'' \<notin> set (NN_Namespace nn) \<and> CHR ''/'' \<notin> set (NN_Name nn)"

lemma request_key_inject:
  assumes "slash_free a" "slash_free b"
  shows "request_key a = request_key b \<longleftrightarrow> a = b"
proof
  assume "request_key a = request_key b"
  then have "[NN_Namespace a, NN_Name a] = [NN_Namespace b, NN_Name b]"
    using request_key_parts [of a] request_key_parts [of b] assms by (simp add: slash_free_def)
  then show "a = b" by simp
qed simp

lemma slash_in_request_key [simp]: "CHR ''/'' \<in> set (request_key nn)"
  by (simp add: request_key_def)

subsection \<open>What one reconcile does\<close>

lemma Reconcile_deleted:
  assumes "Get_SmartLimiter C w req = Inl err" "IsNotFound err"
    and "Reconcile fw M C req (r, w) = Inr (r', w', e)"
  shows "e = None" "interest r' = cmap_Pop M (interest r) (request_key req)"
    "metricInfo r' = cmap_Pop M (metricInfo r) (request_key req)"
    "lastUpdatePolicy r' = empty_spec" "r_env r' = r_env r"
    "config_write fw C r [] req w = Inr w'"
  using assms by (auto simp: Reconcile_def config_write_def Let_def)

text \<open>What the deletion of an object writes to the ConfigMap.\<close>

lemma deletion_config_write:
  assumes "config_write fw C r [] req w = Inr w'" "global_enabled (r_env r)"
    and "Get_ConfigMap C w getConfigMapNamespaceName = Inr cm" "holds_config fw cm (Some rc)"
  shows "w' = (let kept = filter (\<lambda>p. case p of None \<Rightarrow> True
                   | Some d \<Rightarrow> \<not> strings_Contains (Value d) (NN_Name req @ ''.'' @ NN_Namespace req))
                 (RLC_Descriptors rc)
               in if CM_Data cm = configmap_data fw kept then w
                  else fst (Update_ConfigMap C w ((constructConfigMap fw kept)
                         \<lparr>CM_ResourceVersion := CM_ResourceVersion cm\<rparr>)))"
proof -
  have run: "refreshConfigMap fw C [] req w = Inr w'" using assms(1,2) by (simp add: config_write_def)
  then have "None \<notin> set (RLC_Descriptors rc)"
    using refreshConfigMap_panic_iff [of fw C "[]" req w] assms(3,4) by (metis Inl_Inr_False option.case(2))
  note written = refreshConfigMap_writes [OF assms(3,4) this, of "[]" req]
  have "of_other_services req = (\<lambda>p. case p of None \<Rightarrow> True
      | Some d \<Rightarrow> \<not> strings_Contains (Value d) (NN_Name req @ ''.'' @ NN_Namespace req))"
    by (simp add: of_other_services_def service_info_def fun_eq_iff split: option.split)
  with run written show ?thesis by (simp add: merged_descriptors_def Let_def)
qed

lemma Reconcile_present:
  assumes "Get_SmartLimiter C w req = Inr sl"
    and "Env_RevInScope (r_env r) (IstioRevFromLabel fw (SL_Labels sl))"
  shows "Reconcile fw M C req (r, w) =
           (if SL_Spec sl = lastUpdatePolicy r then Inr (r, w, None)
            else Inr (r\<lparr>lastUpdatePolicy := SL_Spec sl,
                         interest := cmap_Set M (interest r) (request_key req) EmptyStruct\<rparr>, w, None))"
  using assms by (simp add: Reconcile_def)

lemma Reconcile_skipped:
  assumes "Get_SmartLimiter C w req = Inr sl"
    and "\<not> Env_RevInScope (r_env r) (IstioRevFromLabel fw (SL_Labels sl))"
  shows "Reconcile fw M C req (r, w) = Inr (r, w, None)"
  using assms by (simp add: Reconcile_def)

lemma Reconcile_error:
  assumes "Get_SmartLimiter C w req = Inl err" "\<not> IsNotFound err"
  shows "Reconcile fw M C req (r, w) = Inr (r, w, Some err)"
  using assms by (simp add: Reconcile_def)

lemma Reconcile_interest:
  assumes "concurrent_map M" "Reconcile fw M C req (r, w) = Inr (r', w', e)"
    and "cmap_Get M (interest r') k = Some v"
  shows "cmap_Get M (interest r) k = Some v \<or> (k = request_key req \<and> v = EmptyStruct)"
  using assms(2,3)
  by (auto simp: Reconcile_def Let_def concurrent_mapD [OF assms(1)] split: sum.splits if_splits)

lemma Reconcile_metricInfo:
  assumes "concurrent_map M" "Reconcile fw M C req (r, w) = Inr (r', w', e)"
    and "cmap_Get M (metricInfo r') k = Some v"
  shows "cmap_Get M (metricInfo r) k = Some v"
  using assms(2,3)
  by (auto simp: Reconcile_def Let_def concurrent_mapD [OF assms(1)] split: sum.splits if_splits)

lemma Reconcile_env: "Reconcile fw M C req (r, w) = Inr (r', w', e) \<Longrightarrow> r_env r' = r_env r"
  by (auto simp: Reconcile_def Let_def split: sum.splits if_splits)

subsection \<open>The invariant of the controller\<close>

definition interest_keys :: "'m cmap \<Rightarrow> 'm SmartLimiterReconciler \<Rightarrow> bool" where
  "interest_keys M r \<longleftrightarrow> (\<forall>k v. cmap_Get M (interest r) k = Some v \<longrightarrow>
     v = EmptyStruct \<and> (\<exists>nn. k = request_key nn))"

definition metric_entries :: "'m cmap \<Rightarrow> 'm \<Rightarrow> bool" where
  "metric_entries M m \<longleftrightarrow> (\<forall>k v. cmap_Get M m k = Some v \<longrightarrow>
     (\<exists>ep. v = EndpointsPtr ep \<and> k = request_key (Endpoints_Location ep)))"

definition limiter_inv :: "'m cmap \<Rightarrow> Environment \<Rightarrow> 'm SmartLimiterReconciler \<times> 'w \<Rightarrow> bool" where
  "limiter_inv M env s \<longleftrightarrow> r_env (fst s) = env \<and> interest_keys M (fst s)
     \<and> metric_entries M (metricInfo (fst s))"

lemma update_metricInfo_entries:
  assumes "concurrent_map M" "metric_entries M m" "update_metricInfo ch M nn args m = Inr m'"
  shows "metric_entries M m'"
proof (cases "cmap_Get M m (request_key nn)")
  case None
  with assms show ?thesis
    by (auto simp: update_metricInfo_def metric_entries_def concurrent_mapD [OF assms(1)]
        split: if_splits)
next
  case (Some v)
  then obtain ep where ep: "v = EndpointsPtr ep" "request_key nn = request_key (Endpoints_Location ep)"
    using assms(2) unfolding metric_entries_def by blast
  from assms(3) Some ep(1) obtain info where
    "m' = cmap_Set M m (request_key nn) (EndpointsPtr (ep\<lparr>Endpoints_Info := info\<rparr>))"
    by (auto simp: update_metricInfo_def)
  with assms(2) ep(2) show ?thesis by (simp add: metric_entries_def concurrent_mapD [OF assms(1)])
qed

lemma Refresh_Inr:
  assumes "Refresh fw M C ch nn args (r, w) = Inr (r', w', e)"
  shows "\<exists>m. update_metricInfo (ch_left ch) M nn args (metricInfo r) = Inr m
           \<and> r' = r\<lparr>metricInfo := m\<rparr>"
  using assms by (cases "Get_SmartLimiter C w nn") (auto simp: Refresh_def Let_def)

lemma Refresh_inv:
  assumes "concurrent_map M" "limiter_inv M env (r, w)"
    and "Refresh fw M C ch nn args (r, w) = Inr (r', w', e)"
  shows "limiter_inv M env (r', w')"
proof -
  obtain m where m: "update_metricInfo (ch_left ch) M nn args (metricInfo r) = Inr m"
    "r' = r\<lparr>metricInfo := m\<rparr>"
    using Refresh_Inr [OF assms(3)] by blast
  have "metric_entries M m"
    using update_metricInfo_entries [OF assms(1) _ m(1)] assms(2) by (simp add: limiter_inv_def)
  with assms(2) m(2) show ?thesis by (simp add: limiter_inv_def interest_keys_def)
qed

lemma consume_items_inv:
  assumes "concurrent_map M"
  shows "limiter_inv M env s \<Longrightarrow> consume_items fw J M C ch items s = Inr s' \<Longrightarrow> limiter_inv M env s'"
proof (induction items arbitrary: ch s)
  case (Cons item items)
  obtain metaInfo results where item: "item = (metaInfo, results)" by (cases item)
  show ?case
  proof (cases "Unmarshal_StaticMeta J metaInfo")
    case (Inl err)
    with Cons item show ?thesis by auto
  next
    case (Inr meta)
    with Cons.prems(2) item obtain info r w e where
      run: "Refresh fw M C (ch_right (ch_left ch))
        \<lparr>NN_Namespace = Meta_Namespace meta, NN_Name = Meta_Name meta\<rparr> info s = Inr (r, w, e)"
      "consume_items fw J M C (ch_right ch) items (r, w) = Inr s'"
      by (auto simp: Let_def)
    obtain r0 w0 where s: "s = (r0, w0)" by (cases s)
    have "limiter_inv M env (r, w)"
      using Refresh_inv [OF assms Cons.prems(1) [unfolded s] run(1) [unfolded s]] .
    with Cons.IH run(2) show ?thesis by blast
  qed
qed simp

lemma Reconcile_inv:
  assumes "concurrent_map M" "limiter_inv M env (r, w)"
    and run: "Reconcile fw M C req (r, w) = Inr (r', w', err)"
  shows "limiter_inv M env (r', w')"
proof -
  have "interest_keys M r'"
    using assms(2) Reconcile_interest [OF assms(1) run] unfolding limiter_inv_def interest_keys_def
    by (metis fst_conv)
  moreover have "metric_entries M (metricInfo r')"
    using assms(2) Reconcile_metricInfo [OF assms(1) run] unfolding limiter_inv_def metric_entries_def
    by (metis fst_conv)
  moreover have "r_env r' = env"
    using Reconcile_env [OF run] assms(2) by (simp add: limiter_inv_def)
  ultimately show ?thesis by (simp add: limiter_inv_def)
qed

lemma limiter_step_inv:
  assumes "concurrent_map M" "limiter_inv M env s" "limiter_step fw J M C s t"
  shows "limiter_inv M env t"
  using assms(3)
proof (elim limiter_stepE)
  fix req r' w' err assume "Reconcile fw M C req s = Inr (r', w', err)" "t = (r', w')"
  with Reconcile_inv [OF assms(1)] assms(2) show ?thesis by (metis prod.collapse)
next
  fix ch metric assume "fair ch" "ConsumeMetric fw J M C ch metric s = Inr t"
  then show ?thesis
    using consume_items_inv [OF assms(1,2)] by (simp add: ConsumeMetric_def)
qed (use assms(2) in \<open>simp_all add: limiter_inv_def\<close>)

lemma limiter_init_inv:
  assumes "concurrent_map M" "limiter_init newClient M env s"
  shows "limiter_inv M env s"
proof -
  from assms(2) have "fst s = \<lparr>r_env = env, interest = cmap_New M, metricInfo = cmap_New M,
      lastUpdatePolicy = empty_spec\<rparr>"
    by (auto simp: limiter_init_def NewReconciler_def Let_def split: sum.splits)
  then show ?thesis
    by (simp add: limiter_inv_def interest_keys_def metric_entries_def concurrent_mapD [OF assms(1)])
qed

text \<open>
  The invariant as an instance of the interface; the law of the concurrent maps is part of
  both predicates, so that the interpretation needs no hypothesis.
\<close>

interpretation controller: inductive_invariant
  "\<lambda>s. concurrent_map M \<and> limiter_init newClient M env s"
  "limiter_step fw J M C"
  "\<lambda>s. concurrent_map M \<and> limiter_inv M env s"
  for newClient :: "string \<Rightarrow> goerror + 'api" and M :: "'m cmap" and env fw J and C :: "'w client"
  by unfold_locales (use limiter_init_inv limiter_step_inv in blast)+

lemma limiter_reachable_inv:
  assumes "concurrent_map M" "reachable (limiter_init newClient M env) (limiter_step fw J M C) s"
  shows "limiter_inv M env s"
proof -
  have "reachable (\<lambda>s. concurrent_map M \<and> limiter_init newClient M env s) (limiter_step fw J M C) s"
    using assms(1) by (intro reachable_mono [OF assms(2)]) simp
  from controller.reachable_inv [OF this] show ?thesis by simp
qed

lemma interest_keys_items:
  assumes "fair ch" "concurrent_map M" "interest_keys M r"
  shows "\<forall>(k, v) \<in> set (go_range ch (cmap_Items M (interest r))). CHR ''/'' \<in> set k"
proof -
  have "CHR ''/'' \<in> set k" if k: "cmap_Get M (interest r) k = Some v" for k v
  proof -
    obtain nn where "k = request_key nn" using k assms(3) unfolding interest_keys_def by blast
    then show ?thesis by simp
  qed
  with assms(1) show ?thesis by (auto simp: concurrent_mapD [OF assms(2)])
qed

lemma handleTickerEvent_total:
  assumes "fair ch" "concurrent_map M" "limiter_inv M env (r, w)" "handlers_present env"
    and "sound_subsets C"
  shows "\<exists>q. handleTickerEvent fw J M C ch r w = Inr (Some q)"
proof -
  have "interest_keys M r" "handlers_present (r_env r)"
    using assms(3,4) by (simp_all add: limiter_inv_def)
  then show ?thesis
    unfolding handleTickerEvent_def
    by (intro ticker_loop_total [OF fair_ch_right [OF assms(1)] _ assms(5)]
        interest_keys_items [OF fair_ch_left [OF assms(1)] assms(2)])
qed

text \<open>In local mode the ticker asks for every object of interest whose pods can be listed.\<close>

lemma handleTickerEvent_local:
  assumes "fair ch" "concurrent_map M" "json_round_trip J (service_meta fw C w nn)"
    and "\<not> adaptive_enabled (r_env r)"
    and "handleTickerEvent fw J M C ch r w = Inr (Some q)"
    and "cmap_Get M (interest r) (request_key nn) \<noteq> None" "slash_free nn"
    and "snd (queryServicePods fw C w nn) = None" "known_subsets fw C w nn = map Some subsets"
  shows "StaticMeta_String J (service_meta fw C w nn) |\<in>| fmdom q"
proof -
  have f: "fair (ch_left ch)" "fair (ch_right ch)" using assms(1) by auto
  obtain v where "cmap_Get M (interest r) (request_key nn) = Some v" using assms(6) by blast
  then have "(request_key nn, v) \<in> set (go_range (ch_left ch) (cmap_Items M (interest r)))"
    using f by (simp add: concurrent_mapD [OF assms(2)])
  then have "request_key nn \<in> fst ` set (go_range (ch_left ch) (cmap_Items M (interest r)))"
    by (rule rev_image_eqI) simp
  from ticker_loop_local [OF f(2) assms(3,4) assms(5) [unfolded handleTickerEvent_def] this assms(6)]
    assms(7-9)
  show ?thesis by (simp add: slash_free_def)
qed

subsection \<open>Two consequences of the state the controller keeps\<close>

text \<open>
  \<open>lastUpdatePolicy\<close> is one spec for all objects: the second of two objects with the same
  spec is taken for an update already seen, and gets no metrics.
\<close>

lemma same_spec_ignored:
  assumes "concurrent_map M" "request_key a \<noteq> request_key b"
    and "Get_SmartLimiter C w a = Inr sa" "Get_SmartLimiter C w b = Inr sb" "SL_Spec sa = SL_Spec sb"
    and "Env_RevInScope (r_env r) (IstioRevFromLabel fw (SL_Labels sa))"
    and "Env_RevInScope (r_env r) (IstioRevFromLabel fw (SL_Labels sb))"
    and "SL_Spec sa \<noteq> lastUpdatePolicy r" "cmap_Get M (interest r) (request_key b) = None"
  shows "\<exists>r'. Reconcile fw M C a (r, w) = Inr (r', w, None)
           \<and> cmap_Get M (interest r') (request_key a) = Some EmptyStruct
           \<and> Reconcile fw M C b (r', w) = Inr (r', w, None)
           \<and> cmap_Get M (interest r') (request_key b) = None"
  using assms Reconcile_present [OF assms(3,6), of M] Reconcile_present [OF assms(4), of _ fw M]
  by (simp add: concurrent_mapD [OF assms(1)])

text \<open>A metric that arrives after the deletion brings the entry of the object back.\<close>

lemma Refresh_after_delete:
  assumes "concurrent_map M" "Get_SmartLimiter C w nn = Inl err" "IsNotFound err"
    and "Reconcile fw M C nn (r, w) = Inr (r1, w, e)"
  shows "\<exists>r2. Refresh fw M C ch nn args (r1, w) = Inr (r2, w, None)
           \<and> info_at M (metricInfo r2) nn = Some args
           \<and> cmap_Get M (interest r2) (request_key nn) = None"
proof -
  note del = Reconcile_deleted [OF assms(2,3,4)]
  have "cmap_Get M (metricInfo r1) (request_key nn) = None"
    by (simp add: del concurrent_mapD [OF assms(1)])
  from update_metricInfo_new [OF assms(1) this, of "ch_left ch" args] obtain m where
    m: "update_metricInfo (ch_left ch) M nn args (metricInfo r1) = Inr m"
      "info_at M m nn = Some args" by blast
  then show ?thesis
    using assms(2,3) by (simp add: Refresh_def Let_def del concurrent_mapD [OF assms(1)])
qed

end
