(* ===== verification/Multicluster.thy ===== *)
theory Multicluster
  imports State
begin

section \<open>Member clusters: \<open>controllers/multicluster/controller.go\<close>\<close>

text \<open>
  The controller watches secrets whose data are kubeconfigs, one per member cluster, and keeps
  in \<open>cs\<close> which secret a cluster came from. The informer's handlers put the key of a secret
  into the work queue; \<open>processNextItem\<close> takes a key, looks the secret up in the informer's
  cache and adds or deletes its clusters. Subscribers are told of a new cluster's client,
  unsubscribers of a removed cluster's name.

  The Kubernetes libraries are parameters: the kubeconfig functions in the record
  \<open>clientcmd\<close>, the cache lookup \<open>GetByKey\<close>, and the rate-limiting queue in the record
  \<open>workqueue\<close>. The subscribers are functions on a state outside the controller, \<open>outer\<close>.
\<close>

definition maxRetries :: nat where "maxRetries = 3"

record Secret =
  Secret_Namespace :: string
  Secret_Data :: "string gomap"

text \<open>\<open>Load\<close>, \<open>Validate\<close>, \<open>ClientConfig\<close> and \<open>NewForConfig\<close>, over the types they pass on.\<close>

record ('cfg, 'rest, 'k) clientcmd =
  cc_Load :: "string \<Rightarrow> goerror + 'cfg"
  cc_Validate :: "'cfg \<Rightarrow> goerror option"
  cc_ClientConfig :: "'cfg \<Rightarrow> goerror + 'rest"
  cc_NewForConfig :: "'rest \<Rightarrow> goerror + 'k"

record ('k, 'x) Controller =
  cs :: "(string, string) fmap"
  subscriber :: "('k \<Rightarrow> 'x \<Rightarrow> 'x) list"
  unSubscriber :: "(string \<Rightarrow> 'x \<Rightarrow> 'x) list"
  outer :: "'x"

definition New ::
    "('k \<Rightarrow> 'x \<Rightarrow> 'x) list \<Rightarrow> (string \<Rightarrow> 'x \<Rightarrow> 'x) list \<Rightarrow> 'x \<Rightarrow> ('k, 'x) Controller" where
  "New subs unsubs x =
     \<lparr>cs = fmempty, subscriber = subs, unSubscriber = unsubs, outer = x\<rparr>"

definition subscribe_client :: "'k \<Rightarrow> ('k, 'x) Controller \<Rightarrow> ('k, 'x) Controller" where
  "subscribe_client k c = c\<lparr>outer := fold (\<lambda>f. f k) (subscriber c) (outer c)\<rparr>"

definition unsubscribe_cluster :: "string \<Rightarrow> ('k, 'x) Controller \<Rightarrow> ('k, 'x) Controller" where
  "unsubscribe_cluster clusterID c = c\<lparr>outer := fold (\<lambda>f. f clusterID) (unSubscriber c) (outer c)\<rparr>"

definition add_cluster ::
    "('cfg, 'rest, 'k) clientcmd \<Rightarrow> string \<Rightarrow> string \<times> string \<Rightarrow> ('k, 'x) Controller \<Rightarrow> ('k, 'x) Controller" where
  "add_cluster K secretName = (\<lambda>(clusterID, kubeConfig) c.
     case fmlookup (cs c) clusterID of
       Some _ \<Rightarrow> c
     | None \<Rightarrow>
         if length kubeConfig = 0 then c
         else (case cc_Load K kubeConfig of
                 Inl err \<Rightarrow> c
               | Inr clientConfig \<Rightarrow>
                   (case cc_Validate K clientConfig of
                      Some err \<Rightarrow> c
                    | None \<Rightarrow>
                        let c' = c\<lparr>cs := fmupd clusterID secretName (cs c)\<rparr>
                        in case cc_ClientConfig K clientConfig of
                             Inl err \<Rightarrow> c'
                           | Inr restConfig \<Rightarrow>
                               (case cc_NewForConfig K restConfig of
                                  Inl err \<Rightarrow> c'
                                | Inr k8sClient \<Rightarrow> subscribe_client k8sClient c'))))"

definition addMemberCluster ::
    "('cfg, 'rest, 'k) clientcmd \<Rightarrow> chooser \<Rightarrow> string \<Rightarrow> Secret \<Rightarrow> ('k, 'x) Controller \<Rightarrow> ('k, 'x) Controller" where
  "addMemberCluster K ch secretName s c =
     fold (add_cluster K secretName) (go_range ch (map_items (Secret_Data s))) c"

definition delete_cluster :: "string \<Rightarrow> string \<times> string \<Rightarrow> ('k, 'x) Controller \<Rightarrow> ('k, 'x) Controller" where
  "delete_cluster secretName = (\<lambda>(clusterID, cluster) c.
     if cluster = secretName
     then (let c' = unsubscribe_cluster clusterID c in c'\<lparr>cs := fmdrop clusterID (cs c')\<rparr>)
     else c)"

definition deleteMemberCluster :: "chooser \<Rightarrow> string \<Rightarrow> ('k, 'x) Controller \<Rightarrow> ('k, 'x) Controller" where
  "deleteMemberCluster ch secretName c =
     fold (delete_cluster secretName) (go_range ch (cs c)) c"

text \<open>\<open>GetByKey\<close> of the informer's indexer: an error, no object, or the secret.\<close>

definition processItem ::
    "('cfg, 'rest, 'k) clientcmd \<Rightarrow> chooser \<Rightarrow> (string \<Rightarrow> goerror + Secret option) \<Rightarrow> string
       \<Rightarrow> ('k, 'x) Controller \<Rightarrow> ('k, 'x) Controller \<times> goerror option" where
  "processItem K ch GetByKey secretName c =
     (case GetByKey secretName of
        Inl err \<Rightarrow> (c, Some (OtherError ''error fetching object''))
      | Inr None \<Rightarrow> (deleteMemberCluster ch secretName c, None)
      | Inr (Some s) \<Rightarrow> (addMemberCluster K ch secretName s c, None))"

subsection \<open>The work queue\<close>

record 'q workqueue =
  wq_Get :: "'q \<Rightarrow> (string \<times> 'q) option" \<comment> \<open>None when shutting down\<close>
  wq_Done :: "'q \<Rightarrow> string \<Rightarrow> 'q"
  wq_Forget :: "'q \<Rightarrow> string \<Rightarrow> 'q"
  wq_AddRateLimited :: "'q \<Rightarrow> string \<Rightarrow> 'q"
  wq_NumRequeues :: "'q \<Rightarrow> string \<Rightarrow> nat"
  wq_Add :: "'q \<Rightarrow> string \<Rightarrow> 'q"
  wq_ShutDown :: "'q \<Rightarrow> 'q"
  wq_ShuttingDown :: "'q \<Rightarrow> bool"
  wq_Len :: "'q \<Rightarrow> nat"

definition processNextItem ::
    "('cfg, 'rest, 'k) clientcmd \<Rightarrow> 'q workqueue \<Rightarrow> chooser \<Rightarrow> (string \<Rightarrow> goerror + Secret option)
       \<Rightarrow> 'q \<times> ('k, 'x) Controller \<Rightarrow> bool \<times> 'q \<times> ('k, 'x) Controller" where
  "processNextItem K W ch GetByKey = (\<lambda>(q, c).
     case wq_Get W q of
       None \<Rightarrow> (False, q, c)
     | Some (secretName, q1) \<Rightarrow>
         (case processItem K ch GetByKey secretName c of
            (c', err) \<Rightarrow>
              let q2 = (case err of
                          None \<Rightarrow> wq_Forget W q1 secretName
                        | Some e \<Rightarrow> if wq_NumRequeues W q1 secretName < maxRetries
                                    then wq_AddRateLimited W q1 secretName
                                    else wq_Forget W q1 secretName)
              in (True, wq_Done W q2 secretName, c')))"

text \<open>
  \<open>runWorker\<close> runs until the queue shuts down, which it need not do: the list gives, for each
  round, the order of the map range and what the informer's cache holds.
\<close>

fun runWorker ::
    "('cfg, 'rest, 'k) clientcmd \<Rightarrow> 'q workqueue \<Rightarrow> (chooser \<times> (string \<Rightarrow> goerror + Secret option)) list
       \<Rightarrow> 'q \<times> ('k, 'x) Controller \<Rightarrow> 'q \<times> ('k, 'x) Controller" where
  "runWorker K W [] s = s"
| "runWorker K W ((ch, GetByKey) # rounds) s =
     (case processNextItem K W ch GetByKey s of
        (True, s') \<Rightarrow> runWorker K W rounds s'
      | (False, s') \<Rightarrow> s')"

subsection \<open>The controller as a state machine\<close>

text \<open>
  The secrets of the root namespace, the keys in the queue, and the controller. The handlers
  the informer calls (\<open>AddFunc\<close> and \<open>DeleteFunc\<close> of \<open>New\<close>) put the key into the queue;
  there is none for updates.
\<close>

inductive member_step ::
    "('cfg, 'rest, 'k) clientcmd
       \<Rightarrow> (string \<Rightarrow> Secret option) \<times> string set \<times> ('k, 'x) Controller
       \<Rightarrow> (string \<Rightarrow> Secret option) \<times> string set \<times> ('k, 'x) Controller \<Rightarrow> bool"
  for K :: "('cfg, 'rest, 'k) clientcmd" where
  secret_added: "secrets key = None \<Longrightarrow>
     member_step K (secrets, queue, c) (secrets(key \<mapsto> s), insert key queue, c)"
| secret_updated: "secrets key \<noteq> None \<Longrightarrow>
     member_step K (secrets, queue, c) (secrets(key \<mapsto> s), queue, c)"
| secret_deleted:
     "member_step K (secrets, queue, c) (secrets(key := None), insert key queue, c)"
| item_processed: "key \<in> queue \<Longrightarrow> fair ch \<Longrightarrow>
     processItem K ch (\<lambda>k. Inr (secrets k)) key c = (c', err) \<Longrightarrow>
     member_step K (secrets, queue, c) (secrets, queue - {key}, c')"

inductive_cases member_stepE: "member_step K s t"

definition member_init ::
    "('k \<Rightarrow> 'x \<Rightarrow> 'x) list \<Rightarrow> (string \<Rightarrow> 'x \<Rightarrow> 'x) list \<Rightarrow> 'x
       \<Rightarrow> (string \<Rightarrow> Secret option) \<times> string set \<times> ('k, 'x) Controller \<Rightarrow> bool" where
  "member_init subs unsubs x s \<longleftrightarrow> s = ((\<lambda>_. None), {}, New subs unsubs x)"

subsection \<open>Which clusters are registered\<close>

text \<open>\<open>usable\<close>: the kubeconfig is not empty, parses and validates.\<close>

definition usable :: "('cfg, 'rest, 'k) clientcmd \<Rightarrow> string \<Rightarrow> bool" where
  "usable K kubeConfig \<longleftrightarrow>
     kubeConfig \<noteq> '''' \<and> (\<exists>cfg. cc_Load K kubeConfig = Inr cfg \<and> cc_Validate K cfg = None)"

definition client_of :: "('cfg, 'rest, 'k) clientcmd \<Rightarrow> string \<Rightarrow> 'k option" where
  "client_of K kubeConfig =
     (case cc_Load K kubeConfig of
        Inl _ \<Rightarrow> None
      | Inr cfg \<Rightarrow> (case cc_ClientConfig K cfg of
           Inl _ \<Rightarrow> None
         | Inr rest \<Rightarrow> (case cc_NewForConfig K rest of Inl _ \<Rightarrow> None | Inr k \<Rightarrow> Some k)))"

lemma add_cluster_eq:
  "add_cluster K s (i, kubeConfig) c =
     (if fmlookup (cs c) i \<noteq> None \<or> \<not> usable K kubeConfig then c
      else let c' = c\<lparr>cs := fmupd i s (cs c)\<rparr>
           in case client_of K kubeConfig of None \<Rightarrow> c' | Some k \<Rightarrow> subscribe_client k c')"
  by (auto simp: add_cluster_def usable_def client_of_def Let_def split: option.splits sum.splits)

lemma cs_subscribe_client [simp]: "cs (subscribe_client k c) = cs c"
  by (simp add: subscribe_client_def)

lemma cs_unsubscribe_cluster [simp]: "cs (unsubscribe_cluster i c) = cs c"
  by (simp add: unsubscribe_cluster_def)

lemma cs_add_cluster:
  "cs (add_cluster K s (i, kubeConfig) c) =
     (if fmlookup (cs c) i = None \<and> usable K kubeConfig then fmupd i s (cs c) else cs c)"
  by (auto simp: add_cluster_eq Let_def split: option.split)

lemma cs_add_clusters:
  "distinct (map fst kvs) \<Longrightarrow>
     fmlookup (cs (fold (add_cluster K s) kvs c)) i =
       (case fmlookup (cs c) i of
          Some s' \<Rightarrow> Some s'
        | None \<Rightarrow> (case map_of kvs i of
             None \<Rightarrow> None | Some kubeConfig \<Rightarrow> if usable K kubeConfig then Some s else None))"
proof (induction kvs arbitrary: c)
  case (Cons kv kvs)
  obtain j kubeConfig where kv: "kv = (j, kubeConfig)" by (cases kv)
  with Cons.prems have "map_of kvs j = None" by (simp add: map_of_eq_None_iff)
  with Cons kv show ?case by (auto simp: cs_add_cluster split: option.split)
qed (auto split: option.split)

lemma addMemberCluster_cs:
  assumes "fair ch"
  shows "fmlookup (cs (addMemberCluster K ch s secret c)) i =
           (case fmlookup (cs c) i of
              Some s' \<Rightarrow> Some s'
            | None \<Rightarrow> (case map_get (Secret_Data secret) i of
                 None \<Rightarrow> None | Some kubeConfig \<Rightarrow> if usable K kubeConfig then Some s else None))"
  using assms by (simp add: addMemberCluster_def cs_add_clusters split: option.split)

text \<open>Registering twice registers nothing new and tells the subscribers nothing.\<close>

lemma add_clusters_idle:
  "(\<And>i kubeConfig. (i, kubeConfig) \<in> set kvs \<Longrightarrow>
      fmlookup (cs c) i \<noteq> None \<or> \<not> usable K kubeConfig) \<Longrightarrow>
     fold (add_cluster K s) kvs c = c"
proof (induction kvs)
  case (Cons kv kvs)
  obtain i kubeConfig where kv: "kv = (i, kubeConfig)" by (cases kv)
  have "add_cluster K s (i, kubeConfig) c = c"
    using Cons.prems [of i kubeConfig] kv by (simp add: add_cluster_eq)
  with Cons kv show ?case by simp
qed simp

lemma addMemberCluster_idem:
  assumes "fair ch" "fair ch'"
  shows "addMemberCluster K ch' s' secret (addMemberCluster K ch s secret c)
           = addMemberCluster K ch s secret c"
  unfolding addMemberCluster_def [of K ch']
  using assms by (intro add_clusters_idle)
    (auto simp: addMemberCluster_cs [OF assms(1)] split: option.split)

text \<open>The subscribers get the client of each newly registered cluster, in the order of the range.\<close>

definition new_clients :: "('cfg, 'rest, 'k) clientcmd \<Rightarrow> (string \<times> string) list \<Rightarrow> (string, string) fmap \<Rightarrow> 'k list" where
  "new_clients K kvs registered =
     List.map_filter (\<lambda>(i, kubeConfig).
       if fmlookup registered i = None \<and> usable K kubeConfig then client_of K kubeConfig else None) kvs"

lemma new_clients_cong:
  "(\<And>i. i \<in> fst ` set kvs \<Longrightarrow> fmlookup r i = fmlookup r' i) \<Longrightarrow> new_clients K kvs r = new_clients K kvs r'"
proof (induction kvs)
  case (Cons kv kvs)
  obtain i kubeConfig where kv: "kv = (i, kubeConfig)" by (cases kv)
  have "new_clients K kvs r = new_clients K kvs r'" using Cons by simp
  moreover have "fmlookup r i = fmlookup r' i" using Cons.prems kv by simp
  ultimately show ?case by (simp add: kv new_clients_def split: option.split)
qed (simp add: new_clients_def)

lemma subscriber_add_cluster [simp]: "subscriber (add_cluster K s kv c) = subscriber c"
  by (cases kv) (simp add: add_cluster_eq subscribe_client_def Let_def split: option.split)

lemma add_clusters_outer:
  "distinct (map fst kvs) \<Longrightarrow>
     outer (fold (add_cluster K s) kvs c) =
       fold (\<lambda>k x. fold (\<lambda>f. f k) (subscriber c) x) (new_clients K kvs (cs c)) (outer c)"
proof (induction kvs arbitrary: c)
  case (Cons kv kvs)
  obtain i kubeConfig where kv: "kv = (i, kubeConfig)" by (cases kv)
  let ?c = "add_cluster K s (i, kubeConfig) c"
  have "new_clients K kvs (cs ?c) = new_clients K kvs (cs c)"
    using Cons.prems kv by (intro new_clients_cong) (auto simp: cs_add_cluster)
  with Cons kv show ?case
    by (simp add: new_clients_def add_cluster_eq subscribe_client_def Let_def
        split: option.split)
qed (simp add: new_clients_def)

subsection \<open>Removal\<close>

lemma delete_cluster_eq:
  "delete_cluster s (i, cluster) c =
     (if cluster = s then (unsubscribe_cluster i c)\<lparr>cs := fmdrop i (cs c)\<rparr> else c)"
  by (simp add: delete_cluster_def Let_def)

lemma delete_clusters:
  "distinct (map fst kvs) \<Longrightarrow>
     fmlookup (cs (fold (delete_cluster s) kvs c)) i =
       (if map_of kvs i = Some s then None else fmlookup (cs c) i)"
proof (induction kvs arbitrary: c)
  case (Cons kv kvs)
  obtain j cluster where kv: "kv = (j, cluster)" by (cases kv)
  with Cons.prems have "map_of kvs j = None" by (simp add: map_of_eq_None_iff)
  with Cons kv show ?case by (auto simp: delete_cluster_eq)
qed simp

lemma deleteMemberCluster_cs:
  assumes "fair ch"
  shows "fmlookup (cs (deleteMemberCluster ch s c)) i =
           (if fmlookup (cs c) i = Some s then None else fmlookup (cs c) i)"
  using assms by (simp add: deleteMemberCluster_def delete_clusters)

text \<open>The unsubscribers are called once for each cluster of the secret, and for no other.\<close>

lemma delete_clusters_outer:
  "unSubscriber c = us \<Longrightarrow>
     outer (fold (delete_cluster s) kvs c) =
       fold (\<lambda>i x. fold (\<lambda>f. f i) us x) (map fst (filter (\<lambda>(i, cl). cl = s) kvs)) (outer c)"
proof (induction kvs arbitrary: c)
  case (Cons kv kvs)
  then show ?case
    by (cases kv) (auto simp: delete_cluster_eq unsubscribe_cluster_def)
qed simp

subsection \<open>The queue\<close>

text \<open>How a rate-limiting work queue counts: per item, until the item is forgotten.\<close>

definition counts_requeues :: "'q workqueue \<Rightarrow> bool" where
  "counts_requeues W \<longleftrightarrow>
     (\<forall>q k q'. wq_Get W q = Some (k, q') \<longrightarrow> wq_NumRequeues W q' = wq_NumRequeues W q)
   \<and> (\<forall>q k. wq_NumRequeues W (wq_Done W q k) = wq_NumRequeues W q)
   \<and> (\<forall>q k. wq_NumRequeues W (wq_Forget W q k) = (wq_NumRequeues W q)(k := 0))
   \<and> (\<forall>q k. wq_NumRequeues W (wq_AddRateLimited W q k)
              = (wq_NumRequeues W q)(k := Suc (wq_NumRequeues W q k)))"

lemma processNextItem_requeues:
  assumes "counts_requeues W" "processNextItem K W ch GetByKey (q, c) = (ok, q', c')"
    and "\<forall>k. wq_NumRequeues W q k \<le> maxRetries"
  shows "\<forall>k. wq_NumRequeues W q' k \<le> maxRetries"
proof (cases "wq_Get W q")
  case None
  with assms show ?thesis by (simp add: processNextItem_def)
next
  case (Some kq)
  obtain k q1 where kq: "kq = (k, q1)" by (cases kq)
  have laws: "wq_NumRequeues W q1 = wq_NumRequeues W q"
    "wq_NumRequeues W (wq_Done W p j) = wq_NumRequeues W p"
    "wq_NumRequeues W (wq_Forget W p j) = (wq_NumRequeues W p)(j := 0)"
    "wq_NumRequeues W (wq_AddRateLimited W p j) = (wq_NumRequeues W p)(j := Suc (wq_NumRequeues W p j))"
    for p j
    using assms(1) Some kq unfolding counts_requeues_def by blast+
  obtain c2 err where item: "processItem K ch GetByKey k c = (c2, err)" by fastforce
  show ?thesis
    using assms(2,3) Some kq item
    by (cases err) (auto simp: processNextItem_def Let_def laws split: if_splits)
qed

lemma runWorker_requeues:
  assumes "counts_requeues W"
  shows "\<forall>k. wq_NumRequeues W (fst s) k \<le> maxRetries \<Longrightarrow> 
    \<forall>k. wq_NumRequeues W (fst (runWorker K W rounds s)) k \<le> maxRetries"
proof (induction rounds arbitrary: s)
  case (Cons round rounds)
  obtain ch GetByKey where round: "round = (ch, GetByKey)" by (cases round)
  obtain ok q' c' where next_item: "processNextItem K W ch GetByKey s = (ok, q', c')"
    by (cases "processNextItem K W ch GetByKey s") auto
  have "\<forall>k. wq_NumRequeues W (fst (q', c')) k \<le> maxRetries"
    using processNextItem_requeues [OF assms, of K ch GetByKey "fst s" "snd s"] next_item Cons.prems
    by simp
  with Cons.IH [OF this] next_item round show ?case by (cases ok) simp_all
qed simp

text \<open>An item that cannot be fetched is put back until it has been put back three times.\<close>

lemma processNextItem_error:
  assumes "wq_Get W q = Some (k, q1)" "GetByKey k = Inl err"
  shows "processNextItem K W ch GetByKey (q, c) =
           (True, wq_Done W (if wq_NumRequeues W q1 k < 3 then wq_AddRateLimited W q1 k
                             else wq_Forget W q1 k) k, c)"
  using assms by (simp add: processNextItem_def processItem_def maxRetries_def Let_def)

subsection \<open>The invariant\<close>

text \<open>
  Every registered cluster belongs to a secret that exists or whose key is in the queue.
\<close>

definition member_inv :: "(string \<Rightarrow> Secret option) \<times> string set \<times> ('k, 'x) Controller \<Rightarrow> bool" where
  "member_inv = (\<lambda>(secrets, queue, c).
     \<forall>i s. fmlookup (cs c) i = Some s \<longrightarrow> s \<in> queue \<or> secrets s \<noteq> None)"

lemma member_inv_processed:
  assumes "member_inv (secrets, queue, c)" "fair ch"
    and "processItem K ch (\<lambda>k. Inr (secrets k)) key c = (c', err)"
  shows "member_inv (secrets, queue - {key}, c')"
proof (cases "secrets key")
  case None
  with assms(3) have "c' = deleteMemberCluster ch key c" by (simp add: processItem_def)
  with assms(1) None show ?thesis
    by (auto simp: member_inv_def deleteMemberCluster_cs [OF assms(2)] split: if_splits)
next
  case (Some s)
  with assms(3) have "c' = addMemberCluster K ch key s c" by (simp add: processItem_def)
  with assms(1) Some show ?thesis
    by (fastforce simp: member_inv_def addMemberCluster_cs [OF assms(2)]
        split: option.splits if_splits)
qed

lemma member_step_inv: "member_step K s t \<Longrightarrow> member_inv s \<Longrightarrow> member_inv t"
  by (elim member_stepE) (simp_all add: member_inv_processed, auto simp: member_inv_def)

lemma member_init_inv: "member_init subs unsubs x s \<Longrightarrow> member_inv s"
  by (simp add: member_init_def member_inv_def New_def)

interpretation members: inductive_invariant "member_init subs unsubs x" "member_step K" member_inv
  for subs :: "('k \<Rightarrow> 'x \<Rightarrow> 'x) list" and unsubs x and K :: "('cfg, 'rest, 'k) clientcmd"
  by unfold_locales (erule member_init_inv, erule (1) member_step_inv)

lemma registered_clusters_have_secrets:
  assumes "reachable (member_init subs unsubs x) (member_step K) (secrets, queue, c)"
    and "fmlookup (cs c) i = Some s"
  shows "secrets s \<noteq> None \<or> s \<in> queue"
  using members.reachable_inv [OF assms(1)] assms(2) by (auto simp: member_inv_def)

end
