(* ===== verification/Store.thy ===== *)
theory Store
  imports ApiTypes
begin

section \<open>Memory\<close>

text \<open>
  The memory the API objects live in, for the deep copies of
  \<open>src/api/v1alpha2/zz_generated.deepcopy.go\<close>. An address is a number; every kind of object
  has its own function from addresses to contents, and \<open>lim\<close> is the first address not
  allocated yet. A slice is nil or the address of its array, a Go map nil or the address of
  its entries. The types of \<open>ObjectMeta\<close> and \<open>ListMeta\<close>, which are not of this program, are
  the parameters \<open>'m\<close> and \<open>'l\<close>.
\<close>

type_synonym addr = nat

subsection \<open>Objects\<close>

record XXX_fields =
  XXX_unrecognized :: "addr option"
  XXX_sizecache :: "32 word"

record Duration_obj =
  do_Duration :: Duration
  do_XXX :: XXX_fields

record HeaderMatcher_obj =
  ho_HeaderMatcher :: HeaderMatcher
  ho_XXX :: XXX_fields

record Action_obj =
  ao_Quota :: string
  ao_FillInterval :: "addr option"
  ao_Strategy :: string
  ao_XXX :: XXX_fields

record Target_obj =
  to_Direction :: string
  to_Port :: "32 word"
  to_Route :: "addr option"
  to_Host :: "addr option"
  to_XXX :: XXX_fields

record Descriptor_obj =
  so_Condition :: string
  so_Action :: "addr option"
  so_Match :: "addr option"
  so_Target :: "addr option"
  so_CustomKey :: string
  so_CustomValue :: string
  so_XXX :: XXX_fields

record Descriptors_obj =
  dso_Descriptor :: "addr option"
  dso_XXX :: XXX_fields

record Spec_obj =
  po_Sets :: "addr option"
  po_Rls :: string
  po_XXX :: XXX_fields

record Status_obj =
  uo_RatelimitStatus :: "addr option"
  uo_MetricStatus :: "addr option"
  uo_XXX :: XXX_fields

record Limiter_obj =
  lo_Backend :: "32 word"
  lo_Refresh :: "addr option"
  lo_DisableGlobalRateLimit :: bool
  lo_DisableAdaptive :: bool
  lo_EnableServiceEntry :: bool
  lo_XXX :: XXX_fields

record TypeMeta =
  tm_Kind :: string
  tm_APIVersion :: string

record 'm SmartLimiter_obj =
  mo_TypeMeta :: TypeMeta
  mo_ObjectMeta :: 'm
  mo_Spec :: Spec_obj
  mo_Status :: Status_obj

record 'l SmartLimiterList_obj =
  io_TypeMeta :: TypeMeta
  io_ListMeta :: 'l
  io_Items :: "addr option"

subsection \<open>The store\<close>

record ('m, 'l) store =
  lim :: addr
  bytes_cell :: "addr \<Rightarrow> 8 word list"
  strings_cell :: "addr \<Rightarrow> string list"
  strmap_cell :: "addr \<Rightarrow> (string, string) fmap"
  time_cell :: "addr \<Rightarrow> 64 word"
  duration_cell :: "addr \<Rightarrow> Duration_obj"
  matcher_cell :: "addr \<Rightarrow> HeaderMatcher_obj"
  matchers_cell :: "addr \<Rightarrow> addr option list"
  action_cell :: "addr \<Rightarrow> Action_obj"
  target_cell :: "addr \<Rightarrow> Target_obj"
  descriptor_cell :: "addr \<Rightarrow> Descriptor_obj"
  pointers_cell :: "addr \<Rightarrow> addr option list"
  descriptors_cell :: "addr \<Rightarrow> Descriptors_obj"
  sets_cell :: "addr \<Rightarrow> (string, addr option) fmap"
  spec_cell :: "addr \<Rightarrow> Spec_obj"
  status_cell :: "addr \<Rightarrow> Status_obj"
  config_cell :: "addr \<Rightarrow> Limiter_obj"
  limiter_cell :: "addr \<Rightarrow> 'm SmartLimiter_obj"
  limiters_cell :: "addr \<Rightarrow> 'm SmartLimiter_obj list"
  list_cell :: "addr \<Rightarrow> 'l SmartLimiterList_obj"

definition new :: "('m, 'l) store \<Rightarrow> addr \<times> ('m, 'l) store" where
  "new h = (lim h, h\<lparr>lim := Suc (lim h)\<rparr>)"

text \<open>Two stores that have the same objects at the addresses of a set.\<close>

definition agree :: "addr set \<Rightarrow> ('m, 'l) store \<Rightarrow> ('m, 'l) store \<Rightarrow> bool" where
  "agree S h s \<longleftrightarrow> (\<forall>a \<in> S.
     bytes_cell s a = bytes_cell h a \<and> strings_cell s a = strings_cell h a
   \<and> strmap_cell s a = strmap_cell h a \<and> time_cell s a = time_cell h a
   \<and> duration_cell s a = duration_cell h a \<and> matcher_cell s a = matcher_cell h a
   \<and> matchers_cell s a = matchers_cell h a \<and> action_cell s a = action_cell h a
   \<and> target_cell s a = target_cell h a \<and> descriptor_cell s a = descriptor_cell h a
   \<and> pointers_cell s a = pointers_cell h a \<and> descriptors_cell s a = descriptors_cell h a
   \<and> sets_cell s a = sets_cell h a \<and> spec_cell s a = spec_cell h a
   \<and> status_cell s a = status_cell h a \<and> config_cell s a = config_cell h a
   \<and> limiter_cell s a = limiter_cell h a \<and> limiters_cell s a = limiters_cell h a
   \<and> list_cell s a = list_cell h a)"

lemma agree_refl [simp]: "agree S h h"
  by (simp add: agree_def)

lemma agree_new [simp]: "agree S h (h\<lparr>lim := n\<rparr>)"
  by (simp add: agree_def)

lemma agree_trans: "agree S h s \<Longrightarrow> agree S s t \<Longrightarrow> agree S h t"
  by (simp add: agree_def)

lemma agree_subset: "agree S h s \<Longrightarrow> T \<subseteq> S \<Longrightarrow> agree T h s"
  unfolding agree_def by blast

subsection \<open>Cells\<close>

text \<open>One kind of object: how the store is read and written.\<close>

locale cell =
  fixes get :: "('m, 'l) store \<Rightarrow> addr \<Rightarrow> 'v"
    and upd :: "((addr \<Rightarrow> 'v) \<Rightarrow> addr \<Rightarrow> 'v) \<Rightarrow> ('m, 'l) store \<Rightarrow> ('m, 'l) store"
  assumes get_upd: "get (upd f h) = f (get h)"
    and lim_upd: "lim (upd f h) = lim h"
    and get_lim: "get (h\<lparr>lim := n\<rparr>) = get h"
    and get_agree: "agree S h s \<Longrightarrow> a \<in> S \<Longrightarrow> get s a = get h a"
    and upd_agree: "a \<notin> S \<Longrightarrow> agree S h (upd (\<lambda>c. c(a := v)) h)"

interpretation bytes: cell bytes_cell bytes_cell_update by unfold_locales (auto simp: agree_def)
interpretation strings: cell strings_cell strings_cell_update by unfold_locales (auto simp: agree_def)
interpretation strmaps: cell strmap_cell strmap_cell_update by unfold_locales (auto simp: agree_def)
interpretation times: cell time_cell time_cell_update by unfold_locales (auto simp: agree_def)
interpretation durations: cell duration_cell duration_cell_update by unfold_locales (auto simp: agree_def)
interpretation matchers: cell matcher_cell matcher_cell_update by unfold_locales (auto simp: agree_def)
interpretation matcher_arrays: cell matchers_cell matchers_cell_update by unfold_locales (auto simp: agree_def)
interpretation actions: cell action_cell action_cell_update by unfold_locales (auto simp: agree_def)
interpretation targets: cell target_cell target_cell_update by unfold_locales (auto simp: agree_def)
interpretation descriptors: cell descriptor_cell descriptor_cell_update by unfold_locales (auto simp: agree_def)
interpretation pointer_arrays: cell pointers_cell pointers_cell_update by unfold_locales (auto simp: agree_def)
interpretation descriptor_lists: cell descriptors_cell descriptors_cell_update by unfold_locales (auto simp: agree_def)
interpretation set_maps: cell sets_cell sets_cell_update by unfold_locales (auto simp: agree_def)
interpretation specs: cell spec_cell spec_cell_update by unfold_locales (auto simp: agree_def)
interpretation statuses: cell status_cell status_cell_update by unfold_locales (auto simp: agree_def)
interpretation configs: cell config_cell config_cell_update by unfold_locales (auto simp: agree_def)
interpretation limiter_objects: cell limiter_cell limiter_cell_update by unfold_locales (auto simp: agree_def)
interpretation limiter_arrays: cell limiters_cell limiters_cell_update by unfold_locales (auto simp: agree_def)
interpretation limiter_lists: cell list_cell list_cell_update by unfold_locales (auto simp: agree_def)

subsection \<open>What a deep copy promises\<close>

text \<open>
  \<open>val\<close> is the value an object stands for, \<open>own\<close> the addresses a deep copy duplicates and
  \<open>shared\<close> those it does not.
\<close>

definition well_copied ::
    "(('m, 'l) store \<Rightarrow> 'v \<Rightarrow> 'a) \<Rightarrow> (('m, 'l) store \<Rightarrow> 'v \<Rightarrow> addr set) \<Rightarrow> (('m, 'l) store \<Rightarrow> 'v \<Rightarrow> addr set)
       \<Rightarrow> ('m, 'l) store \<Rightarrow> 'v \<Rightarrow> ('m, 'l) store \<Rightarrow> 'v \<Rightarrow> bool" where
  "well_copied val own shared h v h' v' \<longleftrightarrow>
     lim h \<le> lim h' \<and> agree {..<lim h} h h' \<and> val h' v' = val h v
   \<and> own h' v' \<subseteq> {lim h..<lim h'} \<and> shared h' v' = shared h v"

locale framed =
  fixes val :: "('m, 'l) store \<Rightarrow> 'v \<Rightarrow> 'a"
    and own shared :: "('m, 'l) store \<Rightarrow> 'v \<Rightarrow> addr set"
  assumes frame: "agree S h s \<Longrightarrow> own h v \<subseteq> S \<Longrightarrow> shared h v \<subseteq> S \<Longrightarrow>
      val s v = val h v \<and> own s v = own h v \<and> shared s v = shared h v"
begin

lemma new_frame: "val (h\<lparr>lim := n\<rparr>) v = val h v" "own (h\<lparr>lim := n\<rparr>) v = own h v"
    "shared (h\<lparr>lim := n\<rparr>) v = shared h v"
  using frame [OF agree_new, of h v UNIV n] by simp_all

end

locale copier = framed +
  fixes copy :: "'v \<Rightarrow> ('m, 'l) store \<Rightarrow> 'v \<times> ('m, 'l) store"
  assumes copies: "own h v \<subseteq> {..<lim h} \<Longrightarrow> shared h v \<subseteq> {..<lim h} \<Longrightarrow>
      copy v h = (v', h') \<Longrightarrow> well_copied val own shared h v h' v'"

end
