(* ===== verification/Copy.thy ===== *)
theory Copy
  imports Store
begin

section \<open>Copying\<close>

text \<open>
  The statements the generated copies are made of (an assignment, a loop over an array or a
  map, an allocation), and that each of them keeps the contract \<open>copier\<close>.
\<close>

subsection \<open>Copying structures\<close>

text \<open>\<open>*out = *in\<close> for a value without pointers.\<close>

definition copy_value :: "'v \<Rightarrow> ('m, 'l) store \<Rightarrow> 'v \<times> ('m, 'l) store" where
  "copy_value v h = (v, h)"

text \<open>\<open>*out = *in\<close> for a slice that is not duplicated: both then share the array.\<close>

definition copy_shared :: "addr option \<Rightarrow> ('m, 'l) store \<Rightarrow> addr option \<times> ('m, 'l) store" where
  "copy_shared p h = (p, h)"

text \<open>Fields are copied one after the other, the elements of an array likewise, from index \<open>i\<close> on.\<close>

definition copy_pair ::
    "('v \<Rightarrow> ('m, 'l) store \<Rightarrow> 'v \<times> ('m, 'l) store) \<Rightarrow> ('w \<Rightarrow> ('m, 'l) store \<Rightarrow> 'w \<times> ('m, 'l) store)
       \<Rightarrow> 'v \<times> 'w \<Rightarrow> ('m, 'l) store \<Rightarrow> ('v \<times> 'w) \<times> ('m, 'l) store" where
  "copy_pair c d = (\<lambda>(v, w) h.
     case c v h of (v', h1) \<Rightarrow> case d w h1 of (w', h2) \<Rightarrow> ((v', w'), h2))"

fun copy_elements ::
    "(nat \<Rightarrow> 'v \<Rightarrow> ('m, 'l) store \<Rightarrow> 'v \<times> ('m, 'l) store) \<Rightarrow> nat \<Rightarrow> 'v list \<Rightarrow> ('m, 'l) store
       \<Rightarrow> 'v list \<times> ('m, 'l) store" where
  "copy_elements c i [] h = ([], h)"
| "copy_elements c i (v # vs) h =
     (case c i v h of (v', h1) \<Rightarrow> case copy_elements c (Suc i) vs h1 of (vs', h2) \<Rightarrow> (v' # vs', h2))"

text \<open>\<open>for key, val := range *in\<close>, with the copies of the values put into a new map.\<close>

definition copy_entries ::
    "('v \<Rightarrow> ('m, 'l) store \<Rightarrow> 'v \<times> ('m, 'l) store) \<Rightarrow> chooser \<Rightarrow> (string, 'v) fmap \<Rightarrow> ('m, 'l) store
       \<Rightarrow> (string, 'v) fmap \<times> ('m, 'l) store" where
  "copy_entries c ch m h =
     (case copy_elements (\<lambda>i. copy_pair copy_value c) 0 (go_range ch m) h of
        (kvs, h') \<Rightarrow> (put_all kvs fmempty, h'))"

text \<open>nil stays nil; otherwise a new object is allocated and the copy written into it.\<close>

definition copy_pointer ::
    "(('m, 'l) store \<Rightarrow> addr \<Rightarrow> 'v) \<Rightarrow> (((addr \<Rightarrow> 'v) \<Rightarrow> addr \<Rightarrow> 'v) \<Rightarrow> ('m, 'l) store \<Rightarrow> ('m, 'l) store)
       \<Rightarrow> ('v \<Rightarrow> ('m, 'l) store \<Rightarrow> 'v \<times> ('m, 'l) store)
       \<Rightarrow> addr option \<Rightarrow> ('m, 'l) store \<Rightarrow> addr option \<times> ('m, 'l) store" where
  "copy_pointer get upd c p h =
     (case p of
        None \<Rightarrow> (None, h)
      | Some a \<Rightarrow>
          (case new h of (b, h1) \<Rightarrow>
           case c (get h1 a) h1 of (v, h2) \<Rightarrow> (Some b, upd (\<lambda>f. f(b := v)) h2)))"

subsection \<open>Their contracts\<close>

lemma copier_value: "copier (\<lambda>h. f) (\<lambda>h v. {}) (\<lambda>h v. {}) copy_value"
  by unfold_locales (auto simp: copy_value_def well_copied_def)

lemma copier_shared:
  "copier (\<lambda>h. map_option (strings_cell h)) (\<lambda>h v. {}) (\<lambda>h. set_option) copy_shared"
  by unfold_locales (auto simp: copy_shared_def well_copied_def agree_def map_option_case split: option.split)

lemma copier_framed: "copier val own shared c \<Longrightarrow> framed val own shared"
  by (rule copier.axioms(1))

lemma well_copied_bound:
  assumes "well_copied val own shared h v h' v'" "shared h v \<subseteq> {..<lim h}"
  shows "own h' v' \<subseteq> {..<lim h'}" "shared h' v' \<subseteq> {..<lim h'}"
  using assms by (auto simp: well_copied_def)

text \<open>After \<open>v\<close> has been copied and then \<open>w\<close>, both are well copied.\<close>

lemma copy_both:
  assumes "copier val1 own1 shared1 c" "framed val2 own2 shared2"
    and "own1 h v \<subseteq> {..<lim h}" "shared1 h v \<subseteq> {..<lim h}"
    and "own2 h w \<subseteq> {..<lim h}" "shared2 h w \<subseteq> {..<lim h}"
    and "c v h = (v', h1)"
    and "own2 h1 w \<subseteq> {..<lim h1} \<Longrightarrow> shared2 h1 w \<subseteq> {..<lim h1} \<Longrightarrow>
           well_copied val2 own2 shared2 h1 w h2 w'"
  shows "well_copied val1 own1 shared1 h v h2 v'" "well_copied val2 own2 shared2 h w h2 w'"
proof -
  have first: "well_copied val1 own1 shared1 h v h1 v'"
    using copier.copies [OF assms(1,3,4,7)] .
  then have grown: "lim h \<le> lim h1" "agree {..<lim h} h h1" by (simp_all add: well_copied_def)
  have w: "val2 h1 w = val2 h w" "own2 h1 w = own2 h w" "shared2 h1 w = shared2 h w"
    using framed.frame [OF assms(2) grown(2) assms(5,6)] by simp_all
  have "own2 h1 w \<subseteq> {..<lim h1}" "shared2 h1 w \<subseteq> {..<lim h1}"
    using w assms(5,6) grown(1) by auto
  from assms(8) [OF this] have second: "well_copied val2 own2 shared2 h1 w h2 w'" .
  then have grown2: "lim h1 \<le> lim h2" "agree {..<lim h1} h1 h2" by (simp_all add: well_copied_def)
  have agree: "agree {..<lim h} h h2"
    using grown(2) agree_subset [OF grown2(2)] grown(1) by (auto intro: agree_trans)
  have v: "val1 h2 v' = val1 h1 v'" "own1 h2 v' = own1 h1 v'" "shared1 h2 v' = shared1 h1 v'"
    using framed.frame [OF copier_framed [OF assms(1)] grown2(2) well_copied_bound [OF first assms(4)]]
    by simp_all
  show "well_copied val1 own1 shared1 h v h2 v'"
    using first v agree grown2(1) unfolding well_copied_def by auto
  show "well_copied val2 own2 shared2 h w h2 w'"
    using second w agree grown(1) grown2(1) unfolding well_copied_def by auto
qed

lemma copier_pair:
  assumes "copier val1 own1 shared1 c" "copier val2 own2 shared2 d"
  shows "copier (\<lambda>h (v, w). (val1 h v, val2 h w))
           (\<lambda>h (v, w). own1 h v \<union> own2 h w) (\<lambda>h (v, w). shared1 h v \<union> shared2 h w) (copy_pair c d)"
proof (unfold_locales, goal_cases)
  case (1 S h s vw)
  then show ?case
    using framed.frame [OF copier_framed [OF assms(1)] 1(1)]
      framed.frame [OF copier_framed [OF assms(2)] 1(1)] by (cases vw) auto
next
  case (2 h vw vw' h2)
  obtain v w where vw: "vw = (v, w)" by (cases vw)
  obtain v' h1 where v': "c v h = (v', h1)" by fastforce
  obtain w' where w': "d w h1 = (w', h2)" "vw' = (v', w')"
    using 2(3) v' by (auto simp: copy_pair_def vw split: prod.splits)
  have "own1 h v \<subseteq> {..<lim h}" "shared1 h v \<subseteq> {..<lim h}"
    "own2 h w \<subseteq> {..<lim h}" "shared2 h w \<subseteq> {..<lim h}"
    using 2(1,2) by (auto simp: vw)
  from copy_both [OF assms(1) copier_framed [OF assms(2)] this v' copier.copies [OF assms(2) _ _ w'(1)]]
  show ?case by (simp add: vw w'(2) well_copied_def)
qed

definition each_elem :: "(('m, 'l) store \<Rightarrow> 'v \<Rightarrow> addr set) \<Rightarrow> ('m, 'l) store \<Rightarrow> 'v list \<Rightarrow> addr set" where
  "each_elem f h vs = (\<Union>v \<in> set vs. f h v)"

lemma copier_elements:
  assumes "\<And>i. copier val own shared (c i)"
  shows "copier (\<lambda>h. map (val h)) (each_elem own) (each_elem shared) (copy_elements c i)"
    (is "copier ?val _ _ _")
  unfolding each_elem_def [abs_def]
proof -
  let ?own = "\<lambda>h vs. \<Union>v \<in> set vs. own h v" and ?shared = "\<lambda>h vs. \<Union>v \<in> set vs. shared h v"
  have fr: "framed ?val ?own ?shared"
  proof (unfold_locales, goal_cases)
    case (1 S h s vs)
    have "val s v = val h v \<and> own s v = own h v \<and> shared s v = shared h v" if "v \<in> set vs" for v
      using that 1(2,3) by (intro framed.frame [OF copier_framed [OF assms] 1(1)]) auto
    then show ?case by simp
  qed
  moreover have "well_copied ?val ?own ?shared h vs h' vs'"
    if "?own h vs \<subseteq> {..<lim h}" "?shared h vs \<subseteq> {..<lim h}" "copy_elements c i vs h = (vs', h')" for h vs vs' h' i
    using that
  proof (induction vs arbitrary: h vs' i)
    case (Cons v vs)
    obtain v' h1 ws where run: "c i v h = (v', h1)" "copy_elements c (Suc i) vs h1 = (ws, h')" "vs' = v' # ws"
      using Cons.prems(3) by (auto split: prod.splits)
    have "own h v \<subseteq> {..<lim h}" "shared h v \<subseteq> {..<lim h}"
      "?own h vs \<subseteq> {..<lim h}" "?shared h vs \<subseteq> {..<lim h}" using Cons.prems(1,2) by auto
    from copy_both [OF assms fr this run(1) Cons.IH [OF _ _ run(2)]] show ?case
      by (simp add: run(3) well_copied_def)
  qed (simp add: well_copied_def)
  ultimately show "copier ?val ?own ?shared (copy_elements c i)" by (simp add: copier_def copier_axioms_def)
qed

text \<open>The contract of a structure that is copied field by field.\<close>

lemma copier_fields:
  assumes "copier val own shared c"
    and "\<And>v h. copy v h = (case c (sel v) h of (w, h') \<Rightarrow> (build v w, h'))"
    and "\<And>v w. sel (build v w) = w" "\<And>v w. mk (build v w) = mk v"
    and "\<And>h v. val' h v = mk v (val h (sel v))"
    and "\<And>h v. own' h v = own h (sel v)" "\<And>h v. shared' h v = shared h (sel v)"
  shows "copier val' own' shared' copy"
proof (unfold_locales, goal_cases)
  case (1 S h s v)
  then show ?case
    using framed.frame [OF copier_framed [OF assms(1)] 1(1), of "sel v"] by (simp add: assms(5-7))
next
  case (2 h v v' h')
  obtain w where w: "c (sel v) h = (w, h')" "v' = build v w"
    using 2(3) by (auto simp: assms(2) split: prod.splits)
  from copier.copies [OF assms(1) _ _ w(1)] 2(1,2) show ?case
    by (simp add: assms(3-7) w(2) well_copied_def)
qed

text \<open>A pointer owns the object it points to and what that object owns.\<close>

definition val_pointer :: "(('m, 'l) store \<Rightarrow> addr \<Rightarrow> 'v) \<Rightarrow> (('m, 'l) store \<Rightarrow> 'v \<Rightarrow> 'a)
    \<Rightarrow> ('m, 'l) store \<Rightarrow> addr option \<Rightarrow> 'a option" where
  "val_pointer get val h = map_option (\<lambda>a. val h (get h a))"

definition own_pointer :: "(('m, 'l) store \<Rightarrow> addr \<Rightarrow> 'v) \<Rightarrow> (('m, 'l) store \<Rightarrow> 'v \<Rightarrow> addr set)
    \<Rightarrow> ('m, 'l) store \<Rightarrow> addr option \<Rightarrow> addr set" where
  "own_pointer get own h p = (case p of None \<Rightarrow> {} | Some a \<Rightarrow> insert a (own h (get h a)))"

definition shared_pointer :: "(('m, 'l) store \<Rightarrow> addr \<Rightarrow> 'v) \<Rightarrow> (('m, 'l) store \<Rightarrow> 'v \<Rightarrow> addr set)
    \<Rightarrow> ('m, 'l) store \<Rightarrow> addr option \<Rightarrow> addr set" where
  "shared_pointer get shared h p = (case p of None \<Rightarrow> {} | Some a \<Rightarrow> shared h (get h a))"

lemma copier_pointer:
  assumes "cell get upd" "copier val own shared c"
  shows "copier (val_pointer get val) (own_pointer get own) (shared_pointer get shared)
           (copy_pointer get upd c)"
  unfolding val_pointer_def [abs_def] own_pointer_def [abs_def] shared_pointer_def [abs_def]
proof (unfold_locales, goal_cases)
  case (1 S h s p)
  note frame = framed.frame [OF copier_framed [OF assms(2)] 1(1)]
  from 1 show ?case
    using frame [of "get h (the p)"] cell.get_agree [OF assms(1) 1(1), of "the p"] by (cases p) auto
next
  case (2 h p p' h3)
  show ?case
  proof (cases p)
    case None
    with 2(3) show ?thesis by (auto simp: copy_pointer_def well_copied_def)
  next
    case (Some a)
    let ?h1 = "h\<lparr>lim := Suc (lim h)\<rparr>" and ?v = "get h a"
    obtain v' h2 where run: "c ?v ?h1 = (v', h2)" "p' = Some (lim h)"
      "h3 = upd (\<lambda>f. f(lim h := v')) h2"
      using 2(3) Some by (auto simp: copy_pointer_def new_def cell.get_lim [OF assms(1)] split: prod.splits)
    note same = framed.new_frame [OF copier_framed [OF assms(2)]]
    have "own ?h1 ?v \<subseteq> {..<lim ?h1}" "shared ?h1 ?v \<subseteq> {..<lim ?h1}"
      using 2(1,2) Some by (auto simp: same)
    from copier.copies [OF assms(2) this run(1)] have inner:
      "Suc (lim h) \<le> lim h2" "agree {..<Suc (lim h)} ?h1 h2" "val h2 v' = val h ?v"
      "own h2 v' \<subseteq> {Suc (lim h)..<lim h2}" "shared h2 v' = shared h ?v"
      by (simp_all add: well_copied_def same)
    have "agree {..<lim h} ?h1 h2" by (rule agree_subset [OF inner(2)]) auto
    with agree_new have "agree {..<lim h} h h2" by (rule agree_trans)
    moreover have "agree {..<lim h} h2 h3"
      unfolding run(3) by (rule cell.upd_agree [OF assms(1)]) simp
    ultimately have agree: "agree {..<lim h} h h3" by (rule agree_trans)
    have "agree (- {lim h}) h2 h3"
      unfolding run(3) by (rule cell.upd_agree [OF assms(1)]) simp
    moreover have "own h2 v' \<subseteq> - {lim h}" "shared h2 v' \<subseteq> - {lim h}"
      using inner(4,5) 2(2) Some by auto
    ultimately have "val h3 v' = val h2 v' \<and> own h3 v' = own h2 v' \<and> shared h3 v' = shared h2 v'"
      by (rule framed.frame [OF copier_framed [OF assms(2)]])
    moreover have "get h3 (lim h) = v'" "lim h3 = lim h2"
      by (simp_all add: run(3) cell.get_upd [OF assms(1)] cell.lim_upd [OF assms(1)])
    ultimately show ?thesis
      using inner agree by (auto simp: well_copied_def Some run(2))
  qed
qed

definition each_entry :: "(('m, 'l) store \<Rightarrow> 'v \<Rightarrow> addr set) \<Rightarrow> ('m, 'l) store \<Rightarrow> (string, 'v) fmap \<Rightarrow> addr set" where
  "each_entry f h m = (\<Union>v \<in> {v. \<exists>k. fmlookup m k = Some v}. f h v)"

lemma copier_entries:
  assumes "fair ch" "copier val own shared c"
  shows "copier (\<lambda>h. fmmap (val h)) (each_entry own) (each_entry shared) (copy_entries c ch)"
  unfolding each_entry_def [abs_def]
proof (unfold_locales, goal_cases)
  case (1 S h s m)
  have "val s v = val h v \<and> own s v = own h v \<and> shared s v = shared h v" if "fmlookup m k = Some v" for k v
    using that 1(2,3) by (intro framed.frame [OF copier_framed [OF assms(2)] 1(1)]) blast+
  then have same: "\<forall>k v. fmlookup m k = Some v \<longrightarrow>
    val s v = val h v \<and> own s v = own h v \<and> shared s v = shared h v" by blast
  then have "fmmap (val s) m = fmmap (val h) m"
    by (intro fmap_ext) (auto simp: map_option_case split: option.split)
  moreover have "(\<Union>v \<in> {v. \<exists>k. fmlookup m k = Some v}. own s v)
      = (\<Union>v \<in> {v. \<exists>k. fmlookup m k = Some v}. own h v)"
    "(\<Union>v \<in> {v. \<exists>k. fmlookup m k = Some v}. shared s v)
      = (\<Union>v \<in> {v. \<exists>k. fmlookup m k = Some v}. shared h v)"
    using same by (intro SUP_cong refl; blast)+
  ultimately show ?case by blast
next
  case (2 h m m' h')
  let ?items = "go_range ch m"
  note pairs = copier_elements [OF copier_pair [OF copier_value [of "\<lambda>k. k"] assms(2)],
      unfolded each_elem_def [abs_def]]
  obtain kvs where kvs: "copy_elements (\<lambda>i. copy_pair copy_value c) 0 ?items h = (kvs, h')"
    "m' = put_all kvs fmempty"
    using 2(3) by (auto simp: copy_entries_def split: prod.splits)
  have own: "(\<Union>x \<in> set ?items. case x of (k, v) \<Rightarrow> {} \<union> f v) = (\<Union>v \<in> {v. \<exists>k. fmlookup m k = Some v}. f v)"
    for f :: "_ \<Rightarrow> addr set" using assms(1) by auto
  have copied: "well_copied (\<lambda>h. map (\<lambda>(k, v). (k, val h v))) (\<lambda>h kvs. \<Union>x \<in> set kvs. case x of (k, v) \<Rightarrow> {} \<union> own h v)
      (\<lambda>h kvs. \<Union>x \<in> set kvs. case x of (k, v) \<Rightarrow> {} \<union> shared h v) h ?items h' kvs"
    using copier.copies [OF pairs _ _ kvs(1)] 2(1,2) unfolding own by blast
  then have vals: "map (\<lambda>(k, v). (k, val h' v)) kvs = map (\<lambda>(k, v). (k, val h v)) ?items"
    by (simp add: well_copied_def)
  have keys: "map fst kvs = map fst ?items"
    using arg_cong [OF vals, of "map fst"] by (simp add: comp_def case_prod_beta)
  then have distinct: "distinct (map fst kvs)" using assms(1) by simp
  then have lookup: "fmlookup m' k = map_of kvs k" for k
    by (simp add: kvs(2) fmlookup_put_all split: option.split)
  have contents: "{v. \<exists>k. fmlookup m' k = Some v} = snd ` set kvs"
    using distinct by (force simp: lookup image_iff)
  have "map_option (val h') (fmlookup m' k) = map_option (val h) (fmlookup m k)" for k
    using arg_cong [OF vals, of "\<lambda>xs. map_of xs k"] assms(1) by (simp add: lookup map_of_map)
  then have "fmmap (val h') m' = fmmap (val h) m" by (intro fmap_ext) simp
  moreover have "(\<Union>v \<in> snd ` set kvs. f v) = (\<Union>x \<in> set kvs. case x of (k, v) \<Rightarrow> {} \<union> f v)"
    for f :: "_ \<Rightarrow> addr set" by auto
  ultimately show ?case
    using copied unfolding well_copied_def contents own by simp
qed

subsection \<open>Copy and original\<close>

text \<open>
  What a deep copy of an object behind a pointer amounts to: the value is the same, what the
  copy owns is new, so that changes of the one are not seen through the other, and the
  arrays both share are those of the original.
\<close>

context copier begin

lemma copy_preserves:
  assumes "own h v \<subseteq> {..<lim h}" "shared h v \<subseteq> {..<lim h}" "copy v h = (v', h')"
  shows "val h' v' = val h v" "val h' v = val h v" "own h' v = own h v" "shared h' v = shared h v"
    "own h' v' \<subseteq> {lim h..<lim h'}" "shared h' v' = shared h v"
    "own h' v' \<inter> own h v = {}" "own h' v' \<inter> shared h v = {}"
proof -
  have "{lim h..<lim h'} \<inter> {..<lim h} = {}" by auto
  moreover note copied = copies [OF assms, unfolded well_copied_def]
  ultimately show "own h' v' \<inter> own h v = {}" "own h' v' \<inter> shared h v = {}"
    using assms(1,2) by blast+
  show "val h' v' = val h v" "own h' v' \<subseteq> {lim h..<lim h'}" "shared h' v' = shared h v"
    "val h' v = val h v" "own h' v = own h v" "shared h' v = shared h v"
    using copied assms frame [of "{..<lim h}" h h' v] by simp_all
qed

lemma later_changes:
  assumes "own h v \<subseteq> {..<lim h}" "shared h v \<subseteq> {..<lim h}" "copy v h = (v', h')"
  shows "agree (- own h' v') h' s \<Longrightarrow> val s v = val h v"
    and "agree (- own h v) h' s \<Longrightarrow> own h v \<inter> shared h v = {} \<Longrightarrow> val s v' = val h v"
proof -
  note c = copy_preserves [OF assms]
  show "val s v = val h v" if "agree (- own h' v') h' s"
    using frame [OF that, of v] c by (simp add: disjoint_eq_subset_Compl [symmetric] Int_commute)
  show "val s v' = val h v" if "agree (- own h v) h' s" "own h v \<inter> shared h v = {}"
    using frame [OF that(1), of v'] c that(2) by (simp add: disjoint_eq_subset_Compl [symmetric] Int_commute)
qed

end

end
