(* ===== verification/DeepCopy.thy ===== *)
theory DeepCopy
  imports Copy
begin

section \<open>Deep copies of the API objects\<close>

text \<open>
  The methods of \<open>src/api/v1alpha2/zz_generated.deepcopy.go\<close>, the values their objects stand
  for, the addresses they own and share, and the contract of every method.
\<close>

subsection \<open>The generated copies\<close>

text \<open>
  \<open>T_DeepCopyInto\<close> gives \<open>*out\<close> for \<open>*in\<close>, which are different objects in every call;
  \<open>T_DeepCopy\<close> is the method that allocates. The methods repeat the latter's steps for the
  fields that are pointers.
\<close>

definition XXX_copy :: "XXX_fields \<Rightarrow> ('m, 'l) store \<Rightarrow> XXX_fields \<times> ('m, 'l) store" where
  "XXX_copy x h =
     (case copy_pointer bytes_cell bytes_cell_update copy_value (XXX_unrecognized x) h of
        (p, h1) \<Rightarrow> (x\<lparr>XXX_unrecognized := p\<rparr>, h1))"

definition Duration_DeepCopyInto :: "Duration_obj \<Rightarrow> ('m, 'l) store \<Rightarrow> Duration_obj \<times> ('m, 'l) store" where
  "Duration_DeepCopyInto v h =
     (case XXX_copy (do_XXX v) h of (x, h1) \<Rightarrow> (v\<lparr>do_XXX := x\<rparr>, h1))"

definition Duration_DeepCopy :: "addr option \<Rightarrow> ('m, 'l) store \<Rightarrow> addr option \<times> ('m, 'l) store" where
  "Duration_DeepCopy = copy_pointer duration_cell duration_cell_update Duration_DeepCopyInto"

definition Limiter_DeepCopyInto :: "Limiter_obj \<Rightarrow> ('m, 'l) store \<Rightarrow> Limiter_obj \<times> ('m, 'l) store" where
  "Limiter_DeepCopyInto v h =
     (case copy_pointer time_cell time_cell_update copy_value (lo_Refresh v) h of (p, h1) \<Rightarrow>
      case XXX_copy (lo_XXX v) h1 of (x, h2) \<Rightarrow> (v\<lparr>lo_Refresh := p, lo_XXX := x\<rparr>, h2))"

definition Limiter_DeepCopy :: "addr option \<Rightarrow> ('m, 'l) store \<Rightarrow> addr option \<times> ('m, 'l) store" where
  "Limiter_DeepCopy = copy_pointer config_cell config_cell_update Limiter_DeepCopyInto"

definition Action_DeepCopyInto :: "Action_obj \<Rightarrow> ('m, 'l) store \<Rightarrow> Action_obj \<times> ('m, 'l) store" where
  "Action_DeepCopyInto v h =
     (case Duration_DeepCopy (ao_FillInterval v) h of (p, h1) \<Rightarrow>
      case XXX_copy (ao_XXX v) h1 of (x, h2) \<Rightarrow> (v\<lparr>ao_FillInterval := p, ao_XXX := x\<rparr>, h2))"

definition Action_DeepCopy :: "addr option \<Rightarrow> ('m, 'l) store \<Rightarrow> addr option \<times> ('m, 'l) store" where
  "Action_DeepCopy = copy_pointer action_cell action_cell_update Action_DeepCopyInto"

definition HeaderMatcher_DeepCopyInto ::
    "HeaderMatcher_obj \<Rightarrow> ('m, 'l) store \<Rightarrow> HeaderMatcher_obj \<times> ('m, 'l) store" where
  "HeaderMatcher_DeepCopyInto v h =
     (case XXX_copy (ho_XXX v) h of (x, h1) \<Rightarrow> (v\<lparr>ho_XXX := x\<rparr>, h1))"

definition HeaderMatcher_DeepCopy :: "addr option \<Rightarrow> ('m, 'l) store \<Rightarrow> addr option \<times> ('m, 'l) store" where
  "HeaderMatcher_DeepCopy = copy_pointer matcher_cell matcher_cell_update HeaderMatcher_DeepCopyInto"

text \<open>There is no statement for \<open>Route\<close> and \<open>Host\<close>: they stay as \<open>*out = *in\<close> made them.\<close>

definition Target_DeepCopyInto :: "Target_obj \<Rightarrow> ('m, 'l) store \<Rightarrow> Target_obj \<times> ('m, 'l) store" where
  "Target_DeepCopyInto v h =
     (case copy_shared (to_Route v) h of (p, h1) \<Rightarrow>
      case copy_shared (to_Host v) h1 of (q, h2) \<Rightarrow>
      case XXX_copy (to_XXX v) h2 of (x, h3) \<Rightarrow> (v\<lparr>to_Route := p, to_Host := q, to_XXX := x\<rparr>, h3))"

definition Target_DeepCopy :: "addr option \<Rightarrow> ('m, 'l) store \<Rightarrow> addr option \<times> ('m, 'l) store" where
  "Target_DeepCopy = copy_pointer target_cell target_cell_update Target_DeepCopyInto"

definition Descriptor_DeepCopyInto ::
    "Descriptor_obj \<Rightarrow> ('m, 'l) store \<Rightarrow> Descriptor_obj \<times> ('m, 'l) store" where
  "Descriptor_DeepCopyInto v h =
     (case Action_DeepCopy (so_Action v) h of (a, h1) \<Rightarrow>
      case copy_pointer matchers_cell matchers_cell_update
             (copy_elements (\<lambda>i. HeaderMatcher_DeepCopy) 0) (so_Match v) h1 of (m, h2) \<Rightarrow>
      case Target_DeepCopy (so_Target v) h2 of (t, h3) \<Rightarrow>
      case XXX_copy (so_XXX v) h3 of (x, h4) \<Rightarrow>
        (v\<lparr>so_Action := a, so_Match := m, so_Target := t, so_XXX := x\<rparr>, h4))"

definition Descriptor_DeepCopy :: "addr option \<Rightarrow> ('m, 'l) store \<Rightarrow> addr option \<times> ('m, 'l) store" where
  "Descriptor_DeepCopy = copy_pointer descriptor_cell descriptor_cell_update Descriptor_DeepCopyInto"

definition Descriptors_DeepCopyInto ::
    "Descriptors_obj \<Rightarrow> ('m, 'l) store \<Rightarrow> Descriptors_obj \<times> ('m, 'l) store" where
  "Descriptors_DeepCopyInto v h =
     (case copy_pointer pointers_cell pointers_cell_update
             (copy_elements (\<lambda>i. Descriptor_DeepCopy) 0) (dso_Descriptor v) h of (d, h1) \<Rightarrow>
      case XXX_copy (dso_XXX v) h1 of (x, h2) \<Rightarrow> (v\<lparr>dso_Descriptor := d, dso_XXX := x\<rparr>, h2))"

definition Descriptors_DeepCopy :: "addr option \<Rightarrow> ('m, 'l) store \<Rightarrow> addr option \<times> ('m, 'l) store" where
  "Descriptors_DeepCopy = copy_pointer descriptors_cell descriptors_cell_update Descriptors_DeepCopyInto"

definition Spec_DeepCopyInto :: "chooser \<Rightarrow> Spec_obj \<Rightarrow> ('m, 'l) store \<Rightarrow> Spec_obj \<times> ('m, 'l) store" where
  "Spec_DeepCopyInto ch v h =
     (case copy_pointer sets_cell sets_cell_update (copy_entries Descriptors_DeepCopy ch)
             (po_Sets v) h of (s, h1) \<Rightarrow>
      case XXX_copy (po_XXX v) h1 of (x, h2) \<Rightarrow> (v\<lparr>po_Sets := s, po_XXX := x\<rparr>, h2))"

definition Spec_DeepCopy :: "chooser \<Rightarrow> addr option \<Rightarrow> ('m, 'l) store \<Rightarrow> addr option \<times> ('m, 'l) store" where
  "Spec_DeepCopy ch = copy_pointer spec_cell spec_cell_update (Spec_DeepCopyInto ch)"

definition Status_DeepCopyInto ::
    "chooser \<Rightarrow> Status_obj \<Rightarrow> ('m, 'l) store \<Rightarrow> Status_obj \<times> ('m, 'l) store" where
  "Status_DeepCopyInto ch v h =
     (case copy_pointer sets_cell sets_cell_update (copy_entries Descriptors_DeepCopy (ch_left ch))
             (uo_RatelimitStatus v) h of (s, h1) \<Rightarrow>
      case copy_pointer strmap_cell strmap_cell_update (copy_entries copy_value (ch_right ch))
             (uo_MetricStatus v) h1 of (m, h2) \<Rightarrow>
      case XXX_copy (uo_XXX v) h2 of (x, h3) \<Rightarrow>
        (v\<lparr>uo_RatelimitStatus := s, uo_MetricStatus := m, uo_XXX := x\<rparr>, h3))"

definition Status_DeepCopy :: "chooser \<Rightarrow> addr option \<Rightarrow> ('m, 'l) store \<Rightarrow> addr option \<times> ('m, 'l) store" where
  "Status_DeepCopy ch = copy_pointer status_cell status_cell_update (Status_DeepCopyInto ch)"

text \<open>\<open>copy_meta\<close> and \<open>copy_list_meta\<close> are \<open>DeepCopyInto\<close> of \<open>ObjectMeta\<close> and of \<open>ListMeta\<close>.\<close>

definition SmartLimiter_DeepCopyInto ::
    "('m \<Rightarrow> ('m, 'l) store \<Rightarrow> 'm \<times> ('m, 'l) store) \<Rightarrow> chooser
       \<Rightarrow> 'm SmartLimiter_obj \<Rightarrow> ('m, 'l) store \<Rightarrow> 'm SmartLimiter_obj \<times> ('m, 'l) store" where
  "SmartLimiter_DeepCopyInto copy_meta ch v h =
     (case copy_meta (mo_ObjectMeta v) h of (m, h1) \<Rightarrow>
      case Spec_DeepCopyInto (ch_left ch) (mo_Spec v) h1 of (s, h2) \<Rightarrow>
      case Status_DeepCopyInto (ch_right ch) (mo_Status v) h2 of (u, h3) \<Rightarrow>
        (v\<lparr>mo_ObjectMeta := m, mo_Spec := s, mo_Status := u\<rparr>, h3))"

definition SmartLimiter_DeepCopy ::
    "('m \<Rightarrow> ('m, 'l) store \<Rightarrow> 'm \<times> ('m, 'l) store) \<Rightarrow> chooser
       \<Rightarrow> addr option \<Rightarrow> ('m, 'l) store \<Rightarrow> addr option \<times> ('m, 'l) store" where
  "SmartLimiter_DeepCopy copy_meta ch =
     copy_pointer limiter_cell limiter_cell_update (SmartLimiter_DeepCopyInto copy_meta ch)"

text \<open>The object behind the interface \<open>runtime.Object\<close>, or the nil interface.\<close>

definition SmartLimiter_DeepCopyObject ::
    "('m \<Rightarrow> ('m, 'l) store \<Rightarrow> 'm \<times> ('m, 'l) store) \<Rightarrow> chooser
       \<Rightarrow> addr option \<Rightarrow> ('m, 'l) store \<Rightarrow> addr option \<times> ('m, 'l) store" where
  "SmartLimiter_DeepCopyObject copy_meta ch p h =
     (case SmartLimiter_DeepCopy copy_meta ch p h of
        (Some c, h1) \<Rightarrow> (Some c, h1) | (None, h1) \<Rightarrow> (None, h1))"

definition SmartLimiterList_DeepCopyInto ::
    "('m \<Rightarrow> ('m, 'l) store \<Rightarrow> 'm \<times> ('m, 'l) store) \<Rightarrow> ('l \<Rightarrow> ('m, 'l) store \<Rightarrow> 'l \<times> ('m, 'l) store)
       \<Rightarrow> chooser \<Rightarrow> 'l SmartLimiterList_obj \<Rightarrow> ('m, 'l) store
       \<Rightarrow> 'l SmartLimiterList_obj \<times> ('m, 'l) store" where
  "SmartLimiterList_DeepCopyInto copy_meta copy_list_meta ch v h =
     (case copy_list_meta (io_ListMeta v) h of (m, h1) \<Rightarrow>
      case copy_pointer limiters_cell limiters_cell_update
             (copy_elements (\<lambda>i. SmartLimiter_DeepCopyInto copy_meta (nth_chooser ch i)) 0)
             (io_Items v) h1 of (s, h2) \<Rightarrow> (v\<lparr>io_ListMeta := m, io_Items := s\<rparr>, h2))"

definition SmartLimiterList_DeepCopy ::
    "('m \<Rightarrow> ('m, 'l) store \<Rightarrow> 'm \<times> ('m, 'l) store) \<Rightarrow> ('l \<Rightarrow> ('m, 'l) store \<Rightarrow> 'l \<times> ('m, 'l) store)
       \<Rightarrow> chooser \<Rightarrow> addr option \<Rightarrow> ('m, 'l) store \<Rightarrow> addr option \<times> ('m, 'l) store" where
  "SmartLimiterList_DeepCopy copy_meta copy_list_meta ch =
     copy_pointer list_cell list_cell_update (SmartLimiterList_DeepCopyInto copy_meta copy_list_meta ch)"

definition SmartLimiterList_DeepCopyObject ::
    "('m \<Rightarrow> ('m, 'l) store \<Rightarrow> 'm \<times> ('m, 'l) store) \<Rightarrow> ('l \<Rightarrow> ('m, 'l) store \<Rightarrow> 'l \<times> ('m, 'l) store)
       \<Rightarrow> chooser \<Rightarrow> addr option \<Rightarrow> ('m, 'l) store \<Rightarrow> addr option \<times> ('m, 'l) store" where
  "SmartLimiterList_DeepCopyObject copy_meta copy_list_meta ch p h =
     (case SmartLimiterList_DeepCopy copy_meta copy_list_meta ch p h of
        (Some c, h1) \<Rightarrow> (Some c, h1) | (None, h1) \<Rightarrow> (None, h1))"

subsection \<open>What the objects stand for\<close>

text \<open>
  The values are the records of \<open>ApiTypes\<close>, which the rest of the development works with.
\<close>

definition val_Limiter :: "('m, 'l) store \<Rightarrow> Limiter_obj \<Rightarrow> 32 word \<times> 64 word option \<times> bool \<times> bool \<times> bool" where
  "val_Limiter h v = (lo_Backend v, map_option (time_cell h) (lo_Refresh v),
     lo_DisableGlobalRateLimit v, lo_DisableAdaptive v, lo_EnableServiceEntry v)"

definition val_Action :: "('m, 'l) store \<Rightarrow> Action_obj \<Rightarrow> SL_Action" where
  "val_Action h v = \<lparr>Quota = ao_Quota v,
     FillInterval = val_pointer duration_cell (\<lambda>h. do_Duration) h (ao_FillInterval v),
     Strategy = ao_Strategy v\<rparr>"

definition val_Target :: "('m, 'l) store \<Rightarrow> Target_obj \<Rightarrow> SL_Target" where
  "val_Target h v = \<lparr>Direction = to_Direction v, Port = to_Port v,
     Route = map_option (strings_cell h) (to_Route v), Host = map_option (strings_cell h) (to_Host v)\<rparr>"

definition val_Match :: "('m, 'l) store \<Rightarrow> addr option \<Rightarrow> HeaderMatcher option slice" where
  "val_Match = val_pointer matchers_cell (\<lambda>h. map (val_pointer matcher_cell (\<lambda>h. ho_HeaderMatcher) h))"

definition val_Descriptor :: "('m, 'l) store \<Rightarrow> Descriptor_obj \<Rightarrow> SmartLimitDescriptor" where
  "val_Descriptor h v = \<lparr>Condition = so_Condition v,
     Action = val_pointer action_cell val_Action h (so_Action v), Match = val_Match h (so_Match v),
     Target = val_pointer target_cell val_Target h (so_Target v),
     CustomKey = so_CustomKey v, CustomValue = so_CustomValue v\<rparr>"

definition val_Descriptors :: "('m, 'l) store \<Rightarrow> Descriptors_obj \<Rightarrow> SmartLimitDescriptors" where
  "val_Descriptors h v = \<lparr>Descriptor_items =
     val_pointer pointers_cell (\<lambda>h. map (val_pointer descriptor_cell val_Descriptor h)) h (dso_Descriptor v)\<rparr>"

definition val_sets :: "('m, 'l) store \<Rightarrow> addr option \<Rightarrow> SmartLimitDescriptors option gomap" where
  "val_sets = val_pointer sets_cell (\<lambda>h. fmmap (val_pointer descriptors_cell val_Descriptors h))"

definition val_Spec :: "('m, 'l) store \<Rightarrow> Spec_obj \<Rightarrow> SmartLimiterSpec" where
  "val_Spec h v = \<lparr>Sets = val_sets h (po_Sets v), Rls = po_Rls v\<rparr>"

definition val_Status :: "('m, 'l) store \<Rightarrow> Status_obj \<Rightarrow> SmartLimiterStatus" where
  "val_Status h v = \<lparr>RatelimitStatus = val_sets h (uo_RatelimitStatus v),
     MetricStatus = val_pointer strmap_cell (\<lambda>h. fmmap (\<lambda>x. x)) h (uo_MetricStatus v)\<rparr>"

definition val_SmartLimiter ::
    "(('m, 'l) store \<Rightarrow> 'm \<Rightarrow> 'a) \<Rightarrow> ('m, 'l) store \<Rightarrow> 'm SmartLimiter_obj
       \<Rightarrow> TypeMeta \<times> 'a \<times> SmartLimiterSpec \<times> SmartLimiterStatus" where
  "val_SmartLimiter val_meta h v =
     (mo_TypeMeta v, val_meta h (mo_ObjectMeta v), val_Spec h (mo_Spec v), val_Status h (mo_Status v))"

definition val_SmartLimiterList ::
    "(('m, 'l) store \<Rightarrow> 'm \<Rightarrow> 'a) \<Rightarrow> (('m, 'l) store \<Rightarrow> 'l \<Rightarrow> 'b) \<Rightarrow> ('m, 'l) store
       \<Rightarrow> 'l SmartLimiterList_obj
       \<Rightarrow> TypeMeta \<times> 'b \<times> (TypeMeta \<times> 'a \<times> SmartLimiterSpec \<times> SmartLimiterStatus) list option" where
  "val_SmartLimiterList val_meta val_list_meta h v = (io_TypeMeta v, val_list_meta h (io_ListMeta v),
     val_pointer limiters_cell (\<lambda>h. map (val_SmartLimiter val_meta h)) h (io_Items v))"

subsection \<open>What they own and what they share\<close>

abbreviation none :: "('m, 'l) store \<Rightarrow> 'v \<Rightarrow> addr set" where
  "none \<equiv> \<lambda>h v. {}"

definition own_XXX :: "('m, 'l) store \<Rightarrow> XXX_fields \<Rightarrow> addr set" where
  "own_XXX h x = own_pointer bytes_cell none h (XXX_unrecognized x)"

definition own_Duration :: "('m, 'l) store \<Rightarrow> Duration_obj \<Rightarrow> addr set" where
  "own_Duration h v = own_XXX h (do_XXX v)"

definition own_Limiter :: "('m, 'l) store \<Rightarrow> Limiter_obj \<Rightarrow> addr set" where
  "own_Limiter h v = own_pointer time_cell none h (lo_Refresh v) \<union> own_XXX h (lo_XXX v)"

definition own_Action :: "('m, 'l) store \<Rightarrow> Action_obj \<Rightarrow> addr set" where
  "own_Action h v = own_pointer duration_cell own_Duration h (ao_FillInterval v) \<union> own_XXX h (ao_XXX v)"

definition own_HeaderMatcher :: "('m, 'l) store \<Rightarrow> HeaderMatcher_obj \<Rightarrow> addr set" where
  "own_HeaderMatcher h v = own_XXX h (ho_XXX v)"

definition own_Target :: "('m, 'l) store \<Rightarrow> Target_obj \<Rightarrow> addr set" where
  "own_Target h v = own_XXX h (to_XXX v)"

definition shared_Target :: "('m, 'l) store \<Rightarrow> Target_obj \<Rightarrow> addr set" where
  "shared_Target h v = set_option (to_Route v) \<union> set_option (to_Host v)"

definition own_Descriptor :: "('m, 'l) store \<Rightarrow> Descriptor_obj \<Rightarrow> addr set" where
  "own_Descriptor h v = own_pointer action_cell own_Action h (so_Action v)
     \<union> own_pointer matchers_cell (each_elem (own_pointer matcher_cell own_HeaderMatcher)) h (so_Match v)
     \<union> own_pointer target_cell own_Target h (so_Target v) \<union> own_XXX h (so_XXX v)"

definition shared_Descriptor :: "('m, 'l) store \<Rightarrow> Descriptor_obj \<Rightarrow> addr set" where
  "shared_Descriptor h v = shared_pointer target_cell shared_Target h (so_Target v)"

definition own_Descriptors :: "('m, 'l) store \<Rightarrow> Descriptors_obj \<Rightarrow> addr set" where
  "own_Descriptors h v = own_pointer pointers_cell (each_elem (own_pointer descriptor_cell own_Descriptor)) h
     (dso_Descriptor v) \<union> own_XXX h (dso_XXX v)"

definition shared_Descriptors :: "('m, 'l) store \<Rightarrow> Descriptors_obj \<Rightarrow> addr set" where
  "shared_Descriptors h v =
     shared_pointer pointers_cell (each_elem (shared_pointer descriptor_cell shared_Descriptor)) h (dso_Descriptor v)"

definition own_sets :: "('m, 'l) store \<Rightarrow> addr option \<Rightarrow> addr set" where
  "own_sets = own_pointer sets_cell (each_entry (own_pointer descriptors_cell own_Descriptors))"

definition shared_sets :: "('m, 'l) store \<Rightarrow> addr option \<Rightarrow> addr set" where
  "shared_sets = shared_pointer sets_cell (each_entry (shared_pointer descriptors_cell shared_Descriptors))"

definition own_Spec :: "('m, 'l) store \<Rightarrow> Spec_obj \<Rightarrow> addr set" where
  "own_Spec h v = own_sets h (po_Sets v) \<union> own_XXX h (po_XXX v)"

definition shared_Spec :: "('m, 'l) store \<Rightarrow> Spec_obj \<Rightarrow> addr set" where
  "shared_Spec h v = shared_sets h (po_Sets v)"

definition own_Status :: "('m, 'l) store \<Rightarrow> Status_obj \<Rightarrow> addr set" where
  "own_Status h v = own_sets h (uo_RatelimitStatus v)
     \<union> own_pointer strmap_cell (each_entry none) h (uo_MetricStatus v) \<union> own_XXX h (uo_XXX v)"

definition shared_Status :: "('m, 'l) store \<Rightarrow> Status_obj \<Rightarrow> addr set" where
  "shared_Status h v = shared_sets h (uo_RatelimitStatus v)"

definition own_SmartLimiter ::
    "(('m, 'l) store \<Rightarrow> 'm \<Rightarrow> addr set) \<Rightarrow> ('m, 'l) store \<Rightarrow> 'm SmartLimiter_obj \<Rightarrow> addr set" where
  "own_SmartLimiter own_meta h v =
     own_meta h (mo_ObjectMeta v) \<union> own_Spec h (mo_Spec v) \<union> own_Status h (mo_Status v)"

definition shared_SmartLimiter :: "('m, 'l) store \<Rightarrow> 'm SmartLimiter_obj \<Rightarrow> addr set" where
  "shared_SmartLimiter h v = shared_Spec h (mo_Spec v) \<union> shared_Status h (mo_Status v)"

subsection \<open>Every copy keeps its contract\<close>

lemma shared_nothing [simp]: "shared_pointer get none h p = {}" "each_elem none h vs = {}"
  "each_entry none h m = {}"
  by (simp_all add: shared_pointer_def each_elem_def each_entry_def split: option.split)

lemma nothing_shared [simp]: "shared_pointer get none = none" "each_elem none = none" "each_entry none = none"
  by (intro ext; simp)+

lemma copier_XXX: "copier (\<lambda>h x. ()) own_XXX none XXX_copy"
  by (rule copier_fields [OF copier_pointer [OF bytes.cell_axioms copier_value [of "\<lambda>x. x"]],
        where sel = XXX_unrecognized and build = "\<lambda>x p. x\<lparr>XXX_unrecognized := p\<rparr>" and mk = "\<lambda>x p. ()"])
    (auto simp: XXX_copy_def own_XXX_def)

lemma copier_Duration: "copier (\<lambda>h. do_Duration) own_Duration none Duration_DeepCopyInto"
  by (rule copier_fields [OF copier_XXX, where sel = do_XXX and build = "\<lambda>v x. v\<lparr>do_XXX := x\<rparr>"
        and mk = "\<lambda>v x. do_Duration v"])
    (auto simp: Duration_DeepCopyInto_def own_Duration_def)

lemma copier_Duration_pointer:
  "copier (val_pointer duration_cell (\<lambda>h. do_Duration)) (own_pointer duration_cell own_Duration) none
     Duration_DeepCopy"
  using copier_pointer [OF durations.cell_axioms copier_Duration] by (simp add: Duration_DeepCopy_def)

lemma copier_Limiter: "copier val_Limiter own_Limiter none Limiter_DeepCopyInto"
  by (rule copier_fields [OF copier_pair [OF
        copier_pointer [OF times.cell_axioms copier_value [of "\<lambda>x. x"]] copier_XXX],
        where sel = "\<lambda>v. (lo_Refresh v, lo_XXX v)"
        and build = "\<lambda>v (p, x). v\<lparr>lo_Refresh := p, lo_XXX := x\<rparr>"
        and mk = "\<lambda>v (p, x). (lo_Backend v, p, lo_DisableGlobalRateLimit v, lo_DisableAdaptive v,
                    lo_EnableServiceEntry v)"])
    (auto simp: Limiter_DeepCopyInto_def copy_pair_def own_Limiter_def val_Limiter_def val_pointer_def
      split: prod.splits)

lemma copier_Action: "copier val_Action own_Action none Action_DeepCopyInto"
  by (rule copier_fields [OF copier_pair [OF copier_Duration_pointer copier_XXX],
        where sel = "\<lambda>v. (ao_FillInterval v, ao_XXX v)"
        and build = "\<lambda>v (p, x). v\<lparr>ao_FillInterval := p, ao_XXX := x\<rparr>"
        and mk = "\<lambda>v (p, x). \<lparr>Quota = ao_Quota v, FillInterval = p, Strategy = ao_Strategy v\<rparr>"])
    (auto simp: Action_DeepCopyInto_def copy_pair_def own_Action_def val_Action_def split: prod.splits)

lemma copier_Action_pointer:
  "copier (val_pointer action_cell val_Action) (own_pointer action_cell own_Action) none Action_DeepCopy"
  using copier_pointer [OF actions.cell_axioms copier_Action] by (simp add: Action_DeepCopy_def)

lemma copier_HeaderMatcher:
  "copier (\<lambda>h. ho_HeaderMatcher) own_HeaderMatcher none HeaderMatcher_DeepCopyInto"
  by (rule copier_fields [OF copier_XXX, where sel = ho_XXX and build = "\<lambda>v x. v\<lparr>ho_XXX := x\<rparr>"
        and mk = "\<lambda>v x. ho_HeaderMatcher v"])
    (auto simp: HeaderMatcher_DeepCopyInto_def own_HeaderMatcher_def)

lemma copier_HeaderMatcher_pointer:
  "copier (val_pointer matcher_cell (\<lambda>h. ho_HeaderMatcher)) (own_pointer matcher_cell own_HeaderMatcher) none
     HeaderMatcher_DeepCopy"
  using copier_pointer [OF matchers.cell_axioms copier_HeaderMatcher]
  by (simp add: HeaderMatcher_DeepCopy_def)

lemma copier_Match:
  "copier val_Match (own_pointer matchers_cell (each_elem (own_pointer matcher_cell own_HeaderMatcher))) none
     (copy_pointer matchers_cell matchers_cell_update (copy_elements (\<lambda>i. HeaderMatcher_DeepCopy) 0))"
  using copier_pointer [OF matcher_arrays.cell_axioms copier_elements [OF copier_HeaderMatcher_pointer]]
  by (simp add: val_Match_def)

lemma copier_Target: "copier val_Target own_Target shared_Target Target_DeepCopyInto"
  by (rule copier_fields [OF copier_pair [OF copier_shared copier_pair [OF copier_shared copier_XXX]],
        where sel = "\<lambda>v. (to_Route v, to_Host v, to_XXX v)"
        and build = "\<lambda>v (p, q, x). v\<lparr>to_Route := p, to_Host := q, to_XXX := x\<rparr>"
        and mk = "\<lambda>v (p, q, x). \<lparr>Direction = to_Direction v, Port = to_Port v, Route = p, Host = q\<rparr>"])
    (auto simp: Target_DeepCopyInto_def copy_pair_def own_Target_def shared_Target_def val_Target_def
      split: prod.splits)

lemma copier_Target_pointer:
  "copier (val_pointer target_cell val_Target) (own_pointer target_cell own_Target)
     (shared_pointer target_cell shared_Target) Target_DeepCopy"
  unfolding Target_DeepCopy_def by (rule copier_pointer [OF targets.cell_axioms copier_Target])

lemma copier_Descriptor: "copier val_Descriptor own_Descriptor shared_Descriptor Descriptor_DeepCopyInto"
  by (rule copier_fields [OF copier_pair [OF copier_Action_pointer copier_pair [OF copier_Match
          copier_pair [OF copier_Target_pointer copier_XXX]]],
        where sel = "\<lambda>v. (so_Action v, so_Match v, so_Target v, so_XXX v)"
        and build = "\<lambda>v (a, m, t, x). v\<lparr>so_Action := a, so_Match := m, so_Target := t, so_XXX := x\<rparr>"
        and mk = "\<lambda>v (a, m, t, x). \<lparr>Condition = so_Condition v, Action = a, Match = m, Target = t,
                    CustomKey = so_CustomKey v, CustomValue = so_CustomValue v\<rparr>"])
    (auto simp: Descriptor_DeepCopyInto_def copy_pair_def own_Descriptor_def shared_Descriptor_def
      val_Descriptor_def split: prod.splits)

lemma copier_Descriptor_pointer:
  "copier (val_pointer descriptor_cell val_Descriptor) (own_pointer descriptor_cell own_Descriptor)
     (shared_pointer descriptor_cell shared_Descriptor) Descriptor_DeepCopy"
  unfolding Descriptor_DeepCopy_def by (rule copier_pointer [OF descriptors.cell_axioms copier_Descriptor])

lemma copier_Descriptors:
  "copier val_Descriptors own_Descriptors shared_Descriptors Descriptors_DeepCopyInto"
  by (rule copier_fields [OF copier_pair [OF copier_pointer [OF pointer_arrays.cell_axioms
          copier_elements [OF copier_Descriptor_pointer, of 0]] copier_XXX],
        where sel = "\<lambda>v. (dso_Descriptor v, dso_XXX v)"
        and build = "\<lambda>v (d, x). v\<lparr>dso_Descriptor := d, dso_XXX := x\<rparr>"
        and mk = "\<lambda>v (d, x). \<lparr>Descriptor_items = d\<rparr>"])
    (auto simp: Descriptors_DeepCopyInto_def copy_pair_def own_Descriptors_def shared_Descriptors_def
      val_Descriptors_def split: prod.splits)

lemma copier_Descriptors_pointer:
  "copier (val_pointer descriptors_cell val_Descriptors) (own_pointer descriptors_cell own_Descriptors)
     (shared_pointer descriptors_cell shared_Descriptors) Descriptors_DeepCopy"
  unfolding Descriptors_DeepCopy_def
  by (rule copier_pointer [OF descriptor_lists.cell_axioms copier_Descriptors])

lemma copier_sets:
  "fair ch \<Longrightarrow> copier val_sets own_sets shared_sets
     (copy_pointer sets_cell sets_cell_update (copy_entries Descriptors_DeepCopy ch))"
  unfolding val_sets_def own_sets_def shared_sets_def
  by (rule copier_pointer [OF set_maps.cell_axioms copier_entries [OF _ copier_Descriptors_pointer]])

lemma copier_Spec:
  assumes "fair ch"
  shows "copier val_Spec own_Spec shared_Spec (Spec_DeepCopyInto ch)"
  by (rule copier_fields [OF copier_pair [OF copier_sets [OF assms] copier_XXX],
        where sel = "\<lambda>v. (po_Sets v, po_XXX v)"
        and build = "\<lambda>v (s, x). v\<lparr>po_Sets := s, po_XXX := x\<rparr>"
        and mk = "\<lambda>v (s, x). \<lparr>Sets = s, Rls = po_Rls v\<rparr>"])
    (auto simp: Spec_DeepCopyInto_def copy_pair_def own_Spec_def shared_Spec_def val_Spec_def
      split: prod.splits)

lemma copier_Status:
  assumes "fair ch"
  shows "copier val_Status own_Status shared_Status (Status_DeepCopyInto ch)"
  by (rule copier_fields [OF copier_pair [OF copier_sets [OF fair_ch_left [OF assms]]
          copier_pair [OF copier_pointer [OF strmaps.cell_axioms
            copier_entries [OF fair_ch_right [OF assms] copier_value [of "\<lambda>x. x"]]] copier_XXX]],
        where sel = "\<lambda>v. (uo_RatelimitStatus v, uo_MetricStatus v, uo_XXX v)"
        and build = "\<lambda>v (s, m, x). v\<lparr>uo_RatelimitStatus := s, uo_MetricStatus := m, uo_XXX := x\<rparr>"
        and mk = "\<lambda>v (s, m, x). \<lparr>RatelimitStatus = s, MetricStatus = m\<rparr>"])
    (auto simp: Status_DeepCopyInto_def copy_pair_def own_Status_def shared_Status_def val_Status_def
      split: prod.splits)

text \<open>With metadata that are copied deeply, so is the whole object.\<close>

lemma copier_SmartLimiter:
  assumes "fair ch" "copier val_meta own_meta none copy_meta"
  shows "copier (val_SmartLimiter val_meta) (own_SmartLimiter own_meta) shared_SmartLimiter
           (SmartLimiter_DeepCopyInto copy_meta ch)"
  by (rule copier_fields [OF copier_pair [OF assms(2) copier_pair [OF
          copier_Spec [OF fair_ch_left [OF assms(1)]] copier_Status [OF fair_ch_right [OF assms(1)]]]],
        where sel = "\<lambda>v. (mo_ObjectMeta v, mo_Spec v, mo_Status v)"
        and build = "\<lambda>v (m, s, u). v\<lparr>mo_ObjectMeta := m, mo_Spec := s, mo_Status := u\<rparr>"
        and mk = "\<lambda>v (m, s, u). (mo_TypeMeta v, m, s, u)"])
    (auto simp: SmartLimiter_DeepCopyInto_def copy_pair_def own_SmartLimiter_def shared_SmartLimiter_def
      val_SmartLimiter_def split: prod.splits)

lemma copier_SmartLimiter_pointer:
  assumes "fair ch" "copier val_meta own_meta none copy_meta"
  shows "copier (val_pointer limiter_cell (val_SmartLimiter val_meta))
           (own_pointer limiter_cell (own_SmartLimiter own_meta))
           (shared_pointer limiter_cell shared_SmartLimiter) (SmartLimiter_DeepCopy copy_meta ch)"
  unfolding SmartLimiter_DeepCopy_def
  by (rule copier_pointer [OF limiter_objects.cell_axioms copier_SmartLimiter [OF assms]])

definition own_SmartLimiterList ::
    "(('m, 'l) store \<Rightarrow> 'm \<Rightarrow> addr set) \<Rightarrow> (('m, 'l) store \<Rightarrow> 'l \<Rightarrow> addr set) \<Rightarrow> ('m, 'l) store
       \<Rightarrow> 'l SmartLimiterList_obj \<Rightarrow> addr set" where
  "own_SmartLimiterList own_meta own_list_meta h v = own_list_meta h (io_ListMeta v)
     \<union> own_pointer limiters_cell (each_elem (own_SmartLimiter own_meta)) h (io_Items v)"

definition shared_SmartLimiterList :: "('m, 'l) store \<Rightarrow> 'l SmartLimiterList_obj \<Rightarrow> addr set" where
  "shared_SmartLimiterList h v = shared_pointer limiters_cell (each_elem shared_SmartLimiter) h (io_Items v)"

lemma copier_SmartLimiterList:
  assumes "fair ch" "copier val_meta own_meta none copy_meta"
    and "copier val_list_meta own_list_meta none copy_list_meta"
  shows "copier (val_SmartLimiterList val_meta val_list_meta) (own_SmartLimiterList own_meta own_list_meta)
           shared_SmartLimiterList (SmartLimiterList_DeepCopyInto copy_meta copy_list_meta ch)"
  by (rule copier_fields [OF copier_pair [OF assms(3) copier_pointer [OF limiter_arrays.cell_axioms
          copier_elements [where c = "\<lambda>i. SmartLimiter_DeepCopyInto copy_meta (nth_chooser ch i)" and i = 0,
              OF copier_SmartLimiter [OF fair_nth_chooser [OF assms(1)] assms(2)]]]],
        where sel = "\<lambda>v. (io_ListMeta v, io_Items v)"
        and build = "\<lambda>v (m, s). v\<lparr>io_ListMeta := m, io_Items := s\<rparr>"
        and mk = "\<lambda>v (m, s). (io_TypeMeta v, m, s)"])
    (auto simp: SmartLimiterList_DeepCopyInto_def copy_pair_def own_SmartLimiterList_def
      shared_SmartLimiterList_def val_SmartLimiterList_def split: prod.splits)

interpretation descriptor_values: framed val_Descriptor own_Descriptor shared_Descriptor
  by (rule copier_framed [OF copier_Descriptor])

interpretation target_copy: copier "val_pointer target_cell val_Target" "own_pointer target_cell own_Target"
    "shared_pointer target_cell shared_Target" Target_DeepCopy
  by (rule copier_Target_pointer)

interpretation config_copy: copier "val_pointer config_cell val_Limiter" "own_pointer config_cell own_Limiter"
    none Limiter_DeepCopy
  using copier_pointer [OF configs.cell_axioms copier_Limiter] by (simp add: Limiter_DeepCopy_def)

interpretation descriptors_copy: copier "val_pointer descriptors_cell val_Descriptors"
    "own_pointer descriptors_cell own_Descriptors" "shared_pointer descriptors_cell shared_Descriptors"
    Descriptors_DeepCopy
  by (rule copier_Descriptors_pointer)

text \<open>The copy of a target has the same arrays of routes and hosts.\<close>

lemma Target_DeepCopy_arrays:
  assumes "Target_DeepCopy (Some a) h = (p, h')" "a < lim h"
  shows "\<exists>b. p = Some b \<and> b \<noteq> a \<and> to_Route (target_cell h' b) = to_Route (target_cell h a)
           \<and> to_Host (target_cell h' b) = to_Host (target_cell h a) \<and> target_cell h' a = target_cell h a"
  using assms
  by (auto simp: Target_DeepCopy_def copy_pointer_def new_def Target_DeepCopyInto_def copy_shared_def XXX_copy_def
      copy_value_def split: prod.splits option.splits)

lemmas deep_copy_defs = SmartLimiter_DeepCopyObject_def SmartLimiterList_DeepCopyObject_def

lemma DeepCopyObject_eq:
  "SmartLimiter_DeepCopyObject copy_meta ch = SmartLimiter_DeepCopy copy_meta ch"
  "SmartLimiterList_DeepCopyObject copy_meta copy_list_meta ch
     = SmartLimiterList_DeepCopy copy_meta copy_list_meta ch"
  by (intro ext; simp add: deep_copy_defs split: prod.split option.split)+

lemma copier_SmartLimiterList_pointer:
  assumes "fair ch" "copier val_meta own_meta none copy_meta"
    and "copier val_list_meta own_list_meta none copy_list_meta"
  shows "copier (val_pointer list_cell (val_SmartLimiterList val_meta val_list_meta))
           (own_pointer list_cell (own_SmartLimiterList own_meta own_list_meta))
           (shared_pointer list_cell shared_SmartLimiterList)
           (SmartLimiterList_DeepCopyObject copy_meta copy_list_meta ch)"
  unfolding DeepCopyObject_eq SmartLimiterList_DeepCopy_def
  by (rule copier_pointer [OF limiter_lists.cell_axioms copier_SmartLimiterList [OF assms]])

end
