(* ===== verification/Examples.thy ===== *)
theory Examples
  imports Reconciler Multicluster DeepCopy
begin

section \<open>Concrete parameters for the examples\<close>

text \<open>
  The properties are stated for every framework, client, map and codec that behaves as
  documented. This theory has one of each, small but with all the laws, on which the
  properties are applied: a framework, JSON and YAML codecs that round-trip, and an API
  server that keeps its objects in memory.
\<close>

subsection \<open>Codecs\<close>

text \<open>An encoder and a decoder that reads a value off the front of a text.\<close>

definition reads_back :: "('a \<Rightarrow> string) \<Rightarrow> (string \<Rightarrow> 'a \<times> string) \<Rightarrow> bool" where
  "reads_back enc dec \<longleftrightarrow> (\<forall>x rest. dec (enc x @ rest) = (x, rest))"

definition enc_nat :: "nat \<Rightarrow> string" where
  "enc_nat n = replicate n (CHR ''1'') @ ''0''"

fun dec_nat :: "string \<Rightarrow> nat \<times> string" where
  "dec_nat [] = (0, [])"
| "dec_nat (c # t) = (if c = CHR ''1'' then (case dec_nat t of (n, r) \<Rightarrow> (Suc n, r)) else (0, t))"

lemma reads_back_nat: "reads_back enc_nat dec_nat"
proof -
  have "dec_nat (enc_nat n @ rest) = (n, rest)" for n rest
    by (induction n) (auto simp: enc_nat_def)
  then show ?thesis by (simp add: reads_back_def)
qed

definition enc_string :: "string \<Rightarrow> string" where
  "enc_string s = enc_nat (length s) @ s"

definition dec_string :: "string \<Rightarrow> string \<times> string" where
  "dec_string t = (case dec_nat t of (n, r) \<Rightarrow> (take n r, drop n r))"

lemma reads_back_string: "reads_back enc_string dec_string"
  using reads_back_nat by (simp add: reads_back_def enc_string_def dec_string_def)

definition enc_pair :: "('a \<Rightarrow> string) \<Rightarrow> ('b \<Rightarrow> string) \<Rightarrow> 'a \<times> 'b \<Rightarrow> string" where
  "enc_pair ea eb = (\<lambda>(a, b). ea a @ eb b)"

definition dec_pair ::
    "(string \<Rightarrow> 'a \<times> string) \<Rightarrow> (string \<Rightarrow> 'b \<times> string) \<Rightarrow> string \<Rightarrow> ('a \<times> 'b) \<times> string" where
  "dec_pair da db t = (case da t of (a, r) \<Rightarrow> (case db r of (b, r') \<Rightarrow> ((a, b), r')))"

lemma reads_back_pair: "reads_back ea da \<Longrightarrow> reads_back eb db \<Longrightarrow> reads_back (enc_pair ea eb) (dec_pair da db)"
  by (simp add: reads_back_def enc_pair_def dec_pair_def)

definition enc_option :: "('a \<Rightarrow> string) \<Rightarrow> 'a option \<Rightarrow> string" where
  "enc_option e x = (case x of None \<Rightarrow> ''0'' | Some y \<Rightarrow> ''1'' @ e y)"

definition dec_option :: "(string \<Rightarrow> 'a \<times> string) \<Rightarrow> string \<Rightarrow> 'a option \<times> string" where
  "dec_option d t = (if hd t = CHR ''0'' then (None, tl t)
                     else case d (tl t) of (y, r) \<Rightarrow> (Some y, r))"

lemma reads_back_option: "reads_back e d \<Longrightarrow> reads_back (enc_option e) (dec_option d)"
  by (simp add: reads_back_def enc_option_def dec_option_def split: option.split)

fun dec_items :: "(string \<Rightarrow> 'a \<times> string) \<Rightarrow> nat \<Rightarrow> string \<Rightarrow> 'a list \<times> string" where
  "dec_items d 0 t = ([], t)"
| "dec_items d (Suc n) t = (case d t of (x, r) \<Rightarrow> (case dec_items d n r of (xs, r') \<Rightarrow> (x # xs, r')))"

definition enc_list :: "('a \<Rightarrow> string) \<Rightarrow> 'a list \<Rightarrow> string" where
  "enc_list e xs = enc_nat (length xs) @ concat (map e xs)"

definition dec_list :: "(string \<Rightarrow> 'a \<times> string) \<Rightarrow> string \<Rightarrow> 'a list \<times> string" where
  "dec_list d t = (case dec_nat t of (n, r) \<Rightarrow> dec_items d n r)"

lemma reads_back_list:
  assumes "reads_back e d"
  shows "reads_back (enc_list e) (dec_list d)"
proof -
  have "dec_items d (length xs) (concat (map e xs) @ rest) = (xs, rest)" for xs rest
    using assms by (induction xs) (auto simp: reads_back_def)
  then show ?thesis using reads_back_nat by (simp add: reads_back_def enc_list_def dec_list_def)
qed

text \<open>A value of a type that is converted to an encoded one and back.\<close>

definition dec_via :: "('b \<Rightarrow> 'a) \<Rightarrow> (string \<Rightarrow> 'b \<times> string) \<Rightarrow> string \<Rightarrow> 'a \<times> string" where
  "dec_via g d t = (case d t of (y, r) \<Rightarrow> (g y, r))"

lemma reads_back_via: "reads_back e d \<Longrightarrow> (\<And>x. g (f x) = x) \<Longrightarrow> reads_back (\<lambda>x. e (f x)) (dec_via g d)"
  by (simp add: reads_back_def dec_via_def)

definition enc_word :: "'a::len word \<Rightarrow> string" where
  "enc_word w = enc_nat (unat w)"

definition dec_word :: "string \<Rightarrow> 'a::len word \<times> string" where
  "dec_word = dec_via of_nat dec_nat"

lemma reads_back_word: "reads_back enc_word dec_word"
  unfolding enc_word_def [abs_def] dec_word_def
  by (rule reads_back_via [OF reads_back_nat]) simp

definition enc_map :: "('v \<Rightarrow> string) \<Rightarrow> 'v gomap \<Rightarrow> string" where
  "enc_map e m = enc_option (enc_list (enc_pair enc_string e)) (map_option sorted_list_of_fmap m)"

definition dec_map :: "(string \<Rightarrow> 'v \<times> string) \<Rightarrow> string \<Rightarrow> 'v gomap \<times> string" where
  "dec_map d = dec_via (map_option fmap_of_list) (dec_option (dec_list (dec_pair dec_string d)))"

lemma reads_back_map:
  assumes "reads_back e d"
  shows "reads_back (enc_map e) (dec_map d)"
proof -
  have "map_option fmap_of_list (map_option sorted_list_of_fmap m) = m" for m :: "'a gomap"
    by (cases m) (auto intro!: fmap_ext simp: fmlookup_of_list map_of_sorted_list)
  then show ?thesis
    unfolding enc_map_def [abs_def] dec_map_def
    by (intro reads_back_via reads_back_option reads_back_list reads_back_pair reads_back_string assms)
qed

definition ex_json :: codec where
  "ex_json = \<lparr>
     Marshal_StaticMeta = (\<lambda>m. Inr (enc_pair enc_string (enc_pair enc_string (enc_pair (enc_map enc_word)
        (enc_map (\<lambda>b. enc_nat (if b then 1 else 0)))))
        (Meta_Name m, Meta_Namespace m, NPod m, IsGroup m))),
     Unmarshal_StaticMeta = (\<lambda>t. Inr (fst (dec_via
        (\<lambda>(name, namespace, npod, grp). \<lparr>Meta_Name = name, Meta_Namespace = namespace,
                                            NPod = npod, IsGroup = grp\<rparr>)
        (dec_pair dec_string (dec_pair dec_string (dec_pair (dec_map dec_word)
          (dec_map (dec_via (\<lambda>n. n = 1) dec_nat))))) t)))\<rparr>"

lemma json_round_trip_ex [simp]: "json_round_trip ex_json m"
proof -
  let ?enc = "enc_pair enc_string (enc_pair enc_string (enc_pair (enc_map (enc_word :: 64 word \<Rightarrow> string))
        (enc_map (\<lambda>b. enc_nat (if b then 1 else 0)))))"
  let ?dec = "dec_pair dec_string (dec_pair dec_string (dec_pair (dec_map dec_word)
          (dec_map (dec_via (\<lambda>n. n = 1) dec_nat))))"
  have "reads_back ?enc ?dec"
    by (intro reads_back_pair reads_back_string reads_back_map reads_back_word)
      (rule reads_back_via [OF reads_back_nat], simp)
  then have "reads_back (\<lambda>m. ?enc (Meta_Name m, Meta_Namespace m, NPod m, IsGroup m))
      (dec_via (\<lambda>(name, namespace, npod, grp). \<lparr>Meta_Name = name, Meta_Namespace = namespace,
                                            NPod = npod, IsGroup = grp\<rparr>) ?dec)"
    by (rule reads_back_via) simp
  then have decoded: "fst (dec_via (\<lambda>(name, namespace, npod, grp). \<lparr>Meta_Name = name,
        Meta_Namespace = namespace, NPod = npod, IsGroup = grp\<rparr>) ?dec
        (?enc (Meta_Name m, Meta_Namespace m, NPod m, IsGroup m))) = m" for m
    unfolding reads_back_def by (metis append_Nil2 fst_conv)
  have "?enc (Meta_Name m, Meta_Namespace m, NPod m, IsGroup m) \<noteq> []" for m :: StaticMeta
    by (simp add: enc_pair_def enc_string_def enc_nat_def)
  with decoded show ?thesis by (simp add: json_round_trip_def ex_json_def)
qed

definition enc_RateLimit :: "RateLimit \<Rightarrow> string" where
  "enc_RateLimit r = enc_pair enc_word enc_string (RequestsPerUnit r, Unit r)"

definition dec_RateLimit :: "string \<Rightarrow> RateLimit \<times> string" where
  "dec_RateLimit = dec_via (\<lambda>(n, u). \<lparr>RequestsPerUnit = n, Unit = u\<rparr>) (dec_pair dec_word dec_string)"

lemma reads_back_RateLimit: "reads_back enc_RateLimit dec_RateLimit"
  unfolding enc_RateLimit_def [abs_def] dec_RateLimit_def
  by (rule reads_back_via [OF reads_back_pair [OF reads_back_word reads_back_string]]) simp

definition enc_Descriptor :: "Descriptor \<Rightarrow> string" where
  "enc_Descriptor d = enc_pair enc_string (enc_pair enc_string (enc_option enc_RateLimit))
     (Key d, Value d, Descriptor_RateLimit d)"

definition dec_Descriptor :: "string \<Rightarrow> Descriptor \<times> string" where
  "dec_Descriptor = dec_via (\<lambda>(k, v, r). \<lparr>Key = k, Value = v, Descriptor_RateLimit = r\<rparr>)
     (dec_pair dec_string (dec_pair dec_string (dec_option dec_RateLimit)))"

lemma reads_back_Descriptor: "reads_back enc_Descriptor dec_Descriptor"
  unfolding enc_Descriptor_def [abs_def] dec_Descriptor_def
  by (rule reads_back_via [OF reads_back_pair [OF reads_back_string reads_back_pair
        [OF reads_back_string reads_back_option [OF reads_back_RateLimit]]]]) simp

definition enc_config :: "RateLimitConfig \<Rightarrow> string" where
  "enc_config c = enc_pair enc_string (enc_list (enc_option enc_Descriptor))
     (RLC_Domain c, RLC_Descriptors c)"

definition dec_config :: "string \<Rightarrow> RateLimitConfig \<times> string" where
  "dec_config = dec_via (\<lambda>(d, ds). \<lparr>RLC_Domain = d, RLC_Descriptors = ds\<rparr>)
     (dec_pair dec_string (dec_list (dec_option dec_Descriptor)))"

lemma reads_back_config: "reads_back enc_config dec_config"
  unfolding enc_config_def [abs_def] dec_config_def
  by (rule reads_back_via [OF reads_back_pair [OF reads_back_string reads_back_list
        [OF reads_back_option [OF reads_back_Descriptor]]]]) simp

subsection \<open>A framework\<close>

definition ex_contains :: "string gomap \<Rightarrow> string gomap \<Rightarrow> bool" where
  "ex_contains farther child \<longleftrightarrow> fmpred (\<lambda>k v. map_get farther k = Some v) (map_items child)"

definition ex_service_host :: "string \<Rightarrow> string \<times> string \<times> bool" where
  "ex_service_host host = (case strings_Split (CHR ''.'') host of
     name # namespace # _ \<Rightarrow> (name, namespace, True) | _ \<Rightarrow> ('''', '''', False))"

definition ex_quota :: "string \<Rightarrow> (string, iface) fmap \<Rightarrow> goerror + 64 word" where
  "ex_quota t m = (case Atoi t of (n, None) \<Rightarrow> Inr n | (n, Some err) \<Rightarrow> Inl err)"

definition ex_fw :: framework where
  "ex_fw = \<lparr>
     Wellkonw_BaseSet = ''_base'',
     Struct_EnvoyLocalRateLimit_Limiter = ''http_local_rate_limiter'',
     Struct_EnvoyLocalRateLimit_Enabled = ''local_rate_limit_enabled'',
     Struct_EnvoyLocalRateLimit_Enforced = ''local_rate_limit_enforced'',
     Struct_HttpFilter_Name = ''name'',
     Struct_HttpFilter_TypedConfig = ''typed_config'',
     Struct_Any_AtType = ''@type'',
     Struct_Any_TypedUrl = ''type_url'',
     Struct_Any_Value = ''value'',
     TypeUrl_UdpaTypedStruct = ''type.googleapis.com/udpa.type.v1.TypedStruct'',
     TypeUrl_EnvoyLocalRatelimit =
       ''type.googleapis.com/envoy.extensions.filters.http.local_ratelimit.v3.LocalRateLimit'',
     Envoy_LocalRateLimit = ''envoy.filters.http.local_ratelimit'',
     Envoy_HttpConnectionManager = ''envoy.filters.network.http_connection_manager'',
     Envoy_Route = ''envoy.filters.http.router'',
     CompactTextString = (\<lambda>d. Condition d @ CustomKey d),
     NamespacedName_String = request_key,
     MessageToStruct = (\<lambda>m. Inr (case m of
         RouteMessage r \<Rightarrow> fmap_of_list [(''rate_limits'', ListValue (map (\<lambda>l. NullValue) (RateLimits r)))]
       | LocalRateLimitMessage l \<Rightarrow> fmap_of_list [(''stat_prefix'', StringValue (StatPrefix l))]
       | RateLimitServiceMessage s \<Rightarrow> fmap_of_list [(''cluster_name'', StringValue (ClusterName s))])),
     ProtoToMap = (\<lambda>ef. Inr (fmap_of_list
       [(''configPatches'', IList (map (\<lambda>p. INil) (ConfigPatches ef)))])),
     UnityHost = (\<lambda>name namespace. name @ ''.'' @ namespace @ ''.svc.cluster.local''),
     IsK8SService = ex_service_host,
     CopyMap = (\<lambda>m. Some (map_items m)),
     IsContain = ex_contains,
     MapToMapInterface = (\<lambda>m. fmmap IString (map_items m)),
     CalculateTemplateBool = (\<lambda>t m. Inr (t = ''true'')),
     CalculateTemplate = ex_quota,
     IstioRevFromLabel = (\<lambda>labels. case map_get labels ''istio.io/rev'' of None \<Rightarrow> '''' | Some v \<Rightarrow> v),
     PatchIstioRevLabel = (\<lambda>labels rev. if rev = '''' then labels
       else Some (fmupd ''istio.io/rev'' rev (map_items labels))),
     SetControllerReference = (\<lambda>sl obj. Inr (obj\<lparr>EF_OwnerReferences := [SL_Name sl]\<rparr>)),
     MarshalSpec = (\<lambda>s. Inr (case s of None \<Rightarrow> ''null'' | Some m \<Rightarrow> ''{}'')),
     YamlMarshal = (\<lambda>c. Inr (enc_config c)),
     YamlUnmarshal = (\<lambda>t. if t = '''' then Inl (OtherError ''yaml'') else Inr (Some (fst (dec_config t)))),
     SelectorString = (\<lambda>m. ''app'')\<rparr>"

lemma yaml_round_trip_ex [simp]: "yaml_round_trip ex_fw"
proof -
  have decoded: "fst (dec_config (enc_config c)) = c" for c
    using reads_back_config unfolding reads_back_def by (metis append_Nil2 fst_conv)
  have "enc_config c \<noteq> []" for c by (simp add: enc_config_def enc_pair_def enc_string_def enc_nat_def)
  with decoded show ?thesis by (simp add: yaml_round_trip_def ex_fw_def)
qed

lemma ex_fw_laws [simp]: "copies_maps ex_fw" "converts_messages ex_fw" "sets_owner_only ex_fw"
  by (auto simp: ex_fw_def copies_maps_def converts_messages_def sets_owner_only_def)

subsection \<open>An API server in memory\<close>

record cluster =
  limiters :: "NamespacedName \<Rightarrow> SmartLimiter option"
  services :: "NamespacedName \<Rightarrow> Service option"
  envoyfilters :: "NamespacedName \<Rightarrow> EnvoyFilterCR option"
  configmaps :: "NamespacedName \<Rightarrow> ConfigMap option"
  pods :: "Pod list"
  host_subsets :: "string \<Rightarrow> Subset list option"

definition found :: "'a option \<Rightarrow> goerror + 'a" where
  "found x = (case x of None \<Rightarrow> Inl (NotFoundError '''') | Some y \<Rightarrow> Inr y)"

definition ex_client :: "cluster client" where
  "ex_client = \<lparr>
     Get_SmartLimiter = (\<lambda>w loc. found (limiters w loc)),
     Get_Service = (\<lambda>w loc. found (services w loc)),
     Get_EnvoyFilter = (\<lambda>w loc. found (envoyfilters w loc)),
     Create_EnvoyFilter = (\<lambda>w cr. (w\<lparr>envoyfilters := (envoyfilters w)(envoyfilter_loc cr \<mapsto> cr)\<rparr>, None)),
     Update_EnvoyFilter = (\<lambda>w cr. (w\<lparr>envoyfilters := (envoyfilters w)(envoyfilter_loc cr \<mapsto> cr)\<rparr>, None)),
     Delete_EnvoyFilter = (\<lambda>w cr.
       if envoyfilters w (envoyfilter_loc cr) = None then (w, Some (NotFoundError ''''))
       else (w\<lparr>envoyfilters := (envoyfilters w)(envoyfilter_loc cr := None)\<rparr>, None)),
     Get_ConfigMap = (\<lambda>w loc. found (configmaps w loc)),
     Update_ConfigMap = (\<lambda>w cm. (w\<lparr>configmaps := (configmaps w)
       (\<lparr>NN_Namespace = CM_Namespace cm, NN_Name = CM_Name cm\<rparr> \<mapsto> cm)\<rparr>, None)),
     Update_Status = (\<lambda>w sl. (w\<lparr>limiters := (limiters w)(object_loc sl \<mapsto> sl)\<rparr>, None)),
     K8S_Get_Service = (\<lambda>w loc. found (services w loc)),
     List_Pods = (\<lambda>w namespace selector. Inr (pods w)),
     HostSubsetMapping_Get = (\<lambda>w i host. case host_subsets w host of
       None \<Rightarrow> NoEntry | Some subsets \<Rightarrow> SubsetSlice (map Some subsets))\<rparr>"

lemma ex_client_stores [simp]: "stores_envoyfilters ex_client envoyfilters"
  by (auto simp: stores_envoyfilters_def ex_client_def found_def same_content_def
      split: option.splits if_splits)

lemma ex_client_subsets [simp]: "sound_subsets ex_client"
  by (auto simp: sound_subsets_def ex_client_def split: option.splits)

lemma ex_client_never_fails [simp]: "never_fails ex_fw ex_client"
  by (auto simp: never_fails_def ex_client_def ex_fw_def found_def split: option.splits)

subsection \<open>A SmartLimiter in a cluster\<close>

definition ex_loc :: NamespacedName where
  "ex_loc = \<lparr>NN_Namespace = ''default'', NN_Name = ''page''\<rparr>"

definition ex_action :: "string \<Rightarrow> SL_Action" where
  "ex_action strategy = \<lparr>Quota = ''100'', FillInterval = Some \<lparr>Seconds = 60, Nanos = 0\<rparr>,
                         Strategy = strategy\<rparr>"

definition ex_descriptor :: "string \<Rightarrow> SmartLimitDescriptor" where
  "ex_descriptor strategy =
     \<lparr>Condition = ''true'', Action = Some (ex_action strategy), Match = None, Target = None,
      CustomKey = '''', CustomValue = ''''\<rparr>"

definition ex_spec :: SmartLimiterSpec where
  "ex_spec = \<lparr>Sets = Some (fmap_of_list [(''_base'', Some
     \<lparr>Descriptor_items = Some [Some (ex_descriptor ''single''), Some (ex_descriptor ''global'')]\<rparr>)]),
     Rls = ''''\<rparr>"

definition ex_limiter :: SmartLimiter where
  "ex_limiter = \<lparr>SL_Name = ''page'', SL_Namespace = ''default'', SL_Labels = None, SL_Spec = ex_spec,
                 SL_Status = \<lparr>RatelimitStatus = None, MetricStatus = None\<rparr>\<rparr>"

definition ex_service :: Service where
  "ex_service = \<lparr>Service_Selector = Some (fmap_of_list [(''app'', ''page'')])\<rparr>"

definition ex_pod :: "string \<Rightarrow> Pod" where
  "ex_pod name = \<lparr>Pod_Name = name, Pod_Labels = Some (fmap_of_list [(''version'', name)]),
                  Pod_DeletionTimestamp = None\<rparr>"

definition ex_subset :: "string \<Rightarrow> Subset" where
  "ex_subset name = \<lparr>Subset_Name = name,
                     Subset_Labels = Some (fmap_of_list [(''version'', name)])\<rparr>"

definition ex_world :: cluster where
  "ex_world = \<lparr>limiters = (\<lambda>_. Some ex_limiter), services = (\<lambda>_. Some ex_service),
               envoyfilters = (\<lambda>_. None), configmaps = (\<lambda>_. None),
               pods = [ex_pod ''v1'', ex_pod ''v2''],
               host_subsets = (\<lambda>_. Some [ex_subset ''v1'', ex_subset ''v2''])\<rparr>"

definition ex_env :: Environment where
  "ex_env = \<lparr>Env_Config = Some \<lparr>Config_Limiter = Some
                \<lparr>DisableGlobalRateLimit = False, DisableAdaptive = True\<rparr>, Config_Metric = None, Config_Global = None\<rparr>,
             Env_RevInScope = (\<lambda>_. True)\<rparr>"

definition ex_reconciler :: "(string, interface) fmap SmartLimiterReconciler" where
  "ex_reconciler = \<lparr>r_env = ex_env, interest = fmempty, metricInfo = fmempty,
                    lastUpdatePolicy = empty_spec\<rparr>"

lemma ex_object_loc [simp]: "object_loc ex_limiter = ex_loc"
  by (simp add: object_loc_def ex_limiter_def ex_loc_def)

lemma ex_complete [simp]: "complete_spec ex_spec"
  by (auto simp: complete_spec_def ex_spec_def complete_descriptor_def ex_descriptor_def
      ex_action_def no_nil_match_def fmpred_iff split: if_splits)

lemma ex_sets [simp]: "Sets (SL_Spec ex_limiter) \<noteq> None" "SL_Spec ex_limiter = ex_spec"
  by (simp_all add: ex_limiter_def ex_spec_def)

definition ex_sets :: "Subset list" where
  "ex_sets = [ex_subset ''v1'', ex_subset ''v2'', \<lparr>Subset_Name = ''_base'', Subset_Labels = None\<rparr>]"

lemma ex_reads [simp]:
  "Get_Service ex_client ex_world loc = Inr ex_service"
  "Get_SmartLimiter ex_client ex_world loc = Inr ex_limiter"
  "host_sets ex_fw ex_client ex_world loc = Inr (map Some ex_sets)"
  "Get_ConfigMap ex_client ex_world loc = Inl (NotFoundError '''')"
  by (simp_all add: ex_client_def ex_world_def found_def host_sets_def ex_sets_def ex_fw_def)

text \<open>The same server without a ConfigMap for the rate-limit service.\<close>

definition ex_client0 :: "cluster client" where
  "ex_client0 = ex_client\<lparr>Get_ConfigMap := \<lambda>w loc. Inl (NotFoundError '''')\<rparr>"

lemma ex_client0_laws [simp]:
  "stores_envoyfilters ex_client0 envoyfilters" "never_fails ex_fw ex_client0"
  "sound_configmaps ex_fw ex_client0"
  using ex_client_stores ex_client_never_fails
  by (simp_all add: ex_client0_def stores_envoyfilters_def never_fails_def sound_configmaps_def)

lemma ex_client0_reads [simp]:
  "Get_Service ex_client0 ex_world loc = Inr ex_service"
  "host_sets ex_fw ex_client0 ex_world loc = Inr (map Some ex_sets)"
  by (simp_all add: ex_client0_def ex_client_def ex_world_def found_def host_sets_def ex_sets_def ex_fw_def)

lemma ex_refresh:
  "\<exists>w' e. refresh ex_fw fmap_cmap ex_client0 ascending ex_reconciler ex_limiter ex_world = Inr (w', e)"
  using refresh_total [of ascending ex_fw ex_limiter ex_client0 ex_world ex_sets fmap_cmap
      ex_reconciler] by simp

lemma ex_refresh_reads:
  assumes "refresh ex_fw M ex_client0 ch r sl ex_world = Inr (w', e)"
  shows "Get_Service ex_client0 w' loc = Get_Service ex_client0 ex_world loc"
    and "host_sets ex_fw ex_client0 w' loc = host_sets ex_fw ex_client0 ex_world loc"
proof -
  have "writes_preserve ex_client0 (\<lambda>w. (services w, host_subsets w))"
    by (auto simp: writes_preserve_def ex_client0_def ex_client_def)
  from refresh_preserves [OF this ex_fw_laws(3) assms]
  show "Get_Service ex_client0 w' loc = Get_Service ex_client0 ex_world loc"
    and "host_sets ex_fw ex_client0 w' loc = host_sets ex_fw ex_client0 ex_world loc"
    by (simp_all add: ex_client0_def ex_client_def host_sets_def Let_def)
qed

lemma ex_fmt_100: "fmt_int 100 = ''100''"
  by code_simp

lemma ex_Atoi [simp]: "Atoi ''100'' = (100, None)"
  using Atoi_fmt_int [of 100] by (simp add: ex_fmt_100)

lemma ex_descriptor_facts:
  "\<not> custom (ex_descriptor s)" "no_nil_match (ex_descriptor s)" "well_timed (ex_descriptor s)"
  "Action (ex_descriptor s) = Some (ex_action s)"
  "is_global (ex_descriptor s) \<longleftrightarrow> s = ''global''" "is_local (ex_descriptor s) \<longleftrightarrow> s \<noteq> ''global''"
  "descriptor_keys (ex_descriptor s) = [''/default'']"
  by (simp_all add: ex_descriptor_def ex_action_def custom_def no_nil_match_def well_timed_def is_global_def
      is_local_def descriptor_keys_def generateRouteConfigs_def generateDefaultInboundRouteConfigs_def
      genVhostRouteName_def AllowAllPort_def InboundDefaultRoute_def)

lemma ex_envoyfilter:
  "\<exists>ef. descriptorsToEnvoyFilter ex_fw ascending [ex_descriptor s] labels loc rls = Inr (Some ef)"
proof -
  have "\<not> (\<exists>p. descriptorsToEnvoyFilter ex_fw ascending [ex_descriptor s] labels loc rls = Inl p)"
    unfolding descriptorsToEnvoyFilter_panic_iff [OF fair_ascending ex_fw_laws(2)]
    by (simp add: ex_descriptor_facts)
  then obtain r where "descriptorsToEnvoyFilter ex_fw ascending [ex_descriptor s] labels loc rls = Inr r"
    unfolding not_ex not_Inl_iff by blast
  with descriptorsToEnvoyFilter_not_nil [OF fair_ascending ex_fw_laws(2)] show ?thesis
    by (cases r) auto
qed

lemma ex_generates:
  "\<exists>conf. GenerateEnvoyConfigs ex_fw ex_client ascending ex_world ex_spec m ex_loc = Inr (conf, None)"
proof -
  obtain conf where "sets_loop ex_fw ascending ex_spec (MapToMapInterface ex_fw m)
      (Service_Selector ex_service) ex_loc (map Some ex_sets) no_configs = Inr conf"
    using sets_loop_total [OF fair_ascending ex_fw_laws(2,1) ex_complete] by blast
  then show ?thesis by (simp add: GenerateEnvoyConfigs_def)
qed

lemma ex_valid: "\<exists>v. valid_descriptors ex_fw fmempty [Some (ex_descriptor s)] = Inr [v]"
  by (simp add: evaluate_descriptor_def ex_descriptor_def ex_action_def ex_fw_def ex_quota_def)

lemma ex_global_item:
  "\<exists>item. global_item ex_fw loc (ex_descriptor s) = Some item
     \<and> Descriptor_RateLimit item = Some \<lparr>RequestsPerUnit = 100, Unit = ''MINUTE''\<rparr>"
  by (simp add: global_item_def ex_descriptor_def ex_action_def unit_of_seconds_def)

lemma ex_base_valid: "set_valid ex_fw ex_spec m ''_base'' \<noteq> []"
  by (simp add: set_valid_def ex_spec_def evaluate_descriptor_def ex_descriptor_def ex_action_def
      ex_fw_def ex_quota_def)

lemma ex_proto: "\<exists>mi. ProtoToMap ex_fw ef = Inr mi"
  by (simp add: ex_fw_def)

definition ex_entry :: "string \<Rightarrow> Descriptor" where
  "ex_entry v = \<lparr>Key = ''generic_key'', Value = v, Descriptor_RateLimit = None\<rparr>"

definition ex_configmap :: "Descriptor list \<Rightarrow> ConfigMap" where
  "ex_configmap ds = constructConfigMap ex_fw (map Some ds)"

lemma ex_configmap_holds:
  "holds_config ex_fw (ex_configmap ds) (Some \<lparr>RLC_Domain = ''slime'', RLC_Descriptors = map Some ds\<rparr>)"
  by (rule configmap_data_holds) (simp_all add: ex_configmap_def)

lemma constructConfigMap_loc [simp]:
  "\<lparr>NN_Namespace = CM_Namespace (constructConfigMap fw ds), NN_Name = CM_Name (constructConfigMap fw ds)\<rparr>
     = getConfigMapNamespaceName"
  by (simp add: constructConfigMap_def Let_def)

subsection \<open>Metrics and a running controller\<close>

definition ex_meta :: "(string \<times> 64 word) list \<Rightarrow> StaticMeta" where
  "ex_meta counts = \<lparr>Meta_Name = ''page'', Meta_Namespace = ''default'',
                     NPod = Some (fmap_of_list counts), IsGroup = Some fmempty\<rparr>"

definition ex_result :: "string \<Rightarrow> string \<Rightarrow> metric_Result" where
  "ex_result name v = \<lparr>Result_Name = name, Result_Value = Some (fmap_of_list [(''x'', v)])\<rparr>"

lemma ex_fmt_2: "fmt_int 2 = ''2''"
  by code_simp

lemma ex_single: "single_value (Some (fmap_of_list [(k, v)])) = Some v"
proof -
  have "sorted_list_of_fset {|k|} = [k]" by (simp add: sorted_list_of_fset.rep_eq)
  then show ?thesis by (simp add: single_value_def)
qed

lemma ex_metric_facts:
  "collected [ex_result name v] m = fmupd name v m"
  "pod_counts (ex_meta []) = fmempty"
  "pod_counts ((ex_meta [])\<lparr>IsGroup := g\<rparr>) = fmempty"
  "fmlookup (pod_counts (ex_meta [(k, 2)])) j = (if j = k then Some ''2'' else None)"
  using ex_single [of "''x''" v]
  by (auto simp: ex_result_def pod_counts_def ex_meta_def ex_fmt_2 intro: fmap_ext)

lemma ex_known: "known_subsets ex_fw ex_client ex_world loc = map Some [ex_subset ''v1'', ex_subset ''v2'']"
  by (simp add: known_subsets_def ex_client_def ex_fw_def ex_world_def)

lemma ex_base: "Wellkonw_BaseSet ex_fw = ''_base''"
  by (simp add: ex_fw_def)

lemma ex_in_subset: "in_subset ex_fw (ex_pod a) (ex_subset b) \<longleftrightarrow> a = b"
  by (auto simp: in_subset_def ex_fw_def ex_contains_def ex_pod_def ex_subset_def fmpred_iff)

definition ex_new_client :: "string \<Rightarrow> goerror + unit" where
  "ex_new_client address = Inr ()"

definition ex_interested :: "(string, interface) fmap SmartLimiterReconciler" where
  "ex_interested = ex_reconciler\<lparr>lastUpdatePolicy := ex_spec,
     interest := fmap_of_list [(''default/page'', EmptyStruct)]\<rparr>"

lemma ex_init: "limiter_init ex_new_client fmap_cmap ex_env (ex_reconciler, ex_world)"
  by (simp add: limiter_init_def NewReconciler_def newProducerConfig_def adaptive_enabled_def ex_env_def
      ex_reconciler_def fmap_cmap_def Let_def)

lemma ex_reconcile:
  "Reconcile ex_fw fmap_cmap ex_client ex_loc (ex_reconciler, ex_world) = Inr (ex_interested, ex_world, None)"
  by (simp add: Reconcile_def ex_reconciler_def ex_env_def ex_interested_def fmap_cmap_def request_key_def
      ex_loc_def empty_spec_def ex_spec_def ex_limiter_def)

lemma ex_reachable:
  "\<exists>r. reachable (limiter_init ex_new_client fmap_cmap ex_env)
          (limiter_step ex_fw ex_json fmap_cmap ex_client) (r, ex_world)
     \<and> cmap_Get fmap_cmap (interest r) (request_key ex_loc) = Some EmptyStruct"
proof -
  have "limiter_step ex_fw ex_json fmap_cmap ex_client (ex_reconciler, ex_world) (ex_interested, ex_world)"
    using ex_reconcile by (rule limiter_step.reconcile)
  with ex_init have "reachable (limiter_init ex_new_client fmap_cmap ex_env)
      (limiter_step ex_fw ex_json fmap_cmap ex_client) (ex_interested, ex_world)"
    by (blast intro: reachable.intros)
  moreover have "cmap_Get fmap_cmap (interest ex_interested) (request_key ex_loc) = Some EmptyStruct"
    by (simp add: ex_interested_def fmap_cmap_def request_key_def ex_loc_def)
  ultimately show ?thesis by blast
qed

lemma ex_interested_facts:
  "\<not> adaptive_enabled (r_env ex_interested)"
  "cmap_Get fmap_cmap (interest ex_interested) (request_key ex_loc) \<noteq> None"
  "slash_free ex_loc"
  "snd (queryServicePods ex_fw ex_client ex_world ex_loc) = None"
  by (simp_all add: ex_interested_def ex_reconciler_def adaptive_enabled_def ex_env_def fmap_cmap_def
      request_key_def ex_loc_def slash_free_def queryServicePods_def ex_client_def ex_world_def found_def)

lemma ex_ticker:
  "\<exists>q. handleTickerEvent ex_fw ex_json fmap_cmap ex_client ascending ex_interested ex_world = Inr (Some q)"
proof -
  have "''default/page'' = request_key ex_loc" by (simp add: request_key_def ex_loc_def)
  then have "limiter_inv fmap_cmap ex_env (ex_interested, ex_world)"
    by (auto simp: limiter_inv_def interest_keys_def metric_entries_def ex_interested_def ex_reconciler_def
        fmap_cmap_def split: if_splits)
  moreover have "handlers_present ex_env" by (simp add: handlers_present_def ex_env_def)
  ultimately show ?thesis
    by (rule handleTickerEvent_total [OF fair_ascending concurrent_map_fmap_cmap _ _ ex_client_subsets])
qed

lemma ex_base_pods:
  assumes "querySubsetPods ex_fw ex_client ex_world (fst (queryServicePods ex_fw ex_client ex_world ex_loc)) ex_loc
    = Inr (m, None)"
  shows "pods_under m ''_base'' = [''v1'', ''v2'']"
proof -
  have pods: "fst (queryServicePods ex_fw ex_client ex_world ex_loc) = [ex_pod ''v1'', ex_pod ''v2'']"
    by (simp add: queryServicePods_def ex_client_def ex_world_def found_def ex_pod_def)
  have "distinct (map Subset_Name [ex_subset ''v1'', ex_subset ''v2''])"
    "Wellkonw_BaseSet ex_fw \<notin> Subset_Name ` set [ex_subset ''v1'', ex_subset ''v2'']"
    by (simp_all add: ex_base ex_subset_def)
  from subset_pods_of(1) [OF this, of "[ex_pod ''v1'', ex_pod ''v2'']"] show ?thesis
    using assms unfolding querySubsetPods_eq [OF ex_known] by (simp add: pods ex_base ex_pod_def)
qed

text \<open>The object has been deleted, and the ConfigMap has a descriptor of it and one of another object.\<close>

definition ex_deleted_world :: cluster where
  "ex_deleted_world = ex_world\<lparr>limiters := \<lambda>_. None,
     configmaps := \<lambda>_. Some (ex_configmap [ex_entry ''page.default'', ex_entry ''home.default''])\<rparr>"

lemma ex_deleted_facts:
  "Get_SmartLimiter ex_client ex_deleted_world loc = Inl (NotFoundError '''')"
  "Get_ConfigMap ex_client ex_deleted_world loc
     = Inr (ex_configmap [ex_entry ''page.default'', ex_entry ''home.default''])"
  by (simp_all add: ex_client_def ex_deleted_world_def found_def)

lemma ex_deletion:
  "\<exists>r' w' e. Reconcile ex_fw fmap_cmap ex_client ex_loc (ex_interested, ex_deleted_world) = Inr (r', w', e)"
proof -
  obtain w' where "refreshConfigMap ex_fw ex_client [] ex_loc ex_deleted_world = Inr w'"
    using refreshConfigMap_writes [OF ex_deleted_facts(2) ex_configmap_holds, of "[]" ex_loc] by (auto simp: Let_def)
  then show ?thesis by (simp add: Reconcile_def ex_deleted_facts Let_def)
qed

text \<open>A late answer to the ticker's question, when the object is gone from the cluster.\<close>

lemma ex_late_answer:
  assumes "Unmarshal_StaticMeta ex_json t = Inr meta" "meta_loc meta = ex_loc"
  shows "\<exists>r'. ConsumeMetric ex_fw ex_json fmap_cmap ex_client ascending (Some (fmupd t [] fmempty))
      (ex_interested, ex_deleted_world) = Inr (r', ex_deleted_world)"
proof -
  have info: "metric_info ascending meta [] = Inr (Some (pod_counts meta))"
    using metric_info_plain [OF fair_ascending, of "[]" meta] by simp
  obtain m where "update_metricInfo ascending fmap_cmap ex_loc (Some (pod_counts meta)) (metricInfo ex_interested) = Inr m"
    using update_metricInfo_new [OF concurrent_map_fmap_cmap, of "metricInfo ex_interested" ex_loc]
    by (force simp: ex_interested_def ex_reconciler_def fmap_cmap_def)
  then show ?thesis
    using assms(2)
    by (simp add: ConsumeMetric_def go_range_single assms(1) info Let_def Refresh_def ex_deleted_facts meta_loc_def)
qed

subsection \<open>A member cluster\<close>

definition ex_clientcmd :: "(string, string, string) clientcmd" where
  "ex_clientcmd = \<lparr>cc_Load = Inr, cc_Validate = (\<lambda>_. None), cc_ClientConfig = Inr, cc_NewForConfig = Inr\<rparr>"

definition ex_secret :: Secret where
  "ex_secret = \<lparr>Secret_Namespace = ''istio-mc'', Secret_Data = Some (fmap_of_list [(''c1'', ''config''), (''c2'', '''')])\<rparr>"

definition ex_controller :: "(string, string list) Controller" where
  "ex_controller = New [\<lambda>k x. x @ [k]] [\<lambda>i x. removeAll i x] []"

definition ex_queue :: "((string \<Rightarrow> nat) \<times> string list \<times> bool) workqueue" where
  "ex_queue = \<lparr>
     wq_Get = (\<lambda>(n, keys, down). case keys of [] \<Rightarrow> None | k # rest \<Rightarrow> Some (k, (n, rest, down))),
     wq_Done = (\<lambda>q k. q),
     wq_Forget = (\<lambda>(n, keys, down) k. (n(k := 0), keys, down)),
     wq_AddRateLimited = (\<lambda>(n, keys, down) k.
       (n(k := Suc (n k)), if down \<or> k \<in> set keys then keys else keys @ [k], down)),
     wq_NumRequeues = fst,
     wq_Add = (\<lambda>(n, keys, down) k. (n, if down \<or> k \<in> set keys then keys else keys @ [k], down)),
     wq_ShutDown = (\<lambda>(n, keys, down). (n, keys, True)),
     wq_ShuttingDown = (\<lambda>(n, keys, down). down),
     wq_Len = (\<lambda>(n, keys, down). length keys)\<rparr>"

lemma ex_queue_counts: "counts_requeues ex_queue"
  by (auto simp: counts_requeues_def ex_queue_def split: list.splits)

lemma ex_usable: "usable ex_clientcmd v \<longleftrightarrow> v \<noteq> ''''" "client_of ex_clientcmd v = Some v"
  by (simp_all add: usable_def client_of_def ex_clientcmd_def)

definition ex_secrets :: "string \<Rightarrow> Secret option" where
  "ex_secrets = (\<lambda>_. None)(''s'' \<mapsto> ex_secret)"

lemma ex_members:
  "\<exists>c. reachable (member_init [\<lambda>k x. x @ [k]] [\<lambda>i x. removeAll i x] []) (member_step ex_clientcmd)
         (ex_secrets, {}, c) \<and> fmlookup (cs c) ''c1'' = Some ''s''"
proof -
  let ?step = "member_step ex_clientcmd"
  let ?c = "addMemberCluster ex_clientcmd ascending ''s'' ex_secret ex_controller"
  have "?step ((\<lambda>_. None), {}, ex_controller) (ex_secrets, {''s''}, ex_controller)"
    unfolding ex_secrets_def by (rule member_step.secret_added) simp
  moreover have "?step (ex_secrets, {''s''}, ex_controller) (ex_secrets, {''s''} - {''s''}, ?c)"
    by (rule member_step.item_processed [OF _ fair_ascending]) (simp_all add: processItem_def ex_secrets_def)
  moreover have "member_init [\<lambda>k x. x @ [k]] [\<lambda>i x. removeAll i x] [] ((\<lambda>_. None), {}, ex_controller)"
    by (simp add: member_init_def ex_controller_def)
  ultimately have "reachable (member_init [\<lambda>k x. x @ [k]] [\<lambda>i x. removeAll i x] []) ?step
      (ex_secrets, {}, ?c)"
    unfolding Diff_cancel by (blast intro: reachable.intros)
  moreover have "fmlookup (cs ?c) ''c1'' = Some ''s''"
    by (simp add: addMemberCluster_cs ex_secret_def ex_usable ex_controller_def New_def)
  ultimately show ?thesis by blast
qed

subsection \<open>A SmartLimiter in memory\<close>

definition ex_xxx :: XXX_fields where
  "ex_xxx = \<lparr>XXX_unrecognized = None, XXX_sizecache = 0\<rparr>"

definition ex_target_obj :: Target_obj where
  "ex_target_obj = \<lparr>to_Direction = ''outbound'', to_Port = 0, to_Route = Some 6, to_Host = None, to_XXX = ex_xxx\<rparr>"

definition ex_descriptor_obj :: Descriptor_obj where
  "ex_descriptor_obj = \<lparr>so_Condition = ''true'', so_Action = None, so_Match = None, so_Target = Some 5,
     so_CustomKey = '''', so_CustomValue = '''', so_XXX = ex_xxx\<rparr>"

definition ex_limiter_obj :: "addr option SmartLimiter_obj" where
  "ex_limiter_obj = \<lparr>mo_TypeMeta = \<lparr>tm_Kind = ''SmartLimiter'', tm_APIVersion = ''microservice.slime.io/v1alpha2''\<rparr>,
     mo_ObjectMeta = Some 7,
     mo_Spec = \<lparr>po_Sets = Some 1, po_Rls = '''', po_XXX = ex_xxx\<rparr>,
     mo_Status = \<lparr>uo_RatelimitStatus = None, uo_MetricStatus = None, uo_XXX = ex_xxx\<rparr>\<rparr>"

text \<open>The object is at address 0, the array of its only route at 6, its labels at 7.\<close>

definition ex_store :: "(addr option, unit) store" where
  "ex_store = \<lparr>lim = 10, bytes_cell = (\<lambda>_. []), strings_cell = (\<lambda>_. [''vhost/route'']),
     strmap_cell = (\<lambda>_. fmempty), time_cell = (\<lambda>_. 0),
     duration_cell = (\<lambda>_. \<lparr>do_Duration = \<lparr>Seconds = 60, Nanos = 0\<rparr>, do_XXX = ex_xxx\<rparr>),
     matcher_cell = (\<lambda>_. undefined), matchers_cell = (\<lambda>_. []), action_cell = (\<lambda>_. undefined),
     target_cell = (\<lambda>_. ex_target_obj), descriptor_cell = (\<lambda>_. ex_descriptor_obj),
     pointers_cell = (\<lambda>_. [Some 4]),
     descriptors_cell = (\<lambda>_. \<lparr>dso_Descriptor = Some 3, dso_XXX = ex_xxx\<rparr>),
     sets_cell = (\<lambda>_. fmap_of_list [(''_base'', Some 2)]), spec_cell = (\<lambda>_. undefined),
     status_cell = (\<lambda>_. undefined), config_cell = (\<lambda>_. undefined),
     limiter_cell = (\<lambda>_. ex_limiter_obj), limiters_cell = (\<lambda>_. [ex_limiter_obj]),
     list_cell = (\<lambda>_. \<lparr>io_TypeMeta = \<lparr>tm_Kind = ''SmartLimiterList'', tm_APIVersion = ''''\<rparr>,
                          io_ListMeta = (), io_Items = Some 8\<rparr>)\<rparr>"

definition ex_copy_meta :: "addr option \<Rightarrow> (addr option, unit) store \<Rightarrow> addr option \<times> (addr option, unit) store" where
  "ex_copy_meta = copy_pointer strmap_cell strmap_cell_update copy_value"

definition ex_own_meta :: "(addr option, unit) store \<Rightarrow> addr option \<Rightarrow> addr set" where
  "ex_own_meta = own_pointer strmap_cell none"

lemma ex_meta_copier:
  "copier (val_pointer strmap_cell (\<lambda>h x. x)) ex_own_meta none ex_copy_meta"
  using copier_pointer [OF strmaps.cell_axioms copier_value [of "\<lambda>x. x"]]
  by (simp add: ex_own_meta_def ex_copy_meta_def)

lemma ex_list_meta_copier: "copier (\<lambda>h x. x) none none copy_value"
  by (rule copier_value)

lemma each_entry_single: "each_entry f h (fmupd k v fmempty) = f h v"
  by (simp add: each_entry_def)

lemmas ex_store_defs = ex_store_def ex_limiter_obj_def ex_descriptor_obj_def ex_target_obj_def ex_xxx_def
  own_pointer_def shared_pointer_def each_elem_def each_entry_single own_SmartLimiterList_def
  shared_SmartLimiterList_def own_SmartLimiter_def shared_SmartLimiter_def own_Spec_def shared_Spec_def
  own_Status_def shared_Status_def own_sets_def shared_sets_def own_Descriptors_def shared_Descriptors_def
  own_Descriptor_def shared_Descriptor_def own_Target_def shared_Target_def own_XXX_def ex_own_meta_def

lemma ex_store_owned:
  "own_pointer limiter_cell (own_SmartLimiter ex_own_meta) ex_store (Some 0) = {0, 1, 2, 3, 4, 5, 7}"
  "shared_pointer limiter_cell shared_SmartLimiter ex_store (Some 0) = {6}"
  "own_pointer list_cell (own_SmartLimiterList ex_own_meta none) ex_store (Some 9) = {1, 2, 3, 4, 5, 7, 8, 9}"
  "shared_pointer list_cell shared_SmartLimiterList ex_store (Some 9) = {6}"
  "lim ex_store = 10" "to_Route (target_cell ex_store a) = Some 6"
  by (auto simp: ex_store_defs)

lemma ex_consume:
  "\<exists>r' w'. ConsumeMetric ex_fw ex_json fmap_cmap ex_client0 ascending
     (Some (fmupd (StaticMeta_String ex_json (ex_meta kns)) [] fmempty)) (ex_reconciler, ex_world) = Inr (r', w')"
proof -
  let ?args = "Some (pod_counts (ex_meta kns))"
  have loc: "\<lparr>NN_Namespace = Meta_Namespace (ex_meta kns), NN_Name = Meta_Name (ex_meta kns)\<rparr> = ex_loc"
    by (simp add: ex_meta_def ex_loc_def)
  have decoded: "Unmarshal_StaticMeta ex_json (StaticMeta_String ex_json (ex_meta kns)) = Inr (ex_meta kns)"
    by (rule json_round_tripD(2)) simp
  have info: "metric_info ascending (ex_meta kns) [] = Inr ?args"
    using metric_info_plain [OF fair_ascending, of "[]" "ex_meta kns"] by simp
  obtain m where m: "update_metricInfo ascending fmap_cmap ex_loc ?args (metricInfo ex_reconciler) = Inr m"
    using update_metricInfo_new [OF concurrent_map_fmap_cmap, of "metricInfo ex_reconciler" ex_loc]
    by (force simp: ex_reconciler_def fmap_cmap_def)
  obtain w' e where "refresh ex_fw fmap_cmap ex_client0 ascending (ex_reconciler\<lparr>metricInfo := m\<rparr>) ex_limiter
      ex_world = Inr (w', e)"
    using refresh_total [of ascending ex_fw ex_limiter ex_client0 ex_world ex_sets fmap_cmap
        "ex_reconciler\<lparr>metricInfo := m\<rparr>"] by auto
  moreover have "Get_SmartLimiter ex_client0 ex_world ex_loc = Inr ex_limiter"
    by (simp add: ex_client0_def ex_client_def ex_world_def found_def)
  ultimately have "Refresh ex_fw fmap_cmap ex_client0 ascending ex_loc ?args (ex_reconciler, ex_world)
      = Inr (ex_reconciler\<lparr>metricInfo := m\<rparr>, w', e)"
    by (simp add: Refresh_def m Let_def)
  then show ?thesis
    by (simp add: ConsumeMetric_def go_range_single decoded loc info Let_def)
qed

lemma ex_base_stored:
  assumes "wanted_spec ex_fw ex_limiter m sel ex_sets ''_base'' spec"
    and "as_wanted ex_fw ex_limiter spec None after"
  shows "\<exists>cr. after = Some cr"
proof -
  from assms(1) obtain mi where "spec = Some mi"
    using ex_base_valid [of m] ex_proto by (auto simp: wanted_spec_def split: sum.splits)
  with assms(2) show ?thesis by (auto simp: as_wanted_def)
qed

end
