(* ===== verification/Concurrent.thy ===== *)
theory Concurrent
  imports Reconciler
begin

section \<open>Concurrent updates of the ConfigMap\<close>

text \<open>
  \<open>Reconcile\<close>, the metric loop and the subscription to DestinationRules run in different
  goroutines, and each of them may be in \<open>refreshConfigMap\<close> for another service: no lock is
  held between reading the ConfigMap and writing it. What keeps them apart is the resource
  version, which the code copies from the object it read: the API server rejects an update
  whose version is not the current one. The client reads from a cache, so that what it reads
  may be an older version.

  Here \<open>refreshConfigMap\<close> is split at its two calls, and any number of goroutines, \<open>'i\<close>,
  interleave their halves.
\<close>

subsection \<open>The two halves of an update\<close>

text \<open>What \<open>refreshConfigMap\<close> submits once it has read \<open>found\<close>.\<close>

definition planned_update ::
    "framework \<Rightarrow> Descriptor list \<Rightarrow> NamespacedName \<Rightarrow> ConfigMap \<Rightarrow> ConfigMap option go" where
  "planned_update fw desc serviceLoc found =
     (case map_get (CM_Data found) ConfigMapConfig of
        None \<Rightarrow> Inr None
      | Some config \<Rightarrow>
          (case YamlUnmarshal fw config of
             Inl err \<Rightarrow> Inr None
           | Inr rc \<Rightarrow>
               gbind (deref rc) (\<lambda>rc.
               gbind (other_services (NN_Name serviceLoc @ ''.'' @ NN_Namespace serviceLoc)
                        (RLC_Descriptors rc)) (\<lambda>newCm.
                 let configmap = constructConfigMap fw (newCm @ map Some desc)
                 in Inr (if CM_Data found \<noteq> CM_Data configmap
                         then Some (configmap\<lparr>CM_ResourceVersion := CM_ResourceVersion found\<rparr>)
                         else None)))))"

lemma refreshConfigMap_halves:
  "refreshConfigMap fw C desc loc w =
     (case Get_ConfigMap C w getConfigMapNamespaceName of
        Inl err \<Rightarrow> Inr w
      | Inr found \<Rightarrow> gbind (planned_update fw desc loc found) (\<lambda>p.
          Inr (case p of None \<Rightarrow> w | Some cm \<Rightarrow> fst (Update_ConfigMap C w cm))))"
proof (cases "Get_ConfigMap C w getConfigMapNamespaceName")
  case (Inr found)
  have assoc: "gbind (gbind m f) g = gbind m (\<lambda>x. gbind (f x) g)" for m :: "'x go" and f :: "'x \<Rightarrow> 'y go"
    and g :: "'y \<Rightarrow> 'w go"
    by (cases m) simp_all
  show ?thesis
    by (auto simp: refreshConfigMap_def planned_update_def Inr assoc Let_def
        split: option.split sum.split intro!: arg_cong [where f = "gbind _"] ext)
qed (simp add: refreshConfigMap_def)

lemma planned_update_eq:
  assumes "holds_config fw found (Some rc)" "None \<notin> set (RLC_Descriptors rc)"
  shows "planned_update fw desc loc found =
           (let ds = merged_descriptors loc (RLC_Descriptors rc) desc
            in Inr (if CM_Data found = configmap_data fw ds then None
                    else Some ((constructConfigMap fw ds)\<lparr>CM_ResourceVersion := CM_ResourceVersion found\<rparr>)))"
proof -
  have "other_services (NN_Name loc @ ''.'' @ NN_Namespace loc) (RLC_Descriptors rc)
      = Inr (filter (of_other_services loc) (RLC_Descriptors rc))"
    using assms(2) by (simp add: other_services_Inr_iff of_other_services_def [abs_def] service_info_def)
  moreover obtain yml where "map_get (CM_Data found) ConfigMapConfig = Some yml"
    "YamlUnmarshal fw yml = Inr (Some rc)"
    using assms(1) by (auto simp: holds_config_def ConfigMapConfig_def)
  ultimately show ?thesis
    by (simp add: planned_update_def merged_descriptors_def Let_def del: append.simps)
qed

lemma planned_update_Some:
  assumes "planned_update fw desc loc found = Inr (Some cm)"
  obtains rc where "holds_config fw found (Some rc)" "None \<notin> set (RLC_Descriptors rc)"
    "CM_Data cm = configmap_data fw (merged_descriptors loc (RLC_Descriptors rc) desc)"
    "CM_ResourceVersion cm = CM_ResourceVersion found"
    "\<lparr>NN_Namespace = CM_Namespace cm, NN_Name = CM_Name cm\<rparr> = getConfigMapNamespaceName"
proof -
  obtain config rc newCm where "map_get (CM_Data found) ConfigMapConfig = Some config"
    "YamlUnmarshal fw config = Inr (Some rc)"
    "other_services (NN_Name loc @ ''.'' @ NN_Namespace loc) (RLC_Descriptors rc) = Inr newCm"
    "cm = (constructConfigMap fw (newCm @ map Some desc))\<lparr>CM_ResourceVersion := CM_ResourceVersion found\<rparr>"
    using assms
    by (auto simp: planned_update_def Let_def split: option.splits sum.splits if_splits
        simp del: append.simps)
  then show ?thesis
    by (intro that [of rc])
      (auto simp: holds_config_def ConfigMapConfig_def other_services_Inr_iff merged_descriptors_def
        of_other_services_def [abs_def] service_info_def constructConfigMap_def configmap_data_def
        DomainName_def Let_def simp del: append.simps)
qed

subsection \<open>The contract of the API server\<close>

text \<open>
  \<open>current w\<close> is the stored ConfigMap, \<open>issued w v\<close> the data that was stored under version \<open>v\<close>.
  Every modification gets a version that was never used. A read returns some version that was
  issued, not necessarily the last. An update that carries a version succeeds only if it is
  the current one, and an update that fails changes nothing.
\<close>

definition versions_configmaps ::
    "'w client \<Rightarrow> ('w \<Rightarrow> ConfigMap option) \<Rightarrow> ('w \<Rightarrow> string \<Rightarrow> string gomap option) \<Rightarrow> bool" where
  "versions_configmaps C current issued \<longleftrightarrow>
     (\<forall>w. issued w '''' = None)
   \<and> (\<forall>w cm. current w = Some cm \<longrightarrow> issued w (CM_ResourceVersion cm) = Some (CM_Data cm))
   \<and> (\<forall>w cm. Get_ConfigMap C w getConfigMapNamespaceName = Inr cm \<longrightarrow>
        issued w (CM_ResourceVersion cm) = Some (CM_Data cm))
   \<and> (\<forall>w cm w'. \<lparr>NN_Namespace = CM_Namespace cm, NN_Name = CM_Name cm\<rparr> = getConfigMapNamespaceName \<longrightarrow>
        CM_ResourceVersion cm \<noteq> '''' \<longrightarrow> Update_ConfigMap C w cm = (w', None) \<longrightarrow>
        (\<exists>old new. current w = Some old \<and> CM_ResourceVersion cm = CM_ResourceVersion old
           \<and> issued w (CM_ResourceVersion new) = None \<and> CM_Data new = CM_Data cm
           \<and> current w' = Some new \<and> issued w' = (issued w)(CM_ResourceVersion new \<mapsto> CM_Data cm)))
   \<and> (\<forall>w cm w' err. Update_ConfigMap C w cm = (w', Some err) \<longrightarrow>
        current w' = current w \<and> issued w' = issued w)"

lemma versions_configmapsD:
  assumes "versions_configmaps C current issued"
  shows "issued w '''' = None"
    and "current w = Some cm \<Longrightarrow> issued w (CM_ResourceVersion cm) = Some (CM_Data cm)"
    and "Get_ConfigMap C w getConfigMapNamespaceName = Inr cm \<Longrightarrow>
           issued w (CM_ResourceVersion cm) = Some (CM_Data cm)"
    and "\<lparr>NN_Namespace = CM_Namespace cm, NN_Name = CM_Name cm\<rparr> = getConfigMapNamespaceName \<Longrightarrow>
           CM_ResourceVersion cm \<noteq> '''' \<Longrightarrow> Update_ConfigMap C w cm = (w', None) \<Longrightarrow>
           \<exists>old new. current w = Some old \<and> CM_ResourceVersion cm = CM_ResourceVersion old
             \<and> issued w (CM_ResourceVersion new) = None \<and> CM_Data new = CM_Data cm
             \<and> current w' = Some new \<and> issued w' = (issued w)(CM_ResourceVersion new \<mapsto> CM_Data cm)"
    and "Update_ConfigMap C w cm = (w', Some err) \<Longrightarrow> current w' = current w \<and> issued w' = issued w"
  using assms unfolding versions_configmaps_def by - meson+

subsection \<open>Interleaved updates\<close>

type_synonym job = "NamespacedName \<times> Descriptor list"

text \<open>
  The cluster, what each goroutine is about to write, and the jobs whose write has succeeded.
  The last rule is any other change of the cluster.
\<close>

inductive writer_step ::
    "framework \<Rightarrow> 'w client \<Rightarrow> ('w \<Rightarrow> ConfigMap option) \<Rightarrow> ('w \<Rightarrow> string \<Rightarrow> string gomap option)
       \<Rightarrow> 'w \<times> ('i \<Rightarrow> (job \<times> ConfigMap) option) \<times> job list
       \<Rightarrow> 'w \<times> ('i \<Rightarrow> (job \<times> ConfigMap) option) \<times> job list \<Rightarrow> bool"
  for fw :: framework and C :: "'w client" and current issued where
  planned: "pending i = None \<Longrightarrow> Get_ConfigMap C w getConfigMapNamespaceName = Inr found \<Longrightarrow>
     planned_update fw desc loc found = Inr (Some cm) \<Longrightarrow>
     writer_step fw C current issued (w, pending, js) (w, pending(i \<mapsto> ((loc, desc), cm)), js)"
| written: "pending i = Some (job, cm) \<Longrightarrow> Update_ConfigMap C w cm = (w', None) \<Longrightarrow>
     writer_step fw C current issued (w, pending, js) (w', pending(i := None), js @ [job])"
| rejected: "pending i = Some (job, cm) \<Longrightarrow> Update_ConfigMap C w cm = (w', Some err) \<Longrightarrow>
     writer_step fw C current issued (w, pending, js) (w', pending(i := None), js)"
| elsewhere: "current w' = current w \<Longrightarrow> issued w' = issued w \<Longrightarrow>
     writer_step fw C current issued (w, pending, js) (w', pending, js)"

inductive_cases writer_stepE: "writer_step fw C current issued s t"

definition writer_init ::
    "framework \<Rightarrow> ('w \<Rightarrow> ConfigMap option) \<Rightarrow> Descriptor option list
       \<Rightarrow> 'w \<times> ('i \<Rightarrow> (job \<times> ConfigMap) option) \<times> job list \<Rightarrow> bool" where
  "writer_init fw current ds = (\<lambda>(w, pending, js). pending = (\<lambda>_. None) \<and> js = []
     \<and> (\<exists>cm rc. current w = Some cm \<and> holds_config fw cm (Some rc) \<and> RLC_Descriptors rc = ds))"

text \<open>An update that is not interrupted is two of these steps.\<close>

lemma refreshConfigMap_steps:
  assumes "refreshConfigMap fw C desc loc w = Inr w'" "pending i = None"
  shows "\<exists>js1. (writer_step fw C current issued)\<^sup>*\<^sup>* (w, pending, js) (w', pending, js1)"
proof (cases "w' = w")
  case False
  then obtain found cm where get: "Get_ConfigMap C w getConfigMapNamespaceName = Inr found"
    and plan: "planned_update fw desc loc found = Inr (Some cm)" and w': "w' = fst (Update_ConfigMap C w cm)"
    using assms(1) by (auto simp: refreshConfigMap_halves split: sum.splits option.splits)
  let ?pending = "pending(i \<mapsto> ((loc, desc), cm))"
  have first: "writer_step fw C current issued (w, pending, js) (w, ?pending, js)"
    using assms(2) get plan by (rule writer_step.planned)
  have cleared: "?pending(i := None) = pending" using assms(2) by auto
  show ?thesis
  proof (cases "snd (Update_ConfigMap C w cm)")
    case None
    with w' have "Update_ConfigMap C w cm = (w', None)" by (metis prod.collapse)
    then have "writer_step fw C current issued (w, ?pending, js) (w', ?pending(i := None), js @ [(loc, desc)])"
      by (intro writer_step.written) simp_all
    with first show ?thesis unfolding cleared by (meson converse_rtranclp_into_rtranclp r_into_rtranclp)
  next
    case (Some err)
    with w' have "Update_ConfigMap C w cm = (w', Some err)" by (metis prod.collapse)
    then have "writer_step fw C current issued (w, ?pending, js) (w', ?pending(i := None), js)"
      by (intro writer_step.rejected) simp_all
    with first show ?thesis unfolding cleared by (meson converse_rtranclp_into_rtranclp r_into_rtranclp)
  qed
qed auto

subsection \<open>The updates are serialised\<close>

definition apply_job :: "job \<Rightarrow> Descriptor option list \<Rightarrow> Descriptor option list" where
  "apply_job = (\<lambda>(loc, desc) ds. merged_descriptors loc ds desc)"

definition stores_descriptors ::
    "framework \<Rightarrow> ('w \<Rightarrow> ConfigMap option) \<Rightarrow> 'w \<Rightarrow> Descriptor option list \<Rightarrow> bool" where
  "stores_descriptors fw current w ds \<longleftrightarrow>
     (\<exists>cm rc. current w = Some cm \<and> holds_config fw cm (Some rc) \<and> RLC_Descriptors rc = ds)"

definition writer_inv ::
    "framework \<Rightarrow> ('w \<Rightarrow> ConfigMap option) \<Rightarrow> ('w \<Rightarrow> string \<Rightarrow> string gomap option)
       \<Rightarrow> Descriptor option list \<Rightarrow> 'w \<times> ('i \<Rightarrow> (job \<times> ConfigMap) option) \<times> job list \<Rightarrow> bool" where
  "writer_inv fw current issued ds = (\<lambda>(w, pending, js).
     stores_descriptors fw current w (fold apply_job js ds)
   \<and> (\<forall>i loc desc cm. pending i = Some ((loc, desc), cm) \<longrightarrow>
        (\<exists>found. planned_update fw desc loc found = Inr (Some cm)
           \<and> issued w (CM_ResourceVersion found) = Some (CM_Data found))))"

text \<open>The invariant looks at the cluster only through \<open>current\<close> and the versions issued.\<close>

lemma holds_config_data: "CM_Data a = CM_Data b \<Longrightarrow> holds_config fw a rc \<longleftrightarrow> holds_config fw b rc"
  by (simp add: holds_config_def)

lemma holds_config_unique:
  "holds_config fw cm (Some rc) \<Longrightarrow> holds_config fw cm (Some rc') \<Longrightarrow> rc = rc'"
  by (auto simp: holds_config_def)

lemma written_inv:
  assumes laws: "versions_configmaps C current issued" and yaml: "yaml_round_trip fw"
    and inv: "writer_inv fw current issued ds (w, pending, js)"
    and job: "pending i = Some (job, cm)" and run: "Update_ConfigMap C w cm = (w', None)"
  shows "writer_inv fw current issued ds (w', pending(i := None), js @ [job])"
proof -
  obtain loc desc where j: "job = (loc, desc)" by (cases job)
  obtain found where plan: "planned_update fw desc loc found = Inr (Some cm)"
    and read: "issued w (CM_ResourceVersion found) = Some (CM_Data found)"
    using inv job unfolding writer_inv_def j split_conv by blast
  from plan obtain rc where rc: "holds_config fw found (Some rc)" "None \<notin> set (RLC_Descriptors rc)"
    and cm: "CM_Data cm = configmap_data fw (merged_descriptors loc (RLC_Descriptors rc) desc)"
      "CM_ResourceVersion cm = CM_ResourceVersion found"
      "\<lparr>NN_Namespace = CM_Namespace cm, NN_Name = CM_Name cm\<rparr> = getConfigMapNamespaceName"
    by (rule planned_update_Some)
  have "CM_ResourceVersion cm \<noteq> ''''"
    using read versions_configmapsD(1) [OF laws] unfolding cm(2) by (metis option.distinct(1))
  from versions_configmapsD(4) [OF laws cm(3) this run] obtain old new where
    old: "current w = Some old" "CM_ResourceVersion cm = CM_ResourceVersion old"
    and new: "issued w (CM_ResourceVersion new) = None" "CM_Data new = CM_Data cm" "current w' = Some new"
      "issued w' = (issued w)(CM_ResourceVersion new \<mapsto> CM_Data cm)"
    by blast
  have "CM_Data old = CM_Data found"
    using versions_configmapsD(2) [OF laws old(1)] read cm(2) old(2) by simp
  moreover obtain rc' where "holds_config fw old (Some rc')" "RLC_Descriptors rc' = fold apply_job js ds"
    using inv old(1) by (auto simp: writer_inv_def stores_descriptors_def)
  ultimately have "RLC_Descriptors rc = fold apply_job js ds"
    using rc(1) holds_config_data holds_config_unique by metis
  moreover have "holds_config fw new (Some \<lparr>RLC_Domain = ''slime'',
      RLC_Descriptors = merged_descriptors loc (RLC_Descriptors rc) desc\<rparr>)"
    using new(2) cm(1) by (intro configmap_data_holds [OF yaml]) simp
  ultimately have "stores_descriptors fw current w' (fold apply_job (js @ [job]) ds)"
    using new(3) by (auto simp: stores_descriptors_def j apply_job_def)
  moreover have "\<exists>found. planned_update fw desc' loc' found = Inr (Some cm')
      \<and> issued w' (CM_ResourceVersion found) = Some (CM_Data found)"
    if other: "(pending(i := None)) i' = Some ((loc', desc'), cm')" for i' loc' desc' cm'
  proof -
    from other have "pending i' = Some ((loc', desc'), cm')" by (simp split: if_splits)
    with inv obtain found' where "planned_update fw desc' loc' found' = Inr (Some cm')"
      "issued w (CM_ResourceVersion found') = Some (CM_Data found')"
      unfolding writer_inv_def split_conv by blast
    with new(1,4) show ?thesis by (intro exI [of _ found']) auto
  qed
  ultimately show ?thesis unfolding writer_inv_def by blast
qed

lemma writer_step_inv:
  assumes "versions_configmaps C current issued" "yaml_round_trip fw"
    and "writer_inv fw current issued ds s" "writer_step fw C current issued s t"
  shows "writer_inv fw current issued ds t"
  using assms(4)
proof (elim writer_stepE)
  fix pending i w found desc loc cm js
  assume "s = (w, pending, js)" "t = (w, pending(i \<mapsto> ((loc, desc), cm)), js)"
    "Get_ConfigMap C w getConfigMapNamespaceName = Inr found" "planned_update fw desc loc found = Inr (Some cm)"
  with assms(3) versions_configmapsD(3) [OF assms(1)] show ?thesis by (auto simp: writer_inv_def)
next
  fix pending i job cm w w' js
  assume "s = (w, pending, js)" "t = (w', pending(i := None), js @ [job])"
    "pending i = Some (job, cm)" "Update_ConfigMap C w cm = (w', None)"
  with written_inv [OF assms(1,2), of ds w pending js i job cm w'] assms(3) show ?thesis by simp
next
  fix pending i job cm w w' err js
  assume "s = (w, pending, js)" "t = (w', pending(i := None), js)"
    "Update_ConfigMap C w cm = (w', Some err)"
  with assms(3) versions_configmapsD(5) [OF assms(1)] show ?thesis
    by (simp add: writer_inv_def stores_descriptors_def)
next
  fix w w' pending js
  assume "s = (w, pending, js)" "t = (w', pending, js)" "current w' = current w" "issued w' = issued w"
  with assms(3) show ?thesis by (simp add: writer_inv_def stores_descriptors_def)
qed

lemma writer_init_inv: "writer_init fw current ds s \<Longrightarrow> writer_inv fw current issued ds s"
  by (auto simp: writer_init_def writer_inv_def stores_descriptors_def)

interpretation writers: inductive_invariant
  "\<lambda>s. versions_configmaps C current issued \<and> yaml_round_trip fw \<and> writer_init fw current ds s"
  "writer_step fw C current issued"
  "\<lambda>s. versions_configmaps C current issued \<and> yaml_round_trip fw \<and> writer_inv fw current issued ds s"
  for C :: "'w client" and current issued fw ds
  by unfold_locales (use writer_init_inv writer_step_inv in blast)+

text \<open>
  In every state the ConfigMap is what the successful updates leave when they are done one
  after the other, each without interruption.
\<close>

lemma updates_serialised:
  assumes "versions_configmaps C current issued" "yaml_round_trip fw"
    and "reachable (writer_init fw current ds) (writer_step fw C current issued) (w, pending, js)"
  shows "stores_descriptors fw current w (fold apply_job js ds)"
proof -
  have "reachable (\<lambda>s. versions_configmaps C current issued \<and> yaml_round_trip fw
      \<and> writer_init fw current ds s) (writer_step fw C current issued) (w, pending, js)"
    using assms(1,2) by (intro reachable_mono [OF assms(3)]) simp
  from writers.reachable_inv [OF this] show ?thesis by (simp add: writer_inv_def)
qed

text \<open>What a service has written stays until another write whose service matches its text.\<close>

lemma fold_apply_job_keeps:
  assumes "Some d \<in> set ds"
    and "\<forall>(loc, desc) \<in> set jobs. \<not> strings_Contains (Value d) (service_info loc)"
  shows "Some d \<in> set (fold apply_job jobs ds)"
  using assms
proof (induction jobs arbitrary: ds)
  case (Cons job jobs)
  then have "Some d \<in> set (apply_job job ds)"
    by (auto simp: apply_job_def merged_descriptors_def of_other_services_def split: prod.splits)
  with Cons show ?case by simp
qed simp

subsection \<open>An update on an old version\<close>

lemma stale_update:
  assumes "versions_configmaps C current issued"
    and "Get_ConfigMap C w getConfigMapNamespaceName = Inr found"
    and "current w = Some cm" "CM_ResourceVersion found \<noteq> CM_ResourceVersion cm"
    and "refreshConfigMap fw C desc loc w = Inr w'"
  shows "current w' = Some cm"
proof (cases "w' = w")
  case False
  then obtain new where plan: "planned_update fw desc loc found = Inr (Some new)"
    and w': "w' = fst (Update_ConfigMap C w new)"
    using assms(2,5) by (auto simp: refreshConfigMap_halves split: option.splits)
  have new: "CM_ResourceVersion new = CM_ResourceVersion found"
    "\<lparr>NN_Namespace = CM_Namespace new, NN_Name = CM_Name new\<rparr> = getConfigMapNamespaceName"
    using planned_update_Some [OF plan] by auto
  then have "CM_ResourceVersion new \<noteq> ''''"
    using versions_configmapsD(1,3) [OF assms(1)] assms(2) by (metis option.distinct(1))
  from versions_configmapsD(4) [OF assms(1) new(2) this] assms(3,4) new(1)
  have "snd (Update_ConfigMap C w new) \<noteq> None" by (metis option.inject prod.collapse)
  then obtain err where "Update_ConfigMap C w new = (w', Some err)"
    using w' by (metis not_None_eq prod.collapse)
  with versions_configmapsD(5) [OF assms(1)] assms(3) show ?thesis by metis
qed (use assms(3) in simp)

text \<open>
  Nothing tries again: a deletion that works on an old version reports no error, so that the
  request is not repeated, and the object is forgotten while its descriptors stay.
\<close>

lemma deletion_on_old_version:
  assumes "versions_configmaps C current issued" "concurrent_map M"
    and "Get_SmartLimiter C w req = Inl err" "IsNotFound err"
    and "Get_ConfigMap C w getConfigMapNamespaceName = Inr found"
    and "current w = Some cm" "CM_ResourceVersion found \<noteq> CM_ResourceVersion cm"
    and "Reconcile fw M C req (r, w) = Inr (r', w', e)"
  shows "e = None" "cmap_Get M (interest r') (request_key req) = None"
    "cmap_Get M (metricInfo r') (request_key req) = None" "current w' = Some cm"
proof -
  note run = Reconcile_deleted [OF assms(3,4,8)]
  show "e = None" by (rule run(1))
  show "cmap_Get M (interest r') (request_key req) = None"
    "cmap_Get M (metricInfo r') (request_key req) = None"
    by (simp_all add: run(2,3) concurrent_mapD [OF assms(2)])
  show "current w' = Some cm"
    using run(6) stale_update [OF assms(1,5,6,7)] assms(6) by (auto simp: config_write_def split: if_splits)
qed

end
