(* ===== verification/Interest.thy ===== *)
theory Interest
  imports Reconciler
begin

section \<open>Objects of interest along a run\<close>

text \<open>
  An object becomes of interest when it is reconciled, and stays so whatever the controller
  and the cluster do, until it is reconciled as deleted. The runs considered are those in which
  the cluster holds the object whenever a handler starts.
\<close>

inductive run_while :: "('s \<Rightarrow> bool) \<Rightarrow> ('s \<Rightarrow> 's \<Rightarrow> bool) \<Rightarrow> 's \<Rightarrow> 's \<Rightarrow> bool"
  for P :: "'s \<Rightarrow> bool" and step :: "'s \<Rightarrow> 's \<Rightarrow> bool" where
  run_while_refl: "run_while P step s s"
| run_while_step: "run_while P step s t \<Longrightarrow> P t \<Longrightarrow> step t u \<Longrightarrow> run_while P step s u"

lemma run_while_inv:
  assumes "run_while P step s t" "Q s" "\<And>t u. Q t \<Longrightarrow> P t \<Longrightarrow> step t u \<Longrightarrow> Q u"
  shows "Q t"
  using assms by induction auto

definition object_present ::
    "'w client \<Rightarrow> NamespacedName \<Rightarrow> 'm SmartLimiterReconciler \<times> 'w \<Rightarrow> bool" where
  "object_present C nn = (\<lambda>(r, w). \<forall>req err. request_key req = request_key nn \<longrightarrow>
     Get_SmartLimiter C w req = Inl err \<longrightarrow> \<not> IsNotFound err)"

definition of_interest :: "'m cmap \<Rightarrow> NamespacedName \<Rightarrow> 'm SmartLimiterReconciler \<times> 'w \<Rightarrow> bool" where
  "of_interest M nn s \<longleftrightarrow> cmap_Get M (interest (fst s)) (request_key nn) \<noteq> None"

subsection \<open>No step but a deletion ends the interest\<close>

lemma Reconcile_keeps_interest:
  assumes "concurrent_map M" "of_interest M nn s" "object_present C nn s"
    and "Reconcile fw M C req s = Inr (r', w', e)"
  shows "of_interest M nn (r', w')"
proof -
  obtain r w where s: "s = (r, w)" by (cases s)
  have "request_key req \<noteq> request_key nn" if "Get_SmartLimiter C w req = Inl err" "IsNotFound err" for err
    using assms(3) that unfolding s object_present_def by auto
  with assms(2,4) show ?thesis
    unfolding s
    by (auto simp: Reconcile_def of_interest_def Let_def concurrent_mapD [OF assms(1)]
        split: sum.splits if_splits)
qed

lemma Refresh_interest:
  assumes "Refresh fw M C ch nn args s = Inr (r', w', e)"
  shows "interest r' = interest (fst s)"
  using Refresh_Inr [of fw M C ch nn args "fst s" "snd s"] assms by auto

lemma consume_items_interest:
  "consume_items fw J M C ch items s = Inr s' \<Longrightarrow> interest (fst s') = interest (fst s)"
proof (induction items arbitrary: ch s)
  case (Cons item items)
  obtain metaInfo results where item: "item = (metaInfo, results)" by (cases item)
  show ?case
  proof (cases "Unmarshal_StaticMeta J metaInfo")
    case (Inl err)
    with Cons item show ?thesis by auto
  next
    case (Inr meta)
    with Cons.prems item obtain info r w e where run:
      "Refresh fw M C (ch_right (ch_left ch))
        \<lparr>NN_Namespace = Meta_Namespace meta, NN_Name = Meta_Name meta\<rparr> info s = Inr (r, w, e)"
      "consume_items fw J M C (ch_right ch) items (r, w) = Inr s'"
      by (auto simp: Let_def)
    from Cons.IH [OF run(2)] Refresh_interest [OF run(1)] show ?thesis by simp
  qed
qed simp

lemma limiter_step_interest:
  assumes "concurrent_map M" "of_interest M nn s" "object_present C nn s" "limiter_step fw J M C s t"
  shows "of_interest M nn t"
  using assms(4)
proof (elim limiter_stepE)
  fix req r' w' err assume "Reconcile fw M C req s = Inr (r', w', err)" "t = (r', w')"
  with Reconcile_keeps_interest [OF assms(1-3)] show ?thesis by blast
next
  fix ch metric assume "ConsumeMetric fw J M C ch metric s = Inr t"
  then have "interest (fst t) = interest (fst s)"
    unfolding ConsumeMetric_def by (rule consume_items_interest)
  with assms(2) show ?thesis by (simp add: of_interest_def)
qed (use assms(2) in \<open>simp_all add: of_interest_def\<close>)

lemma interest_until_deleted:
  assumes "concurrent_map M" "run_while (object_present C nn) (limiter_step fw J M C) s t"
    and "of_interest M nn s"
  shows "of_interest M nn t"
  using assms(2,3) by (rule run_while_inv) (rule limiter_step_interest [OF assms(1)])

subsection \<open>From the reconciliation to the question\<close>

lemma Reconcile_new_spec:
  assumes "concurrent_map M" "Get_SmartLimiter C w nn = Inr sl"
    and "Env_RevInScope (r_env r) (IstioRevFromLabel fw (SL_Labels sl))"
    and "SL_Spec sl \<noteq> lastUpdatePolicy r"
    and "Reconcile fw M C nn (r, w) = Inr (r', w', e)"
  shows "of_interest M nn (r', w')" "e = None" "w' = w"
  using assms(5) unfolding Reconcile_present [OF assms(2,3)]
  by (auto simp: of_interest_def assms(4) concurrent_mapD [OF assms(1)])

lemma asked_until_deleted:
  assumes "concurrent_map M" "slash_free nn"
    and "Get_SmartLimiter C w nn = Inr sl" "Env_RevInScope (r_env r) (IstioRevFromLabel fw (SL_Labels sl))"
    and "SL_Spec sl \<noteq> lastUpdatePolicy r" "Reconcile fw M C nn (r, w) = Inr (r1, w1, e)"
    and "run_while (object_present C nn) (limiter_step fw J M C) (r1, w1) (r2, w2)"
    and "fair ch" "handleTickerEvent fw J M C ch r2 w2 = Inr (Some q)"
    and "\<not> adaptive_enabled (r_env r2)" "json_round_trip J (service_meta fw C w2 nn)"
    and "snd (queryServicePods fw C w2 nn) = None" "known_subsets fw C w2 nn = map Some subsets"
  shows "StaticMeta_String J (service_meta fw C w2 nn) |\<in>| fmdom q"
proof -
  have "of_interest M nn (r2, w2)"
    using Reconcile_new_spec(1) [OF assms(1,3-6)] by (rule interest_until_deleted [OF assms(1,7)])
  then have "cmap_Get M (interest r2) (request_key nn) \<noteq> None" by (simp add: of_interest_def)
  from handleTickerEvent_local [OF assms(8,1,11,10,9) this assms(2,12,13)] show ?thesis .
qed

end
