(* ===== verification/Patches.thy ===== *)
theory Patches
  imports EnvoyFilters
begin

section \<open>The patches of a set, exactly\<close>

text \<open>
  What the two loops of \<open>controllers/envoy_local_limit.go\<close> over Go maps produce, without the maps:
  for each route some descriptor uses, one patch with the actions of the descriptors that use it,
  and one with the buckets of the local ones. Where a patch matches depends on the first of these
  descriptors only, as the maps have the virtual host and the route for their keys and not the
  direction. The order of the patches is open; here it is shown to be open completely.
\<close>

subsection \<open>The routes a target uses\<close>

text \<open>The key of a route, and whether the target is outbound.\<close>

definition target_uses :: "SL_Target option \<Rightarrow> (string \<times> bool) list" where
  "target_uses target =
     (case target of
        None \<Rightarrow> [(''/default'', False)]
      | Some t \<Rightarrow>
          if elems (Route t) = [] then [(inbound_key (Port t), False)]
          else map (\<lambda>r. (r, Direction t = ''outbound''))
                 (filter (\<lambda>r. count_list r (CHR ''/'') = 1) (elems (Route t))))"

definition use_match :: "string \<times> bool \<Rightarrow> EnvoyConfigObjectMatch" where
  "use_match = (\<lambda>(k, outbound).
     \<lparr>Context = if outbound then SIDECAR_OUTBOUND else SIDECAR_INBOUND, ObjectTypes = key_route k\<rparr>)"

definition config_use :: "routeConfig \<Rightarrow> string \<times> bool" where
  "config_use rc = (genVhostRouteName rc, rc_direction rc = ''outbound'')"

lemma config_uses: "map config_use (generateRouteConfigs target) = target_uses target"
proof (cases "case target of None \<Rightarrow> True | Some t \<Rightarrow> elems (Route t) = []")
  case True
  from generateRouteConfigs_inbound [OF this] obtain rc where
    "generateRouteConfigs target = [rc]" "rc_direction rc = Inbound" "rc_routeName rc = InboundDefaultRoute"
    "rc_vhostName rc = (case target of None \<Rightarrow> '''' | Some t \<Rightarrow>
       if Port t = 0 then '''' else ''inbound|http|'' @ fmt_int (sint (Port t)))" by blast
  with True show ?thesis
    by (auto simp: target_uses_def config_use_def genVhostRouteName_def inbound_key_def Inbound_def
        InboundDefaultRoute_def split: option.splits)
next
  case False
  then obtain t where t: "target = Some t" "elems (Route t) \<noteq> []" by (cases target) auto
  note routes = generateRouteConfigs_routes [OF t(2)]
  have "map config_use (generateRouteConfigs target)
      = map (\<lambda>r. (r, Direction t = ''outbound'')) (map genVhostRouteName (generateRouteConfigs target))"
    using routes(2) t(1) by (simp add: config_use_def)
  then show ?thesis using routes(1) t by (simp add: target_uses_def)
qed

lemma descriptor_keys_uses: "descriptor_keys d = map fst (target_uses (Target d))"
  by (simp add: descriptor_keys_def config_use_def comp_def flip: config_uses)

lemma config_match:
  assumes "rc \<in> set (generateRouteConfigs target)"
  shows "generateEnvoyVhostMatch rc = use_match (config_use rc)"
  using key_route_genVhostRouteName [OF assms]
  by (simp add: use_match_def config_use_def generateEnvoyVhostMatch_def Outbound_def)

lemma config_matches_iff:
  assumes "rc \<in> set (generateRouteConfigs target)" "rc' \<in> set (generateRouteConfigs target')"
  shows "generateEnvoyVhostMatch rc = generateEnvoyVhostMatch rc' \<longleftrightarrow> config_use rc = config_use rc'"
proof
  assume "generateEnvoyVhostMatch rc = generateEnvoyVhostMatch rc'"
  then show "config_use rc = config_use rc'"
    by (auto simp: generateEnvoyVhostMatch_def config_use_def genVhostRouteName_def Outbound_def split: if_splits)
qed (simp add: config_match [OF assms(1)] config_match [OF assms(2)])

subsection \<open>What a route gets\<close>

definition uses_of :: "SmartLimitDescriptor list \<Rightarrow> (string \<times> bool) list" where
  "uses_of ds = concat (map (\<lambda>d. target_uses (Target d)) ds)"

text \<open>The first descriptor that uses a route decides on the direction of its patch.\<close>

definition route_match :: "SmartLimitDescriptor list \<Rightarrow> string \<Rightarrow> EnvoyConfigObjectMatch" where
  "route_match ds k = use_match (k, map_of (uses_of ds) k = Some True)"

definition not_custom :: "SmartLimitDescriptor list \<Rightarrow> SmartLimitDescriptor list" where
  "not_custom ds = filter (\<lambda>d. \<not> custom d) ds"

definition actions_at ::
    "framework \<Rightarrow> NamespacedName \<Rightarrow> SmartLimitDescriptor list \<Rightarrow> string \<Rightarrow> RateLimit_Action list" where
  "actions_at fw loc ds k = concat (map (\<lambda>d. case generateRouteRateLimitAction fw d loc of
     Inr (Some a) \<Rightarrow> replicate (count_list (descriptor_keys d) k) a | _ \<Rightarrow> []) ds)"

definition buckets_at ::
    "framework \<Rightarrow> NamespacedName \<Rightarrow> SmartLimitDescriptor list \<Rightarrow> string \<Rightarrow> LocalRateLimitDescriptor list" where
  "buckets_at fw loc ds k =
     concat (map (\<lambda>d. replicate (count_list (descriptor_keys d) k) (local_descriptor fw loc d)) ds)"

definition actions_patch ::
    "framework \<Rightarrow> NamespacedName \<Rightarrow> SmartLimitDescriptor list \<Rightarrow> string \<Rightarrow> EnvoyConfigObjectPatch" where
  "actions_patch fw loc ds k =
     \<lparr>ApplyTo = HTTP_ROUTE, Patch_Match = Some (route_match (not_custom ds) k),
      Patch = \<lparr>Operation = MERGE,
               Patch_Value = struct_of fw (route_message (map Some (actions_at fw loc ds k)))\<rparr>\<rparr>"

definition buckets_patch ::
    "framework \<Rightarrow> NamespacedName \<Rightarrow> SmartLimitDescriptor list \<Rightarrow> string \<Rightarrow> EnvoyConfigObjectPatch" where
  "buckets_patch fw loc ds k =
     \<lparr>ApplyTo = HTTP_ROUTE, Patch_Match = Some (route_match (filter is_local ds) k),
      Patch = generatePerFilterPatch fw (struct_of fw (LocalRateLimitMessage
                (local_rate_limit fw (buckets_at fw loc (filter is_local ds) k))))\<rparr>"

definition action_keys :: "SmartLimitDescriptor list \<Rightarrow> string set" where
  "action_keys ds = {k. \<exists>d \<in> set ds. \<not> custom d \<and> k \<in> set (descriptor_keys d)}"

definition bucket_keys :: "SmartLimitDescriptor list \<Rightarrow> string set" where
  "bucket_keys ds = {k. \<exists>d \<in> set ds. is_local d \<and> k \<in> set (descriptor_keys d)}"

lemma keys_of_uses: "fst ` set (uses_of ds) = {k. \<exists>d \<in> set ds. k \<in> set (descriptor_keys d)}"
  by (force simp: uses_of_def descriptor_keys_uses)

lemma route_match_agree:
  assumes "k \<in> fst ` set (uses_of ds)" "(k, \<not> outbound) \<notin> set (uses_of ds)"
  shows "route_match ds k = use_match (k, outbound)"
proof -
  obtain o' where "map_of (uses_of ds) k = Some o'"
    using assms(1) by (metis map_of_eq_None_iff not_None_eq)
  moreover from map_of_SomeD [OF this] assms(2) have "o' = outbound" by (cases o'; cases outbound) auto
  ultimately show ?thesis by (simp add: route_match_def)
qed

subsection \<open>Groups\<close>

lemma map_of_group:
  assumes "fmlookup (group_all kvs) k = Some vs"
  shows "map_of kvs k = Some (hd vs)" "vs = map snd (filter (\<lambda>(k', v). k' = k) kvs)"
proof -
  show vs: "vs = map snd (filter (\<lambda>(k', v). k' = k) kvs)"
    using assms by (simp add: fmlookup_group_all split: if_splits)
  have "kvs' \<noteq> [] \<Longrightarrow> kvs' = filter (\<lambda>(k', v). k' = k) kvs \<Longrightarrow> map_of kvs k = Some (snd (hd kvs'))" for kvs'
    by (induction kvs arbitrary: kvs') (auto split: if_splits)
  with group_all_nonempty [OF assms] vs show "map_of kvs k = Some (hd vs)"
    by (simp add: hd_map)
qed

lemma map_of_map_value: "map_of (map (\<lambda>(k, v). (k, f v)) kvs) k = map_option f (map_of kvs k)"
  by (induction kvs) auto

lemma filter_keyed: "map snd (filter (\<lambda>(k', v). k' = k) (map (\<lambda>x. (g x, f x)) xs)) = map f (filter (\<lambda>x. g x = k) xs)"
  by (induction xs) auto

lemma map_const_filter: "map (\<lambda>_. c) (filter (\<lambda>x. g x = k) xs) = replicate (count_list (map g xs) k) c"
  by (induction xs) auto

subsection \<open>The patches with actions\<close>

definition routed_list ::
    "framework \<Rightarrow> NamespacedName \<Rightarrow> SmartLimitDescriptor \<Rightarrow> (string \<times> routeConfig) list" where
  "routed_list fw loc d = (case generateRouteRateLimitAction fw d loc of
     Inr (Some a) \<Rightarrow> map (\<lambda>rc. (genVhostRouteName rc, with_action a rc)) (generateRouteConfigs (Target d))
   | _ \<Rightarrow> [])"

lemma routed_lists:
  assumes "gmap (routed fw loc) ds = Inr kvss"
  shows "kvss = map (routed_list fw loc) ds"
proof -
  have "routed fw loc d = Inr kvs \<Longrightarrow> kvs = routed_list fw loc d" for d kvs
    by (auto simp: routed_def routed_list_def split: option.splits)
  with assms show ?thesis
    unfolding gmap_Inr_iff by (induction rule: list_all2_induct) auto
qed

lemma routed_list_uses:
  assumes "custom d \<or> no_nil_match d"
  shows "map (\<lambda>(k, v). (k, rc_direction v = ''outbound'')) (routed_list fw loc d)
    = (if custom d then [] else target_uses (Target d))"
proof (cases "custom d")
  case True
  then have "generateRouteRateLimitAction fw d loc = Inr None" by (simp add: action_None_iff)
  with True show ?thesis by (simp add: routed_list_def)
next
  case False
  with assms obtain a where "generateRouteRateLimitAction fw d loc = Inr (Some a)"
    using action_total_iff [of fw d loc] action_None_iff [of fw d loc] by (metis not_Some_eq)
  with False show ?thesis
    by (simp add: routed_list_def comp_def config_use_def flip: config_uses)
qed

lemma routed_uses:
  assumes "\<forall>d \<in> set ds. custom d \<or> no_nil_match d"
  shows "map (\<lambda>(k, v). (k, rc_direction v = ''outbound'')) (concat (map (routed_list fw loc) ds))
    = uses_of (not_custom ds)"
  using assms by (induction ds) (simp_all add: uses_of_def not_custom_def routed_list_uses)

lemma routed_actions:
  "map rc_action (map snd (filter (\<lambda>(k', v). k' = k) (concat (map (routed_list fw loc) ds))))
    = map Some (actions_at fw loc ds k)"
proof (induction ds)
  case (Cons d ds)
  have "map rc_action (map snd (filter (\<lambda>(k', v). k' = k) (routed_list fw loc d)))
      = map Some (case generateRouteRateLimitAction fw d loc of
          Inr (Some a) \<Rightarrow> replicate (count_list (descriptor_keys d) k) a | _ \<Rightarrow> [])"
  proof (cases "generateRouteRateLimitAction fw d loc")
    case (Inr r)
    then show ?thesis
      by (cases r) (simp_all add: routed_list_def filter_keyed comp_def map_const_filter descriptor_keys_def)
  qed (simp add: routed_list_def)
  with Cons show ?case by (simp add: actions_at_def)
qed (simp add: actions_at_def)

lemma router_group_patch:
  assumes "gmap (routed fw loc) ds = Inr kvss" "fmlookup (group_all (concat kvss)) k = Some rcs"
  shows "router_patch fw rcs = actions_patch fw loc ds k"
proof -
  have total: "\<forall>d \<in> set ds. custom d \<or> no_nil_match d" using assms(1) routes_total_iff by blast
  note kvss = routed_lists [OF assms(1)]
  note group = map_of_group [OF assms(2)]
  have "(k, hd rcs) \<in> set (concat kvss)" using map_of_SomeD [OF group(1)] .
  then obtain rc a t where rc: "rc \<in> set (generateRouteConfigs t)" "k = genVhostRouteName rc"
    "hd rcs = with_action a rc"
    unfolding gmap_routed_member [OF assms(1)] by blast
  have "map_of (uses_of (not_custom ds)) k = Some (rc_direction (hd rcs) = ''outbound'')"
    using group(1) unfolding kvss routed_uses [OF total, of fw loc, symmetric] by (simp add: map_of_map_value)
  then have "generateEnvoyVhostMatch (hd rcs) = route_match (not_custom ds) k"
    using config_match [OF rc(1)] rc(2,3) by (simp add: route_match_def config_use_def)
  moreover have "map rc_action rcs = map Some (actions_at fw loc ds k)"
    unfolding group(2) kvss by (rule routed_actions)
  ultimately show ?thesis by (simp add: router_patch_def actions_patch_def)
qed

lemma router_group_keys:
  assumes "gmap (routed fw loc) ds = Inr kvss"
  shows "fset (fmdom (group_all (concat kvss))) = action_keys ds"
proof -
  have total: "\<forall>d \<in> set ds. custom d \<or> no_nil_match d" using assms routes_total_iff by blast
  have "fst ` set (concat kvss) = fst ` set (uses_of (not_custom ds))"
    unfolding routed_lists [OF assms] routed_uses [OF total, of fw loc, symmetric] by force
  then show ?thesis
    by (simp add: fset_of_list.rep_eq keys_of_uses) (auto simp: not_custom_def action_keys_def)
qed

text \<open>Which lists of patches the loop over the map can produce: any order of the keys.\<close>

lemma router_patches_exact:
  assumes "fair ch" "converts_messages fw" "generateHttpRouterPatch fw ch ds loc = Inr (Inr ps)"
  shows "\<exists>ks. distinct ks \<and> set ks = action_keys ds \<and> ps = map (actions_patch fw loc ds) ks"
proof -
  obtain kvss where kvss: "gmap (routed fw loc) ds = Inr kvss"
    using assms(3) by (auto simp: generateHttpRouterPatch_def router_groups)
  let ?items = "go_range ch (group_all (concat kvss))"
  have "ps = map (\<lambda>(k, rcs). router_patch fw rcs) ?items"
    using generateHttpRouterPatch_eq [OF assms(1,2) kvss] assms(3) by simp
  also have "\<dots> = map (actions_patch fw loc ds) (map fst ?items)"
    using assms(1) router_group_patch [OF kvss] by auto
  finally have "ps = map (actions_patch fw loc ds) (map fst ?items)" .
  moreover have "distinct (map fst ?items)" "set (map fst ?items) = action_keys ds"
    using assms(1) router_group_keys [OF kvss] by (simp_all add: map_fst_go_range fair_def)
  ultimately show ?thesis by blast
qed

lemma chooser_for:
  assumes "distinct ks"
  obtains ch where "fair ch" "ch [] (fset_of_list ks) = ks"
proof
  let ?ch = "\<lambda>p S. if S = fset_of_list ks then ks else sorted_list_of_fset S"
  show "fair ?ch"
    using assms by (simp add: fair_def sorted_list_of_fset.rep_eq fset_of_list.rep_eq)
qed simp

lemma router_patches_any_order:
  assumes "converts_messages fw" "\<forall>d \<in> set ds. custom d \<or> no_nil_match d"
    and "distinct ks" "set ks = action_keys ds"
  shows "\<exists>ch. fair ch \<and> generateHttpRouterPatch fw ch ds loc = Inr (Inr (map (actions_patch fw loc ds) ks))"
proof -
  obtain kvss where kvss: "gmap (routed fw loc) ds = Inr kvss"
    using assms(2) routes_total_iff by blast
  obtain ch where ch: "fair ch" "ch [] (fset_of_list ks) = ks" by (rule chooser_for [OF assms(3)])
  let ?items = "go_range ch (group_all (concat kvss))"
  have "fmdom (group_all (concat kvss)) = fset_of_list ks"
    using router_group_keys [OF kvss] assms(4) by (simp add: fset_of_list.rep_eq flip: fset_inject)
  then have "map fst ?items = ks" using ch by (simp add: map_fst_go_range)
  moreover have "map (\<lambda>(k, rcs). router_patch fw rcs) ?items = map (actions_patch fw loc ds) (map fst ?items)"
    using ch(1) router_group_patch [OF kvss] by auto
  ultimately show ?thesis using generateHttpRouterPatch_eq [OF ch(1) assms(1) kvss] ch(1) by auto
qed

subsection \<open>The patches with buckets\<close>

lemma keyed_routes_uses: "map (\<lambda>(k, v). (k, rc_direction v = ''outbound'')) (keyed_routes ds) = uses_of ds"
  by (induction ds) (simp_all add: keyed_routes_def uses_of_def comp_def config_use_def flip: config_uses)

lemma keyed_buckets:
  "map (local_descriptor fw loc) (map snd (filter (\<lambda>(k', v). k' = k) (keyed_descriptors ds)))
    = buckets_at fw loc ds k"
proof (induction ds)
  case (Cons d ds)
  have "map (local_descriptor fw loc) (map snd (filter (\<lambda>(k', v). k' = k) (map (\<lambda>k. (k, d)) ks)))
      = replicate (count_list ks k) (local_descriptor fw loc d)" for ks
    by (induction ks) auto
  with Cons show ?case by (simp add: keyed_descriptors_def buckets_at_def)
qed (simp add: keyed_descriptors_def buckets_at_def)

lemma perfilter_group_patch:
  assumes "fmlookup (group_all (keyed_descriptors ds)) k = Some vs" "\<forall>d \<in> set ds. is_local d"
  shows "perfilter_patch fw loc (hd (values_under (group_all (keyed_routes ds)) k)) vs
    = buckets_patch fw loc ds k"
proof -
  have ds: "filter is_local ds = ds" using assms(2) by simp
  have "values_under (group_all (keyed_routes ds)) k \<noteq> []"
    using assms(1) by (rule values_under_keyed_routes)
  then obtain rcs where rcs: "fmlookup (group_all (keyed_routes ds)) k = Some rcs"
    by (cases "fmlookup (group_all (keyed_routes ds)) k") (auto simp: values_under_def)
  note group = map_of_group(1) [OF rcs]
  then obtain t where "hd rcs \<in> set (generateRouteConfigs t)" "k = genVhostRouteName (hd rcs)"
    using map_of_SomeD [OF group] by (auto simp: keyed_routes_def)
  moreover have "map_of (uses_of ds) k = Some (rc_direction (hd rcs) = ''outbound'')"
    using group unfolding keyed_routes_uses [symmetric] by (simp add: map_of_map_value)
  ultimately have "generateEnvoyVhostMatch (hd rcs) = route_match ds k"
    using config_match by (simp add: route_match_def config_use_def)
  then show ?thesis
    using keyed_buckets [of fw loc k ds] map_of_group(2) [OF assms(1)]
    by (simp add: perfilter_patch_def buckets_patch_def ds values_under_def rcs)
qed

lemma perfilter_patches_exact:
  assumes "fair ch" "converts_messages fw"
    and "generateLocalRateLimitPerFilterPatch fw ch (filter is_local ds) loc = Inr pps"
  shows "\<exists>ks. distinct ks \<and> set ks = bucket_keys ds \<and> elems pps = map (buckets_patch fw loc ds) ks"
proof -
  let ?ds = "filter is_local ds"
  let ?items = "go_range ch (group_all (keyed_descriptors ?ds))"
  have timed: "\<forall>d \<in> set ?ds. descriptor_keys d \<noteq> [] \<longrightarrow> well_timed d"
    using perfilter_panic_iff [OF assms(1,2), of ?ds loc] assms(3) by auto
  have same: "buckets_patch fw loc ?ds = buckets_patch fw loc ds" by (simp add: buckets_patch_def fun_eq_iff)
  have "elems pps = map (\<lambda>(k, vs). perfilter_patch fw loc
      (hd (values_under (group_all (keyed_routes ?ds)) k)) vs) ?items"
    using generateLocalRateLimitPerFilterPatch_eq [OF assms(1,2) timed, of loc] assms(3) by simp
  also have "\<dots> = map (\<lambda>(k, vs). buckets_patch fw loc ds k) ?items"
  proof (rule map_cong [OF refl])
    fix x assume "x \<in> set ?items"
    then obtain k vs where x: "x = (k, vs)" "fmlookup (group_all (keyed_descriptors ?ds)) k = Some vs"
      unfolding set_go_range [OF assms(1)] by blast
    have "perfilter_patch fw loc (hd (values_under (group_all (keyed_routes ?ds)) k)) vs
        = buckets_patch fw loc ?ds k"
      by (rule perfilter_group_patch [OF x(2)]) simp
    then show "(case x of (k, vs) \<Rightarrow> perfilter_patch fw loc
        (hd (values_under (group_all (keyed_routes ?ds)) k)) vs) = (case x of (k, vs) \<Rightarrow> buckets_patch fw loc ds k)"
      by (simp only: x(1) prod.case same)
  qed
  also have "\<dots> = map (buckets_patch fw loc ds) (map fst ?items)" by (simp add: case_prod_unfold)
  finally have "elems pps = map (buckets_patch fw loc ds) (map fst ?items)" .
  moreover have "set (map fst ?items) = bucket_keys ds"
    using assms(1)
    by (auto simp: map_fst_go_range fair_def fset_of_list.rep_eq keyed_descriptors_def bucket_keys_def
        image_iff)
  moreover have "distinct (map fst ?items)" using assms(1) by simp
  ultimately show ?thesis by blast
qed

subsection \<open>The whole EnvoyFilter\<close>

lemma envoyfilter_patches:
  assumes "fair ch" "converts_messages fw"
    and "descriptorsToEnvoyFilter fw ch ds labels loc rls = Inr (Some ef)"
  shows "WorkloadSelector_Labels ef = labels"
    and "\<exists>ks ks'. distinct ks \<and> set ks = action_keys ds \<and> distinct ks' \<and> set ks' = bucket_keys ds
      \<and> ConfigPatches ef = map (\<lambda>k. Some (actions_patch fw loc ds k)) ks
        @ (if \<exists>d \<in> set ds. is_global d
           then [generateEnvoyHttpFilterGlobalRateLimitPatch fw (getRateLimiterServerCluster rls)] else [])
        @ (if \<exists>d \<in> set ds. is_local d then [generateHttpFilterLocalRateLimitPatch fw] else [])
        @ map (\<lambda>k. Some (buckets_patch fw loc ds k)) ks'"
proof -
  obtain rps where rps: "generateHttpRouterPatch fw (ch_left ch) ds loc = Inr (Inr rps)"
    and labels: "WorkloadSelector_Labels ef = labels"
    by (rule descriptorsToEnvoyFilter_Some [OF assms(3)])
  show "WorkloadSelector_Labels ef = labels" by (rule labels)
  obtain ks where ks: "distinct ks" "set ks = action_keys ds" "rps = map (actions_patch fw loc ds) ks"
    using router_patches_exact [OF fair_ch_left [OF assms(1)] assms(2) rps] by blast
  let ?global = "generateEnvoyHttpFilterGlobalRateLimitPatch fw (getRateLimiterServerCluster rls)"
  obtain gp where gp: "?global = Some gp"
    by (simp add: generateEnvoyHttpFilterGlobalRateLimitPatch_def MessageToStruct_struct_of [OF assms(2)])
  have globals: "(if filter is_global ds = [] then [] else case ?global of None \<Rightarrow> [] | Some p \<Rightarrow> [Some p])
      = (if \<exists>d \<in> set ds. is_global d then [?global] else [])"
    by (simp add: gp filter_eq_Nil)
  note unfold = descriptorsToEnvoyFilter_unfold [of fw ch ds labels loc rls, unfolded rps gbind.simps
      sum.case globals Let_def]
  show "\<exists>ks ks'. distinct ks \<and> set ks = action_keys ds \<and> distinct ks' \<and> set ks' = bucket_keys ds
      \<and> ConfigPatches ef = map (\<lambda>k. Some (actions_patch fw loc ds k)) ks
        @ (if \<exists>d \<in> set ds. is_global d then [?global] else [])
        @ (if \<exists>d \<in> set ds. is_local d then [generateHttpFilterLocalRateLimitPatch fw] else [])
        @ map (\<lambda>k. Some (buckets_patch fw loc ds k)) ks'"
  proof (cases "filter is_local ds = []")
    case True
    then have none: "\<not> (\<exists>d \<in> set ds. is_local d)" by (simp add: filter_eq_Nil)
    then have "bucket_keys ds = {}" by (auto simp: bucket_keys_def)
    moreover have "ConfigPatches ef = map Some rps @ (if \<exists>d \<in> set ds. is_global d then [?global] else [])"
      using assms(3) True unfolding unfold by auto
    ultimately show ?thesis
      using ks none by (intro exI [of _ ks] exI [of _ "[]"]) simp
  next
    case False
    then obtain pps where pps:
      "generateLocalRateLimitPerFilterPatch fw (ch_right ch) (filter is_local ds) loc = Inr pps"
      using assms(3) unfolding unfold by auto
    obtain ks' where ks': "distinct ks'" "set ks' = bucket_keys ds" "elems pps = map (buckets_patch fw loc ds) ks'"
      using perfilter_patches_exact [OF fair_ch_right [OF assms(1)] assms(2) pps] by blast
    have "\<exists>d \<in> set ds. is_local d" using False by (simp add: filter_eq_Nil)
    moreover have "ConfigPatches ef = map Some rps @ (if \<exists>d \<in> set ds. is_global d then [?global] else [])
        @ [generateHttpFilterLocalRateLimitPatch fw] @ map Some (elems pps)"
      using assms(3) False unfolding unfold pps by auto
    ultimately show ?thesis
      using ks ks' by (intro exI [of _ ks] exI [of _ ks']) simp
  qed
qed

text \<open>The action of a descriptor that uses a route is in the route's patch, and that patch in the filter.\<close>

lemma action_at:
  assumes "d \<in> set ds" "k \<in> set (descriptor_keys d)" "generateRouteRateLimitAction fw d loc = Inr (Some a)"
  shows "a \<in> set (actions_at fw loc ds k)"
proof -
  have "0 < count_list (descriptor_keys d) k" using assms(2) by (simp add: count_list_0_iff flip: neq0_conv)
  with assms(1,3) show ?thesis unfolding actions_at_def by force
qed

lemma action_exists:
  assumes "descriptorsToEnvoyFilter fw ch ds labels loc rls = Inr (Some ef)" "fair ch" "converts_messages fw"
    and "d \<in> set ds" "\<not> custom d"
  shows "\<exists>a. generateRouteRateLimitAction fw d loc = Inr (Some a)"
proof -
  obtain rps where "generateHttpRouterPatch fw (ch_left ch) ds loc = Inr (Inr rps)"
    by (rule descriptorsToEnvoyFilter_Some [OF assms(1)])
  then have "no_nil_match d"
    using router_total_iff [OF fair_ch_left [OF assms(2)] assms(3), of ds loc] assms(4,5) by blast
  then show ?thesis
    using assms(5) action_total_iff [of fw d loc] action_None_iff [of fw d loc] by (metis not_Some_eq)
qed

lemma route_match_of:
  assumes "d \<in> set ds" "k \<in> set (descriptor_keys d)"
    and "\<forall>d' \<in> set ds. (k, \<not> outbound) \<notin> set (target_uses (Target d'))"
  shows "route_match ds k = use_match (k, outbound)"
proof (rule route_match_agree)
  show "k \<in> fst ` set (uses_of ds)" using assms(1,2) unfolding keys_of_uses by blast
  show "(k, \<not> outbound) \<notin> set (uses_of ds)" using assms(3) by (simp add: uses_of_def)
qed

lemma not_custom_all: "\<forall>d \<in> set ds. \<not> custom d \<Longrightarrow> not_custom ds = ds"
  by (simp add: not_custom_def)

lemma bucket_pairing:
  assumes "fair ch" "converts_messages fw" "\<forall>d \<in> set ds. \<not> custom d"
    and "descriptorsToEnvoyFilter fw ch ds labels loc rls = Inr (Some ef)"
    and "is_local d" "d \<in> set ds" "k \<in> set (descriptor_keys d)"
    and "\<forall>d' \<in> set ds. (k, \<not> outbound) \<notin> set (target_uses (Target d'))"
  shows "\<exists>p q lrl as. Some p \<in> set (ConfigPatches ef) \<and> Some q \<in> set (ConfigPatches ef)
           \<and> Patch_Match p = Some (use_match (k, outbound)) \<and> Patch_Match q = Some (use_match (k, outbound))
           \<and> Patch p = generatePerFilterPatch fw (struct_of fw (LocalRateLimitMessage lrl))
           \<and> Patch_Value (Patch q) = struct_of fw (route_message (map Some as))
           \<and> local_descriptor fw loc d \<in> set (LR_Descriptors lrl)
           \<and> (\<forall>b \<in> set (LR_Descriptors lrl). \<exists>a \<in> set as. Entries b = [action_entry a])"
proof -
  let ?p = "buckets_patch fw loc ds k" and ?q = "actions_patch fw loc ds k"
  let ?bs = "buckets_at fw loc (filter is_local ds) k" and ?as = "actions_at fw loc ds k"
  have "k \<in> action_keys ds" "k \<in> bucket_keys ds"
    using assms(3,5-7) by (auto simp: action_keys_def bucket_keys_def)
  with envoyfilter_patches(2) [OF assms(1,2,4)] have "Some ?p \<in> set (ConfigPatches ef)" "Some ?q \<in> set (ConfigPatches ef)"
    by auto
  moreover have "route_match (filter is_local ds) k = use_match (k, outbound)"
    "route_match (not_custom ds) k = use_match (k, outbound)"
    using assms(5,6,8) by (intro route_match_of [of d, OF _ assms(7)]; simp add: not_custom_all [OF assms(3)])+
  moreover have "local_descriptor fw loc d \<in> set ?bs"
  proof -
    have "0 < count_list (descriptor_keys d) k" using assms(7) by (simp add: count_list_0_iff flip: neq0_conv)
    with assms(5,6) show ?thesis unfolding buckets_at_def by force
  qed
  moreover have "\<exists>a \<in> set ?as. Entries b = [action_entry a]" if b: "b \<in> set ?bs" for b
  proof -
    from b obtain d' where d': "d' \<in> set ds" "count_list (descriptor_keys d') k \<noteq> 0" "b = local_descriptor fw loc d'"
      by (auto simp: buckets_at_def)
    then obtain a where a: "generateRouteRateLimitAction fw d' loc = Inr (Some a)"
      using action_exists [OF assms(4,1,2)] assms(3) by blast
    have "k \<in> set (descriptor_keys d')" using d'(2) by (simp add: count_list_0_iff)
    from action_at [OF d'(1) this a] action_matches_entry [OF a] d'(3) show ?thesis
      by (auto simp: local_descriptor_def)
  qed
  ultimately show ?thesis
    by (intro exI [of _ ?p] exI [of _ ?q] exI [of _ "local_rate_limit fw ?bs"] exI [of _ ?as])
      (simp add: buckets_patch_def actions_patch_def)
qed

text \<open>The same for a descriptor of the rate-limit service and the global descriptor it is made of.\<close>

lemma global_pairing:
  assumes "fair ch" "converts_messages fw" "\<forall>d \<in> set ds. \<not> custom d"
    and "descriptorsToEnvoyFilter fw ch ds labels loc rls = Inr (Some ef)"
    and "is_global d" "d \<in> set ds" "global_item fw loc d = Some item"
  shows "generateEnvoyHttpFilterGlobalRateLimitPatch fw (getRateLimiterServerCluster rls) \<in> set (ConfigPatches ef)"
    and "k \<in> set (descriptor_keys d) \<Longrightarrow> \<exists>q as a. Some q \<in> set (ConfigPatches ef)
           \<and> Patch_Match q = Some (route_match ds k)
           \<and> Patch_Value (Patch q) = struct_of fw (route_message (map Some as))
           \<and> a \<in> set as \<and> action_entry a = \<lparr>Entry_Key = Key item, Entry_Value = Value item\<rparr>"
proof -
  note patches = envoyfilter_patches(2) [OF assms(1,2,4)]
  show "generateEnvoyHttpFilterGlobalRateLimitPatch fw (getRateLimiterServerCluster rls) \<in> set (ConfigPatches ef)"
    using patches assms(5,6) by auto
  assume k: "k \<in> set (descriptor_keys d)"
  have "\<not> custom d" using assms(3,6) by blast
  from action_exists [OF assms(4,1,2,6) this] obtain a where
    a: "generateRouteRateLimitAction fw d loc = Inr (Some a)" by blast
  have "k \<in> action_keys ds" using k assms(6) \<open>\<not> custom d\<close> by (auto simp: action_keys_def)
  then have "Some (actions_patch fw loc ds k) \<in> set (ConfigPatches ef)" using patches by auto
  with action_at [OF assms(6) k a] global_item_action [OF assms(7) a]
  show "\<exists>q as a. Some q \<in> set (ConfigPatches ef) \<and> Patch_Match q = Some (route_match ds k)
           \<and> Patch_Value (Patch q) = struct_of fw (route_message (map Some as))
           \<and> a \<in> set as \<and> action_entry a = \<lparr>Entry_Key = Key item, Entry_Value = Value item\<rparr>"
    by (intro exI [of _ "actions_patch fw loc ds k"] exI [of _ "actions_at fw loc ds k"] exI [of _ a])
      (simp add: actions_patch_def not_custom_all [OF assms(3)])
qed

end
