(* ===== verification/WellFormed.thy ===== *)
theory WellFormed
  imports Patches
begin

section \<open>The shape of a generated EnvoyFilter\<close>

text \<open>
  Istio checks that the parts of a patch fit together: a patch of a route is merged into the
  virtual host it names, a patch of a filter is inserted before the filter it names. The API
  types allow any combination, and nil patches. Here it is shown that everything the code
  builds fits.
\<close>

subsection \<open>Well-formed patches\<close>

definition well_formed_patch :: "EnvoyConfigObjectPatch \<Rightarrow> bool" where
  "well_formed_patch p \<longleftrightarrow>
     (case ApplyTo p of
        HTTP_ROUTE \<Rightarrow> Operation (Patch p) = MERGE
          \<and> (case Patch_Match p of
               None \<Rightarrow> False
             | Some m \<Rightarrow> (case ObjectTypes m of RouteConfigurationMatch _ _ \<Rightarrow> True | _ \<Rightarrow> False))
      | HTTP_FILTER \<Rightarrow> Operation (Patch p) = INSERT_BEFORE
          \<and> (case Patch_Match p of
               None \<Rightarrow> True
             | Some m \<Rightarrow> (case ObjectTypes m of ListenerMatch _ _ \<Rightarrow> True | _ \<Rightarrow> False)))"

definition well_formed_envoyfilter :: "EnvoyFilter \<Rightarrow> bool" where
  "well_formed_envoyfilter ef \<longleftrightarrow>
     list_all (\<lambda>p. case p of None \<Rightarrow> False | Some q \<Rightarrow> well_formed_patch q) (ConfigPatches ef)"

lemma actions_patch_well_formed [simp]: "well_formed_patch (actions_patch fw loc ds k)"
  by (simp add: actions_patch_def well_formed_patch_def route_match_def use_match_def key_route_def)

lemma buckets_patch_well_formed [simp]: "well_formed_patch (buckets_patch fw loc ds k)"
  by (simp add: buckets_patch_def well_formed_patch_def route_match_def use_match_def key_route_def
      generatePerFilterPatch_def)

lemma local_filter_patch_well_formed:
  assumes "converts_messages fw"
  shows "\<exists>p. generateHttpFilterLocalRateLimitPatch fw = Some p \<and> well_formed_patch p"
  by (simp add: generateHttpFilterLocalRateLimitPatch_def MessageToStruct_struct_of [OF assms]
      well_formed_patch_def)

lemma global_filter_patch_well_formed:
  assumes "converts_messages fw"
  shows "\<exists>p. generateEnvoyHttpFilterGlobalRateLimitPatch fw server = Some p \<and> well_formed_patch p"
  by (simp add: generateEnvoyHttpFilterGlobalRateLimitPatch_def MessageToStruct_struct_of [OF assms]
      well_formed_patch_def generateEnvoyHttpFilterMatch_def generateEnvoyHttpFilterRateLimitServicePatch_def)

lemma envoyfilter_well_formed:
  assumes "fair ch" "converts_messages fw"
    and "descriptorsToEnvoyFilter fw ch ds labels loc rls = Inr (Some ef)"
  shows "well_formed_envoyfilter ef"
proof -
  let ?ok = "\<lambda>p. case p of None \<Rightarrow> False | Some q \<Rightarrow> well_formed_patch q"
  have "?ok (generateHttpFilterLocalRateLimitPatch fw)"
    "?ok (generateEnvoyHttpFilterGlobalRateLimitPatch fw (getRateLimiterServerCluster rls))"
    using local_filter_patch_well_formed [OF assms(2)]
      global_filter_patch_well_formed [OF assms(2), of "getRateLimiterServerCluster rls"] by auto
  moreover obtain ks ks' where "ConfigPatches ef = map (\<lambda>k. Some (actions_patch fw loc ds k)) ks
      @ (if \<exists>d \<in> set ds. is_global d
         then [generateEnvoyHttpFilterGlobalRateLimitPatch fw (getRateLimiterServerCluster rls)] else [])
      @ (if \<exists>d \<in> set ds. is_local d then [generateHttpFilterLocalRateLimitPatch fw] else [])
      @ map (\<lambda>k. Some (buckets_patch fw loc ds k)) ks'"
    using envoyfilter_patches(2) [OF assms] by blast
  ultimately show ?thesis by (simp add: well_formed_envoyfilter_def list_all_append list.pred_map comp_def list.pred_True)
qed

end
