(* ===== verification/Getters.thy ===== *)
theory Getters
  imports LocalLimit
begin

section \<open>The generated accessors: \<open>smart_limiter.pb.go\<close>, \<open>limiter_module.pb.go\<close>\<close>

text \<open>
  The getters protobuf generates take a pointer that may be nil and answer the zero value then, so
  that a chain of getters cannot panic; \<open>Reset\<close> overwrites a message with its zero value, and
  panics on nil. As in \<open>ApiTypes\<close>, the bookkeeping fields \<open>XXX_...\<close> are left out. The lemmas say that
  the two notions of a zero value are the same, and where the program, which reads the fields
  directly, panics although a getter would not.
\<close>

subsection \<open>The configuration message\<close>

text \<open>The Go type of the enumeration is \<open>int32\<close>; a \<open>time.Duration\<close> counts nanoseconds.\<close>

definition Limiter_netEaseLocalFlowControl :: "32 word" where "Limiter_netEaseLocalFlowControl = 0"
definition Limiter_envoyLocalRateLimit :: "32 word" where "Limiter_envoyLocalRateLimit = 1"

definition Limiter_RateLimitBackend_name :: "(32 word, string) fmap" where
  "Limiter_RateLimitBackend_name =
     fmap_of_list [(0, ''netEaseLocalFlowControl''), (1, ''envoyLocalRateLimit'')]"

definition Limiter_RateLimitBackend_value :: "(string, 32 word) fmap" where
  "Limiter_RateLimitBackend_value =
     fmap_of_list [(''netEaseLocalFlowControl'', 0), (''envoyLocalRateLimit'', 1)]"

record Limiter =
  Limiter_Backend :: "32 word"
  Limiter_Refresh :: "64 word option"
  Limiter_DisableGlobalRateLimit :: bool
  Limiter_DisableAdaptive :: bool
  Limiter_EnableServiceEntry :: bool

text \<open>The two maps are inverse to each other.\<close>

lemma backend_names_round_trip:
  "fmlookup Limiter_RateLimitBackend_name n = Some s \<longleftrightarrow> fmlookup Limiter_RateLimitBackend_value s = Some n"
  by (auto simp: Limiter_RateLimitBackend_name_def Limiter_RateLimitBackend_value_def fmlookup_of_list
      split: if_splits)

subsection \<open>Getters\<close>

definition GetSeconds :: "Duration option \<Rightarrow> 64 word" where
  "GetSeconds m = (case m of None \<Rightarrow> 0 | Some d \<Rightarrow> Seconds d)"

definition GetNanos :: "Duration option \<Rightarrow> 32 word" where
  "GetNanos m = (case m of None \<Rightarrow> 0 | Some d \<Rightarrow> Nanos d)"

definition GetName :: "HeaderMatcher option \<Rightarrow> string" where
  "GetName m = (case m of None \<Rightarrow> '''' | Some h \<Rightarrow> HM_Name h)"

definition GetRegexMatch :: "HeaderMatcher option \<Rightarrow> string" where
  "GetRegexMatch m = (case m of None \<Rightarrow> '''' | Some h \<Rightarrow> HM_RegexMatch h)"

definition GetExactMatch :: "HeaderMatcher option \<Rightarrow> string" where
  "GetExactMatch m = (case m of None \<Rightarrow> '''' | Some h \<Rightarrow> HM_ExactMatch h)"

definition GetPrefixMatch :: "HeaderMatcher option \<Rightarrow> string" where
  "GetPrefixMatch m = (case m of None \<Rightarrow> '''' | Some h \<Rightarrow> HM_PrefixMatch h)"

definition GetSuffixMatch :: "HeaderMatcher option \<Rightarrow> string" where
  "GetSuffixMatch m = (case m of None \<Rightarrow> '''' | Some h \<Rightarrow> HM_SuffixMatch h)"

definition GetPresentMatch :: "HeaderMatcher option \<Rightarrow> bool" where
  "GetPresentMatch m = (case m of None \<Rightarrow> False | Some h \<Rightarrow> HM_PresentMatch h)"

definition GetInvertMatch :: "HeaderMatcher option \<Rightarrow> bool" where
  "GetInvertMatch m = (case m of None \<Rightarrow> False | Some h \<Rightarrow> HM_InvertMatch h)"

definition GetIsExactMatchEmpty :: "HeaderMatcher option \<Rightarrow> bool" where
  "GetIsExactMatchEmpty m = (case m of None \<Rightarrow> False | Some h \<Rightarrow> HM_IsExactMatchEmpty h)"

definition GetQuota :: "SL_Action option \<Rightarrow> string" where
  "GetQuota m = (case m of None \<Rightarrow> '''' | Some a \<Rightarrow> Quota a)"

definition GetFillInterval :: "SL_Action option \<Rightarrow> Duration option" where
  "GetFillInterval m = (case m of None \<Rightarrow> None | Some a \<Rightarrow> FillInterval a)"

definition GetStrategy :: "SL_Action option \<Rightarrow> string" where
  "GetStrategy m = (case m of None \<Rightarrow> '''' | Some a \<Rightarrow> Strategy a)"

definition GetDirection :: "SL_Target option \<Rightarrow> string" where
  "GetDirection m = (case m of None \<Rightarrow> '''' | Some t \<Rightarrow> Direction t)"

definition GetPort :: "SL_Target option \<Rightarrow> 32 word" where
  "GetPort m = (case m of None \<Rightarrow> 0 | Some t \<Rightarrow> Port t)"

definition GetRoute :: "SL_Target option \<Rightarrow> string slice" where
  "GetRoute m = (case m of None \<Rightarrow> None | Some t \<Rightarrow> Route t)"

definition GetHost :: "SL_Target option \<Rightarrow> string slice" where
  "GetHost m = (case m of None \<Rightarrow> None | Some t \<Rightarrow> Host t)"

definition GetCondition :: "SmartLimitDescriptor option \<Rightarrow> string" where
  "GetCondition m = (case m of None \<Rightarrow> '''' | Some d \<Rightarrow> Condition d)"

definition GetAction :: "SmartLimitDescriptor option \<Rightarrow> SL_Action option" where
  "GetAction m = (case m of None \<Rightarrow> None | Some d \<Rightarrow> Action d)"

definition GetMatch :: "SmartLimitDescriptor option \<Rightarrow> HeaderMatcher option slice" where
  "GetMatch m = (case m of None \<Rightarrow> None | Some d \<Rightarrow> Match d)"

definition GetTarget :: "SmartLimitDescriptor option \<Rightarrow> SL_Target option" where
  "GetTarget m = (case m of None \<Rightarrow> None | Some d \<Rightarrow> Target d)"

definition GetCustomKey :: "SmartLimitDescriptor option \<Rightarrow> string" where
  "GetCustomKey m = (case m of None \<Rightarrow> '''' | Some d \<Rightarrow> CustomKey d)"

definition GetCustomValue :: "SmartLimitDescriptor option \<Rightarrow> string" where
  "GetCustomValue m = (case m of None \<Rightarrow> '''' | Some d \<Rightarrow> CustomValue d)"

definition GetDescriptor :: "SmartLimitDescriptors option \<Rightarrow> SmartLimitDescriptor option slice" where
  "GetDescriptor m = (case m of None \<Rightarrow> None | Some ds \<Rightarrow> Descriptor_items ds)"

definition GetSets :: "SmartLimiterSpec option \<Rightarrow> SmartLimitDescriptors option gomap" where
  "GetSets m = (case m of None \<Rightarrow> None | Some spec \<Rightarrow> Sets spec)"

definition GetRls :: "SmartLimiterSpec option \<Rightarrow> string" where
  "GetRls m = (case m of None \<Rightarrow> '''' | Some spec \<Rightarrow> Rls spec)"

definition GetRatelimitStatus :: "SmartLimiterStatus option \<Rightarrow> SmartLimitDescriptors option gomap" where
  "GetRatelimitStatus m = (case m of None \<Rightarrow> None | Some status \<Rightarrow> RatelimitStatus status)"

definition GetMetricStatus :: "SmartLimiterStatus option \<Rightarrow> string gomap" where
  "GetMetricStatus m = (case m of None \<Rightarrow> None | Some status \<Rightarrow> MetricStatus status)"

definition GetBackend :: "Limiter option \<Rightarrow> 32 word" where
  "GetBackend m = (case m of None \<Rightarrow> Limiter_netEaseLocalFlowControl | Some l \<Rightarrow> Limiter_Backend l)"

definition GetRefresh :: "Limiter option \<Rightarrow> 64 word option" where
  "GetRefresh m = (case m of None \<Rightarrow> None | Some l \<Rightarrow> Limiter_Refresh l)"

definition GetDisableGlobalRateLimit :: "Limiter option \<Rightarrow> bool" where
  "GetDisableGlobalRateLimit m = (case m of None \<Rightarrow> False | Some l \<Rightarrow> Limiter_DisableGlobalRateLimit l)"

definition GetDisableAdaptive :: "Limiter option \<Rightarrow> bool" where
  "GetDisableAdaptive m = (case m of None \<Rightarrow> False | Some l \<Rightarrow> Limiter_DisableAdaptive l)"

definition GetEnableServiceEntry :: "Limiter option \<Rightarrow> bool" where
  "GetEnableServiceEntry m = (case m of None \<Rightarrow> False | Some l \<Rightarrow> Limiter_EnableServiceEntry l)"

subsection \<open>Reset\<close>

definition Duration_Reset :: "Duration option \<Rightarrow> Duration go" where
  "Duration_Reset m = gbind (deref m) (\<lambda>_. Inr \<lparr>Seconds = 0, Nanos = 0\<rparr>)"

definition HeaderMatcher_Reset :: "HeaderMatcher option \<Rightarrow> HeaderMatcher go" where
  "HeaderMatcher_Reset m = gbind (deref m) (\<lambda>_. Inr
     \<lparr>HM_Name = '''', HM_RegexMatch = '''', HM_ExactMatch = '''', HM_PrefixMatch = '''',
      HM_SuffixMatch = '''', HM_PresentMatch = False, HM_InvertMatch = False,
      HM_IsExactMatchEmpty = False\<rparr>)"

definition SL_Action_Reset :: "SL_Action option \<Rightarrow> SL_Action go" where
  "SL_Action_Reset m = gbind (deref m) (\<lambda>_. Inr
     \<lparr>Quota = '''', FillInterval = None, Strategy = ''''\<rparr>)"

definition SL_Target_Reset :: "SL_Target option \<Rightarrow> SL_Target go" where
  "SL_Target_Reset m = gbind (deref m) (\<lambda>_. Inr
     \<lparr>Direction = '''', Port = 0, Route = None, Host = None\<rparr>)"

definition SmartLimitDescriptor_Reset :: "SmartLimitDescriptor option \<Rightarrow> SmartLimitDescriptor go" where
  "SmartLimitDescriptor_Reset m = gbind (deref m) (\<lambda>_. Inr
     \<lparr>Condition = '''', Action = None, Match = None, Target = None, CustomKey = '''',
      CustomValue = ''''\<rparr>)"

definition SmartLimitDescriptors_Reset :: "SmartLimitDescriptors option \<Rightarrow> SmartLimitDescriptors go" where
  "SmartLimitDescriptors_Reset m = gbind (deref m) (\<lambda>_. Inr
     \<lparr>Descriptor_items = None\<rparr>)"

definition SmartLimiterSpec_Reset :: "SmartLimiterSpec option \<Rightarrow> SmartLimiterSpec go" where
  "SmartLimiterSpec_Reset m = gbind (deref m) (\<lambda>_. Inr
     \<lparr>Sets = None, Rls = ''''\<rparr>)"

definition SmartLimiterStatus_Reset :: "SmartLimiterStatus option \<Rightarrow> SmartLimiterStatus go" where
  "SmartLimiterStatus_Reset m = gbind (deref m) (\<lambda>_. Inr
     \<lparr>RatelimitStatus = None, MetricStatus = None\<rparr>)"

definition Limiter_Reset :: "Limiter option \<Rightarrow> Limiter go" where
  "Limiter_Reset m = gbind (deref m) (\<lambda>_. Inr
     \<lparr>Limiter_Backend = 0, Limiter_Refresh = None,
      Limiter_DisableGlobalRateLimit = False, Limiter_DisableAdaptive = False,
      Limiter_EnableServiceEntry = False\<rparr>)"

lemmas getter_defs =
  GetSeconds_def GetNanos_def GetName_def GetRegexMatch_def GetExactMatch_def GetPrefixMatch_def
  GetSuffixMatch_def GetPresentMatch_def GetInvertMatch_def GetIsExactMatchEmpty_def
  GetQuota_def GetFillInterval_def GetStrategy_def GetDirection_def GetPort_def GetRoute_def
  GetHost_def GetCondition_def GetAction_def GetMatch_def GetTarget_def GetCustomKey_def
  GetCustomValue_def GetDescriptor_def GetSets_def GetRls_def GetRatelimitStatus_def
  GetMetricStatus_def GetBackend_def GetRefresh_def GetDisableGlobalRateLimit_def
  GetDisableAdaptive_def GetEnableServiceEntry_def

text \<open>
  A message that cannot be told from nil by its getters is the zero value that \<open>Reset\<close> writes,
  and only that one.
\<close>

lemma Duration_zero_iff:
  "Duration_Reset (Some m) = Inr z \<longleftrightarrow>
         GetSeconds (Some z) = GetSeconds None
       \<and> GetNanos (Some z) = GetNanos None"
  by (cases z) (auto simp: Duration_Reset_def getter_defs)

lemma HeaderMatcher_zero_iff:
  "HeaderMatcher_Reset (Some m) = Inr z \<longleftrightarrow>
         GetName (Some z) = GetName None
       \<and> GetRegexMatch (Some z) = GetRegexMatch None
       \<and> GetExactMatch (Some z) = GetExactMatch None
       \<and> GetPrefixMatch (Some z) = GetPrefixMatch None
       \<and> GetSuffixMatch (Some z) = GetSuffixMatch None
       \<and> GetPresentMatch (Some z) = GetPresentMatch None
       \<and> GetInvertMatch (Some z) = GetInvertMatch None
       \<and> GetIsExactMatchEmpty (Some z) = GetIsExactMatchEmpty None"
  by (cases z) (auto simp: HeaderMatcher_Reset_def getter_defs)

lemma SL_Action_zero_iff:
  "SL_Action_Reset (Some m) = Inr z \<longleftrightarrow>
         GetQuota (Some z) = GetQuota None
       \<and> GetFillInterval (Some z) = GetFillInterval None
       \<and> GetStrategy (Some z) = GetStrategy None"
  by (cases z) (auto simp: SL_Action_Reset_def getter_defs)

lemma SL_Target_zero_iff:
  "SL_Target_Reset (Some m) = Inr z \<longleftrightarrow>
         GetDirection (Some z) = GetDirection None
       \<and> GetPort (Some z) = GetPort None
       \<and> GetRoute (Some z) = GetRoute None
       \<and> GetHost (Some z) = GetHost None"
  by (cases z) (auto simp: SL_Target_Reset_def getter_defs)

lemma SmartLimitDescriptor_zero_iff:
  "SmartLimitDescriptor_Reset (Some m) = Inr z \<longleftrightarrow>
         GetCondition (Some z) = GetCondition None
       \<and> GetAction (Some z) = GetAction None
       \<and> GetMatch (Some z) = GetMatch None
       \<and> GetTarget (Some z) = GetTarget None
       \<and> GetCustomKey (Some z) = GetCustomKey None
       \<and> GetCustomValue (Some z) = GetCustomValue None"
  by (cases z) (auto simp: SmartLimitDescriptor_Reset_def getter_defs)

lemma SmartLimitDescriptors_zero_iff:
  "SmartLimitDescriptors_Reset (Some m) = Inr z \<longleftrightarrow>
         GetDescriptor (Some z) = GetDescriptor None"
  by (cases z) (auto simp: SmartLimitDescriptors_Reset_def getter_defs)

lemma SmartLimiterSpec_zero_iff:
  "SmartLimiterSpec_Reset (Some m) = Inr z \<longleftrightarrow>
         GetSets (Some z) = GetSets None
       \<and> GetRls (Some z) = GetRls None"
  by (cases z) (auto simp: SmartLimiterSpec_Reset_def getter_defs)

lemma SmartLimiterStatus_zero_iff:
  "SmartLimiterStatus_Reset (Some m) = Inr z \<longleftrightarrow>
         GetRatelimitStatus (Some z) = GetRatelimitStatus None
       \<and> GetMetricStatus (Some z) = GetMetricStatus None"
  by (cases z) (auto simp: SmartLimiterStatus_Reset_def getter_defs)

lemma Limiter_zero_iff:
  "Limiter_Reset (Some m) = Inr z \<longleftrightarrow>
         GetBackend (Some z) = GetBackend None
       \<and> GetRefresh (Some z) = GetRefresh None
       \<and> GetDisableGlobalRateLimit (Some z) = GetDisableGlobalRateLimit None
       \<and> GetDisableAdaptive (Some z) = GetDisableAdaptive None
       \<and> GetEnableServiceEntry (Some z) = GetEnableServiceEntry None"
  by (cases z) (auto simp: Limiter_Reset_def getter_defs Limiter_netEaseLocalFlowControl_def)

subsection \<open>What the program reads\<close>

text \<open>
  The program reads the action of a descriptor without a getter, which panics exactly where a
  chain of getters answers nil. Where it does not panic, it reads what the getters would.
\<close>

lemma well_timed_getters:
  "well_timed d \<longleftrightarrow> GetFillInterval (GetAction (Some d)) \<noteq> None"
  by (auto simp: well_timed_def getter_defs split: option.split)

lemma token_bucket_getters:
  assumes "generateTokenBucket d = Inr b"
  shows "MaxTokens b = ucast (fst (Atoi (GetQuota (GetAction (Some d)))))"
    and "D_Seconds (TB_FillInterval b) = GetSeconds (GetFillInterval (GetAction (Some d)))"
    and "D_Nanos (TB_FillInterval b) = GetNanos (GetFillInterval (GetAction (Some d)))"
  using generateTokenBucket_Inr [OF assms] by (auto simp: getter_defs)

end
