(* ===== verification/Secrets.thy ===== *)
theory Secrets
  imports Multicluster
begin

section \<open>From the informer to the registered clusters\<close>

text \<open>
  The informer of the multicluster controller lists and watches the labelled secrets of one
  namespace, its handlers fill the queue, and \<open>Run\<close> works the queue off until it is stopped.
  The lemmas follow a batch of changed secrets through the queue: it is worked off in as many
  rounds as it has keys, in any order, and what is registered afterwards.
\<close>

subsection \<open>The informer\<close>

definition RootNamespace :: string where "RootNamespace = ''istio-mc''"

record ListOptions =
  LabelSelector :: string

text \<open>
  \<open>ListFunc\<close> and \<open>WatchFunc\<close> set the selector and call the API, \<open>List\<close> and \<open>Watch\<close> here. They
  panic when the environment has no configuration.
\<close>

definition secrets_selector :: "Environment \<Rightarrow> string go" where
  "secrets_selector env =
     gbind (deref (Env_Config env)) (\<lambda>config.
     gbind (deref (Config_Global config)) (\<lambda>global.
       Inr (Multicluster_Label global @ ''=true'')))"

definition ListFunc ::
    "Environment \<Rightarrow> (string \<Rightarrow> 'o ListOptions_scheme \<Rightarrow> goerror + 'objs) \<Rightarrow> 'o ListOptions_scheme
       \<Rightarrow> (goerror + 'objs) go" where
  "ListFunc env List opts =
     gbind (secrets_selector env) (\<lambda>selector. Inr (List RootNamespace (opts\<lparr>LabelSelector := selector\<rparr>)))"

definition WatchFunc ::
    "Environment \<Rightarrow> (string \<Rightarrow> 'o ListOptions_scheme \<Rightarrow> goerror + 'watch) \<Rightarrow> 'o ListOptions_scheme
       \<Rightarrow> (goerror + 'watch) go" where
  "WatchFunc env Watch opts =
     gbind (secrets_selector env) (\<lambda>selector. Inr (Watch RootNamespace (opts\<lparr>LabelSelector := selector\<rparr>)))"

text \<open>The handlers; the key functions of the cache package may fail.\<close>

definition AddFunc :: "'q workqueue \<Rightarrow> ('obj \<Rightarrow> goerror + string) \<Rightarrow> 'obj \<Rightarrow> 'q \<Rightarrow> 'q" where
  "AddFunc W MetaNamespaceKeyFunc obj queue =
     (case MetaNamespaceKeyFunc obj of Inl err \<Rightarrow> queue | Inr key \<Rightarrow> wq_Add W queue key)"

definition DeleteFunc :: "'q workqueue \<Rightarrow> ('obj \<Rightarrow> goerror + string) \<Rightarrow> 'obj \<Rightarrow> 'q \<Rightarrow> 'q" where
  "DeleteFunc W DeletionHandlingMetaNamespaceKeyFunc obj queue =
     (case DeletionHandlingMetaNamespaceKeyFunc obj of Inl err \<Rightarrow> queue | Inr key \<Rightarrow> wq_Add W queue key)"

text \<open>
  \<open>Run\<close>: nothing is processed before the cache has synced; then \<open>wait.Until\<close> starts
  \<open>runWorker\<close> again and again until the controller is stopped. The list has the rounds of each
  of these runs.
\<close>

definition Run ::
    "('cfg, 'rest, 'k) clientcmd \<Rightarrow> 'q workqueue \<Rightarrow> bool
       \<Rightarrow> (chooser \<times> (string \<Rightarrow> goerror + Secret option)) list list
       \<Rightarrow> 'q \<times> ('k, 'x) Controller \<Rightarrow> 'q \<times> ('k, 'x) Controller" where
  "Run K W synced runs s =
     (if \<not> synced then (wq_ShutDown W (fst s), snd s)
      else case fold (runWorker K W) runs s of (queue, c) \<Rightarrow> (wq_ShutDown W queue, c))"

lemma runWorker_fold_requeues:
  assumes "counts_requeues W" "\<forall>k. wq_NumRequeues W (fst s) k \<le> maxRetries"
  shows "\<forall>k. wq_NumRequeues W (fst (fold (runWorker K W) runs s)) k \<le> maxRetries"
  using assms(2)
  by (induction runs arbitrary: s) (simp_all add: runWorker_requeues [OF assms(1)])

lemma ListFunc_total_iff:
  "(\<exists>x. ListFunc env List opts = Inr x) \<longleftrightarrow>
     (\<exists>config global. Env_Config env = Some config \<and> Config_Global config = Some global)"
  by (auto simp: ListFunc_def secrets_selector_def)

subsection \<open>Working off the queue\<close>

fun work_off ::
    "('cfg, 'rest, 'k) clientcmd \<Rightarrow> (string \<Rightarrow> Secret option) \<Rightarrow> (chooser \<times> string) list
       \<Rightarrow> ('k, 'x) Controller \<Rightarrow> ('k, 'x) Controller" where
  "work_off K secrets [] c = c"
| "work_off K secrets ((ch, key) # rounds) c =
     work_off K secrets rounds (fst (processItem K ch (\<lambda>k. Inr (secrets k)) key c))"

text \<open>It is a run of the controller, one step for each key.\<close>

lemma work_off_steps:
  assumes "\<forall>(ch, key) \<in> set rounds. fair ch \<and> key \<in> queue" "distinct (map snd rounds)"
  shows "(member_step K)\<^sup>*\<^sup>* (secrets, queue, c)
           (secrets, queue - snd ` set rounds, work_off K secrets rounds c)"
  using assms
proof (induction rounds arbitrary: c queue)
  case (Cons round rounds)
  obtain ch key where round: "round = (ch, key)" by (cases round)
  let ?c = "fst (processItem K ch (\<lambda>k. Inr (secrets k)) key c)"
  have "member_step K (secrets, queue, c) (secrets, queue - {key}, ?c)"
    using Cons.prems(1) round by (intro member_step.item_processed [of key _ ch]) (auto simp: prod_eq_iff)
  moreover have "(member_step K)\<^sup>*\<^sup>* (secrets, queue - {key}, ?c)
      (secrets, queue - {key} - snd ` set rounds, work_off K secrets rounds ?c)"
    using Cons.prems round by (intro Cons.IH) (auto simp: rev_image_eqI)
  moreover have "queue - {key} - snd ` set rounds = queue - snd ` set (round # rounds)"
    using round by auto
  ultimately show ?case using round by (simp add: converse_rtranclp_into_rtranclp)
qed simp

text \<open>What one round leaves registered: nothing of a secret that exists goes.\<close>

definition kept_by :: "(string \<Rightarrow> Secret option) \<Rightarrow> ('k, 'x) Controller \<Rightarrow> string \<Rightarrow> bool" where
  "kept_by secrets c i \<longleftrightarrow> (\<exists>s. fmlookup (cs c) i = Some s \<and> secrets s \<noteq> None)"

definition owned_by_gone :: "(string \<Rightarrow> Secret option) \<Rightarrow> ('k, 'x) Controller \<Rightarrow> string \<Rightarrow> bool" where
  "owned_by_gone secrets c i \<longleftrightarrow> (\<exists>s. fmlookup (cs c) i = Some s \<and> secrets s = None)"

lemma processItem_cs:
  assumes "fair ch"
  shows "fmlookup (cs (fst (processItem K ch (\<lambda>k. Inr (secrets k)) key c))) i =
     (case secrets key of
        None \<Rightarrow> if fmlookup (cs c) i = Some key then None else fmlookup (cs c) i
      | Some s \<Rightarrow> (case fmlookup (cs c) i of
           Some s' \<Rightarrow> Some s'
         | None \<Rightarrow> (case map_get (Secret_Data s) i of
              None \<Rightarrow> None | Some kubeConfig \<Rightarrow> if usable K kubeConfig then Some key else None)))"
  by (simp add: processItem_def addMemberCluster_cs [OF assms] deleteMemberCluster_cs [OF assms]
      split: option.split)

lemma work_off_kept:
  assumes "\<forall>(ch, key) \<in> set rounds. fair ch" "kept_by secrets c i"
  shows "kept_by secrets (work_off K secrets rounds c) i"
  using assms
proof (induction rounds arbitrary: c)
  case (Cons round rounds)
  obtain ch key where round: "round = (ch, key)" by (cases round)
  have "kept_by secrets (fst (processItem K ch (\<lambda>k. Inr (secrets k)) key c)) i"
    using Cons.prems round by (auto simp: kept_by_def processItem_cs split: option.split)
  with Cons round show ?case by simp
qed simp

text \<open>
  A usable cluster of a secret in the queue is registered in the end, unless it is still
  registered for a secret that is gone.
\<close>

lemma work_off_registers:
  assumes "\<forall>(ch, key) \<in> set rounds. fair ch" "key \<in> snd ` set rounds"
    and "secrets key = Some s" "map_get (Secret_Data s) i = Some kubeConfig" "usable K kubeConfig"
    and "\<not> owned_by_gone secrets c i"
  shows "kept_by secrets (work_off K secrets rounds c) i"
  using assms(1,2,6)
proof (induction rounds arbitrary: c)
  case (Cons round rounds)
  obtain ch k where round: "round = (ch, k)" by (cases round)
  let ?c = "fst (processItem K ch (\<lambda>k. Inr (secrets k)) k c)"
  have f: "fair ch" and rest: "\<forall>(ch, key) \<in> set rounds. fair ch" using Cons.prems(1) round by auto
  show ?case
  proof (cases "kept_by secrets ?c i")
    case True
    with work_off_kept [OF rest] round show ?thesis by simp
  next
    case False
    have "k \<noteq> key"
    proof
      assume "k = key"
      with False Cons.prems(3) assms(3-5) show False
        by (cases "fmlookup (cs c) i") (auto simp: kept_by_def owned_by_gone_def processItem_cs [OF f])
    qed
    moreover have "\<not> owned_by_gone secrets ?c i"
      using Cons.prems(3)
      by (cases "fmlookup (cs c) i"; cases "secrets k")
        (auto simp: owned_by_gone_def processItem_cs [OF f] split: option.splits if_splits)
    ultimately have "kept_by secrets (work_off K secrets rounds ?c) i"
      using rest Cons.prems(2) round by (intro Cons.IH) auto
    with round show ?thesis by simp
  qed
qed simp

text \<open>The whole queue: afterwards every registered cluster belongs to a secret that exists.\<close>

lemma work_off_clean:
  assumes "reachable (member_init subs unsubs x) (member_step K) (secrets, queue, c)"
    and "\<forall>(ch, key) \<in> set rounds. fair ch" "distinct (map snd rounds)" "snd ` set rounds = queue"
  shows "(member_step K)\<^sup>*\<^sup>* (secrets, queue, c) (secrets, {}, work_off K secrets rounds c)"
    and "fmlookup (cs (work_off K secrets rounds c)) i = Some s \<Longrightarrow> secrets s \<noteq> None"
proof -
  have "\<forall>(ch, key) \<in> set rounds. fair ch \<and> key \<in> queue" using assms(2,4) by force
  from work_off_steps [OF this assms(3), of K secrets c]
  show steps: "(member_step K)\<^sup>*\<^sup>* (secrets, queue, c) (secrets, {}, work_off K secrets rounds c)"
    by (simp add: assms(4))
  have "member_inv (secrets, queue, c)" by (rule members.reachable_inv [OF assms(1)])
  from members.steps_inv [OF steps this]
  show "fmlookup (cs (work_off K secrets rounds c)) i = Some s \<Longrightarrow> secrets s \<noteq> None"
    by (auto simp: member_inv_def)
qed

text \<open>
  A cluster that two secrets name is lost when the one it was registered for is deleted: the
  other is not looked at again.
\<close>

lemma shared_cluster_lost:
  assumes "fmlookup (cs c) i = Some a" "fair ch"
  shows "\<exists>c'. (member_step K)\<^sup>*\<^sup>* (secrets, {}, c) (secrets(a := None), {}, c')
           \<and> fmlookup (cs c') i = None"
proof -
  let ?secrets = "secrets(a := None)" and ?c = "work_off K (secrets(a := None)) [(ch, a)] c"
  have "member_step K (secrets, {}, c) (?secrets, {a}, c)"
    by (rule member_step.secret_deleted)
  moreover have "(member_step K)\<^sup>*\<^sup>* (?secrets, {a}, c) (?secrets, {a} - snd ` set [(ch, a)], ?c)"
    by (rule work_off_steps) (simp_all add: assms(2))
  moreover have "fmlookup (cs ?c) i = None"
    using processItem_cs [OF assms(2), of K ?secrets a c i] by (simp add: assms(1))
  ultimately show ?thesis by (intro exI [of _ ?c]) (auto intro: converse_rtranclp_into_rtranclp)
qed

end
