(* ===== verification/Lifecycle.thy ===== *)
theory Lifecycle
  imports Secrets
begin

section \<open>The life of the multicluster controller's worker\<close>

text \<open>
  \<open>Secrets\<close> follows what the worker of \<open>controllers/multicluster/controller.go\<close> does to the
  queue. This theory is about when it ends: \<open>runWorker\<close> as the loop it is, over an environment
  that goes on for ever, and \<open>Run\<close> as a state machine with the channel \<open>stop\<close>. The loop ends
  exactly when somebody shuts the queue down. The only caller of \<open>ShutDown\<close> is the deferred call
  of \<open>Run\<close>, which waits for the loop: so a worker that has started outlives the stop signal.
\<close>

subsection \<open>The queue when it shuts down\<close>

text \<open>
  \<open>Get\<close> blocks while the queue is empty and not shutting down. Once it shuts down, nothing is
  added to it any more, \<open>Get\<close> hands out what is left, and then says so.
\<close>

definition blocked :: "'q workqueue \<Rightarrow> 'q \<Rightarrow> bool" where
  "blocked W q \<longleftrightarrow> wq_Len W q = 0 \<and> \<not> wq_ShuttingDown W q"

definition drains_when_shut_down :: "'q workqueue \<Rightarrow> bool" where
  "drains_when_shut_down W \<longleftrightarrow>
     (\<forall>q. wq_Get W q = None \<longleftrightarrow> wq_Len W q = 0)
   \<and> (\<forall>q k q1. wq_Get W q = Some (k, q1) \<longrightarrow> wq_ShuttingDown W q1 = wq_ShuttingDown W q)
   \<and> (\<forall>q k. wq_ShuttingDown W (wq_Done W q k) = wq_ShuttingDown W q
         \<and> wq_ShuttingDown W (wq_Forget W q k) = wq_ShuttingDown W q
         \<and> wq_ShuttingDown W (wq_AddRateLimited W q k) = wq_ShuttingDown W q
         \<and> wq_ShuttingDown W (wq_Add W q k) = wq_ShuttingDown W q)
   \<and> (\<forall>q. wq_ShuttingDown W (wq_ShutDown W q))
   \<and> (\<forall>q k. wq_ShuttingDown W q \<longrightarrow> wq_Len W (wq_Add W q k) = wq_Len W q
         \<and> wq_Len W (wq_ShutDown W q) = wq_Len W q)
   \<and> (\<forall>q k q1. wq_ShuttingDown W q \<longrightarrow> wq_Get W q = Some (k, q1) \<longrightarrow>
         wq_Len W (wq_Done W (wq_Forget W q1 k) k) < wq_Len W q
       \<and> wq_Len W (wq_Done W (wq_AddRateLimited W q1 k) k) < wq_Len W q)"

lemma drains_when_shut_downD:
  assumes "drains_when_shut_down W"
  shows "wq_Get W q = None \<longleftrightarrow> wq_Len W q = 0"
    and "wq_Get W q = Some (k, q1) \<Longrightarrow> wq_ShuttingDown W q1 = wq_ShuttingDown W q"
    and "wq_ShuttingDown W (wq_Done W q k) = wq_ShuttingDown W q"
    and "wq_ShuttingDown W (wq_Forget W q k) = wq_ShuttingDown W q"
    and "wq_ShuttingDown W (wq_AddRateLimited W q k) = wq_ShuttingDown W q"
    and "wq_ShuttingDown W (wq_Add W q k) = wq_ShuttingDown W q"
    and "wq_ShuttingDown W (wq_ShutDown W q)"
    and "wq_ShuttingDown W q \<Longrightarrow> wq_Len W (wq_Add W q k) = wq_Len W q"
    and "wq_ShuttingDown W q \<Longrightarrow> wq_Len W (wq_ShutDown W q) = wq_Len W q"
    and "wq_ShuttingDown W q \<Longrightarrow> wq_Get W q = Some (k, q1) \<Longrightarrow>
           wq_Len W (wq_Done W (wq_Forget W q1 k) k) < wq_Len W q"
    and "wq_ShuttingDown W q \<Longrightarrow> wq_Get W q = Some (k, q1) \<Longrightarrow>
           wq_Len W (wq_Done W (wq_AddRateLimited W q1 k) k) < wq_Len W q"
  using assms unfolding drains_when_shut_down_def by - meson+

lemma processNextItem_quits:
  assumes "drains_when_shut_down W"
  shows "fst (processNextItem K W ch GetByKey (q, c)) \<longleftrightarrow> wq_Len W q \<noteq> 0"
    and "\<not> fst (processNextItem K W ch GetByKey (q, c)) \<Longrightarrow>
           processNextItem K W ch GetByKey (q, c) = (False, q, c)"
  using drains_when_shut_downD(1) [OF assms, of q]
  by (auto simp: processNextItem_def Let_def case_prod_beta split: option.split)

lemma processNextItem_down:
  assumes "drains_when_shut_down W" "processNextItem K W ch GetByKey (q, c) = (ok, q', c')"
  shows "wq_ShuttingDown W q' = wq_ShuttingDown W q"
proof (cases "wq_Get W q")
  case None
  with assms(2) show ?thesis by (simp add: processNextItem_def)
next
  case (Some kq)
  obtain k q1 where kq: "kq = (k, q1)" by (cases kq)
  with Some have "wq_ShuttingDown W q1 = wq_ShuttingDown W q"
    using drains_when_shut_downD(2) [OF assms(1)] by blast
  with assms(2) Some kq drains_when_shut_downD(3-5) [OF assms(1)] show ?thesis
    by (auto simp: processNextItem_def Let_def split: prod.splits option.splits if_splits)
qed

lemma processNextItem_drains:
  assumes "drains_when_shut_down W" "wq_ShuttingDown W q"
    and "processNextItem K W ch GetByKey (q, c) = (True, q', c')"
  shows "wq_Len W q' < wq_Len W q"
proof -
  obtain k q1 where "wq_Get W q = Some (k, q1)"
    using assms(3) by (auto simp: processNextItem_def split: option.splits)
  with assms(3) drains_when_shut_downD(10,11) [OF assms(1,2) this] show ?thesis
    by (auto simp: processNextItem_def Let_def split: prod.splits option.splits if_splits)
qed

subsection \<open>The loop\<close>

text \<open>
  What happens to the queue from outside: the informer's handlers add keys, and somebody may
  shut it down. A round has the events before its \<open>Get\<close>, the order of the map range and what
  the informer's cache holds. While \<open>Get\<close> blocks, further events arrive.
\<close>

datatype queue_event = Added string | ShutDown

fun apply_event :: "'q workqueue \<Rightarrow> queue_event \<Rightarrow> 'q \<Rightarrow> 'q" where
  "apply_event W (Added key) q = wq_Add W q key"
| "apply_event W ShutDown q = wq_ShutDown W q"

type_synonym round = "queue_event list \<times> chooser \<times> (string \<Rightarrow> goerror + Secret option)"

definition worker_round ::
    "('cfg, 'rest, 'k) clientcmd \<Rightarrow> 'q workqueue \<Rightarrow> round \<Rightarrow> 'q \<times> ('k, 'x) Controller
       \<Rightarrow> bool \<times> 'q \<times> ('k, 'x) Controller" where
  "worker_round K W = (\<lambda>(events, ch, GetByKey) (q, c).
     let q1 = fold (apply_event W) events q
     in if blocked W q1 then (True, q1, c) else processNextItem K W ch GetByKey (q1, c))"

partial_function (option) worker_loop ::
    "('cfg, 'rest, 'k) clientcmd \<Rightarrow> 'q workqueue \<Rightarrow> (nat \<Rightarrow> round) \<Rightarrow> nat
       \<Rightarrow> 'q \<times> ('k, 'x) Controller \<Rightarrow> ('q \<times> ('k, 'x) Controller) option" where
  "worker_loop K W env n s =
     (if fst (worker_round K W (env n) s)
      then worker_loop K W env (Suc n) (snd (worker_round K W (env n) s))
      else Some (snd (worker_round K W (env n) s)))"

lemmas worker_loop_induct = worker_loop.raw_induct [rotated, consumes 1, case_names round]

text \<open>Where nothing arrives and nothing blocks, it is the \<open>runWorker\<close> over a list of rounds.\<close>

lemma worker_loop_runWorker:
  assumes "drains_when_shut_down W" "\<forall>i. fst (env i) = []" "wq_ShuttingDown W (fst s)"
    and "worker_loop K W env n s = Some t"
  shows "\<exists>m. runWorker K W (map (\<lambda>i. snd (env i)) [n..<m]) s = t \<and> n < m"
  using assms(3,4)
proof (induction "wq_Len W (fst s)" arbitrary: n s rule: less_induct)
  case less
  obtain ch GetByKey where env: "env n = ([], ch, GetByKey)"
    using assms(2) by (metis prod.collapse)
  obtain q c where s: "s = (q, c)" by (cases s)
  have round: "worker_round K W (env n) s = processNextItem K W ch GetByKey (q, c)"
    using less.prems(1) by (simp add: worker_round_def env s blocked_def)
  obtain ok q' c' where run: "processNextItem K W ch GetByKey (q, c) = (ok, q', c')"
    by (cases "processNextItem K W ch GetByKey (q, c)") auto
  show ?case
  proof (cases ok)
    case True
    have "wq_Len W (fst (q', c')) < wq_Len W (fst s)" "wq_ShuttingDown W (fst (q', c'))"
      using processNextItem_drains [OF assms(1)] processNextItem_down [OF assms(1) run] run True less.prems(1) s
      by auto
    moreover have "worker_loop K W env (Suc n) (q', c') = Some t"
      using less.prems(2) round run True by (subst (asm) worker_loop.simps) simp
    ultimately obtain m where m: "runWorker K W (map (\<lambda>i. snd (env i)) [Suc n..<m]) (q', c') = t" "Suc n < m"
      using less.hyps by blast
    then have "[n..<m] = n # [Suc n..<m]" by (simp add: upt_conv_Cons)
    with m run True env s show ?thesis by (intro exI [of _ m]) simp
  next
    case False
    then have "t = (q', c')"
      using less.prems(2) round run by (subst (asm) worker_loop.simps) simp
    with run False env s show ?thesis by (intro exI [of _ "Suc n"]) simp
  qed
qed

lemma events_keep_down:
  assumes "drains_when_shut_down W"
  shows "wq_ShuttingDown W (fold (apply_event W) events q) \<longleftrightarrow>
           wq_ShuttingDown W q \<or> ShutDown \<in> set events"
proof (induction events arbitrary: q)
  case (Cons e events)
  then show ?case using drains_when_shut_downD(6,7) [OF assms] by (cases e) auto
qed simp

lemma events_keep_length:
  assumes "drains_when_shut_down W" "wq_ShuttingDown W q"
  shows "wq_Len W (fold (apply_event W) events q) = wq_Len W q"
  using assms(2)
proof (induction events arbitrary: q)
  case (Cons e events)
  then show ?case using drains_when_shut_downD(6-9) [OF assms(1)] by (cases e) simp_all
qed simp

lemma worker_round_down:
  assumes "drains_when_shut_down W"
  shows "wq_ShuttingDown W (fst (snd (worker_round K W r s))) \<longleftrightarrow>
           wq_ShuttingDown W (fst s) \<or> ShutDown \<in> set (fst r)"
proof -
  obtain events ch GetByKey q c where *: "r = (events, ch, GetByKey)" "s = (q, c)" by (metis prod.collapse)
  let ?q1 = "fold (apply_event W) events q"
  obtain ok q' c' where run: "processNextItem K W ch GetByKey (?q1, c) = (ok, q', c')"
    by (cases "processNextItem K W ch GetByKey (?q1, c)") auto
  show ?thesis
    using processNextItem_down [OF assms run] events_keep_down [OF assms, of events q]
    by (auto simp: worker_round_def * Let_def run)
qed

text \<open>A round goes on as long as the queue is not shut down.\<close>

lemma worker_round_goes_on:
  assumes "drains_when_shut_down W" "\<not> wq_ShuttingDown W (fst s)" "ShutDown \<notin> set (fst r)"
  shows "fst (worker_round K W r s)"
proof -
  obtain events ch GetByKey q c where *: "r = (events, ch, GetByKey)" "s = (q, c)" by (metis prod.collapse)
  with assms(2,3) have "\<not> wq_ShuttingDown W (fold (apply_event W) events q)"
    by (simp add: events_keep_down [OF assms(1)])
  then show ?thesis
    by (auto simp: worker_round_def * Let_def blocked_def processNextItem_quits(1) [OF assms(1)])
qed

lemma worker_loop_ends:
  assumes "drains_when_shut_down W" "wq_ShuttingDown W (fst s)"
  shows "\<exists>t. worker_loop K W env n s = Some t"
  using assms(2)
proof (induction "wq_Len W (fst s)" arbitrary: n s rule: less_induct)
  case less
  show ?case
  proof (cases "fst (worker_round K W (env n) s)")
    case True
    obtain events ch GetByKey q c where *: "env n = (events, ch, GetByKey)" "s = (q, c)"
      by (metis prod.collapse)
    let ?q1 = "fold (apply_event W) events q"
    have down: "wq_ShuttingDown W ?q1" using less.prems by (simp add: events_keep_down [OF assms(1)] *)
    obtain q' c' where run: "processNextItem K W ch GetByKey (?q1, c) = (True, q', c')"
      using True down by (cases "processNextItem K W ch GetByKey (?q1, c)")
        (auto simp: worker_round_def * blocked_def)
    then have next_state: "snd (worker_round K W (env n) s) = (q', c')"
      using down by (simp add: worker_round_def * blocked_def)
    have "wq_Len W q' < wq_Len W q"
      using processNextItem_drains [OF assms(1) down run] events_keep_length [OF assms(1)] less.prems *
      by simp
    with less.hyps [of "(q', c')" "Suc n"] next_state worker_round_down [OF assms(1), of K "env n" s]
      less.prems * show ?thesis by (subst worker_loop.simps) (simp add: True)
  qed (subst worker_loop.simps, simp)
qed

lemma worker_loop_after:
  assumes "drains_when_shut_down W" "\<not> wq_ShuttingDown W (fst s)"
    and "\<forall>i \<in> {n..<n + m}. ShutDown \<notin> set (fst (env i))"
  shows "\<exists>t. \<not> wq_ShuttingDown W (fst t) \<and> worker_loop K W env n s = worker_loop K W env (n + m) t"
  using assms(2,3)
proof (induction m arbitrary: n s)
  case (Suc m)
  let ?t = "snd (worker_round K W (env n) s)"
  have "fst (worker_round K W (env n) s)" "\<not> wq_ShuttingDown W (fst ?t)"
    using Suc.prems by (simp_all add: worker_round_goes_on [OF assms(1)] worker_round_down [OF assms(1)])
  moreover from Suc.IH [OF this(2), of "Suc n"] Suc.prems(2) obtain t where
    "\<not> wq_ShuttingDown W (fst t)" "worker_loop K W env (Suc n) ?t = worker_loop K W env (n + Suc m) t"
    by auto
  ultimately show ?case by (intro exI [of _ t]) (subst worker_loop.simps, simp)
qed auto

text \<open>Without a shut-down no number of rounds is enough: the loop does not return.\<close>

lemma worker_loop_never:
  assumes "drains_when_shut_down W" "\<forall>i \<ge> n. ShutDown \<notin> set (fst (env i))"
    and "\<not> wq_ShuttingDown W (fst s)"
  shows "worker_loop K W env n s = None"
proof -
  have "wq_ShuttingDown W (fst s)"
    if "worker_loop K W env n s = Some t" "drains_when_shut_down W"
      "\<forall>i \<ge> n. ShutDown \<notin> set (fst (env i))" for t
    using that
  proof (induction rule: worker_loop_induct)
    case (round loop K W env n s t)
    show ?case
    proof (cases "fst (worker_round K W (env n) s)")
      case True
      with round have "wq_ShuttingDown W (fst (snd (worker_round K W (env n) s)))" by simp
      with round(3,4) show ?thesis by (simp add: worker_round_down)
    next
      case False
      with round(3,4) worker_round_goes_on show ?thesis by blast
    qed
  qed
  with assms show ?thesis by (cases "worker_loop K W env n s") auto
qed

text \<open>
  So the loop returns exactly when the queue is shut down, at once or later. A key that was in
  the queue then is still processed: it returns with an empty queue.
\<close>

lemma worker_loop_returns_iff:
  assumes "drains_when_shut_down W"
  shows "(\<exists>t. worker_loop K W env 0 s = Some t) \<longleftrightarrow>
           wq_ShuttingDown W (fst s) \<or> (\<exists>i. ShutDown \<in> set (fst (env i)))"
proof (cases "\<exists>i. ShutDown \<in> set (fst (env i))")
  case True
  define m where "m = (LEAST i. ShutDown \<in> set (fst (env i)))"
  have m: "ShutDown \<in> set (fst (env m))" "\<forall>i \<in> {0..<0 + m}. ShutDown \<notin> set (fst (env i))"
    using True by (auto simp: m_def dest: not_less_Least intro: LeastI_ex)
  show ?thesis
  proof (cases "wq_ShuttingDown W (fst s)")
    case False
    from worker_loop_after [OF assms this m(2), of K] obtain t where
      "worker_loop K W env 0 s = worker_loop K W env m t" unfolding add_0 by blast
    moreover have "\<exists>u. worker_loop K W env m t = Some u"
    proof -
      have "wq_ShuttingDown W (fst (snd (worker_round K W (env m) t)))"
        using m(1) by (simp add: worker_round_down [OF assms])
      from worker_loop_ends [OF assms this] show ?thesis by (subst worker_loop.simps) auto
    qed
    ultimately show ?thesis using True by simp
  qed (use worker_loop_ends [OF assms, of s K env 0] in auto)
next
  case False
  with worker_loop_never [OF assms] worker_loop_ends [OF assms] show ?thesis
    by (metis option.distinct(1))
qed

lemma worker_loop_empties:
  assumes "worker_loop K W env n s = Some t" "drains_when_shut_down W"
  shows "wq_Len W (fst t) = 0"
  using assms
proof (induction rule: worker_loop_induct)
  case (round loop K W env n s t)
  show ?case
  proof (cases "fst (worker_round K W (env n) s)")
    case False
    obtain events ch GetByKey q c where *: "env n = (events, ch, GetByKey)" "s = (q, c)"
      by (metis prod.collapse)
    let ?q = "fold (apply_event W) events q"
    have this_round: "worker_round K W (env n) s = processNextItem K W ch GetByKey (?q, c)"
      using False by (auto simp: worker_round_def * Let_def split: if_splits)
    moreover have "t = snd (worker_round K W (env n) s)" using False round(2) by simp
    ultimately show ?thesis
      using False processNextItem_quits [OF round(3), of K ch GetByKey ?q c] by simp
  qed (use round in simp)
qed

subsection \<open>What the loop has done when it returns\<close>

text \<open>
  The keys of a queue, as its users see them: \<open>Get\<close> takes one of them and gives none only when
  there is none, and no operation loses another; an open queue takes what is added.
\<close>

definition hands_out :: "'q workqueue \<Rightarrow> ('q \<Rightarrow> string set) \<Rightarrow> bool" where
  "hands_out W keys \<longleftrightarrow>
     (\<forall>q. wq_Get W q = None \<longrightarrow> keys q = {})
   \<and> (\<forall>q k q1. wq_Get W q = Some (k, q1) \<longrightarrow>
         keys q - {k} \<subseteq> keys (wq_Done W (wq_Forget W q1 k) k)
       \<and> keys q - {k} \<subseteq> keys (wq_Done W (wq_AddRateLimited W q1 k) k))
   \<and> (\<forall>q k. keys q \<subseteq> keys (wq_Add W q k) \<and> (\<not> wq_ShuttingDown W q \<longrightarrow> k \<in> keys (wq_Add W q k)))
   \<and> (\<forall>q. keys q \<subseteq> keys (wq_ShutDown W q))"

lemma hands_outD:
  assumes "hands_out W keys"
  shows "wq_Get W q = None \<Longrightarrow> keys q = {}"
    and "wq_Get W q = Some (k, q1) \<Longrightarrow> keys q - {k} \<subseteq> keys (wq_Done W (wq_Forget W q1 k) k)"
    and "wq_Get W q = Some (k, q1) \<Longrightarrow> keys q - {k} \<subseteq> keys (wq_Done W (wq_AddRateLimited W q1 k) k)"
    and "keys q \<subseteq> keys (wq_Add W q k)"
    and "\<not> wq_ShuttingDown W q \<Longrightarrow> k \<in> keys (wq_Add W q k)"
    and "keys q \<subseteq> keys (wq_ShutDown W q)"
  using assms unfolding hands_out_def by - meson+

lemma events_keep_keys:
  assumes "hands_out W keys"
  shows "keys q \<subseteq> keys (fold (apply_event W) events q)"
proof (induction events arbitrary: q)
  case (Cons e events)
  have "keys q \<subseteq> keys (apply_event W e q)" using hands_outD(4,6) [OF assms] by (cases e) auto
  with Cons show ?case by fastforce
qed simp

lemma events_add_keys:
  assumes "drains_when_shut_down W" "hands_out W keys" "\<not> wq_ShuttingDown W q" "ShutDown \<notin> set us"
  shows "k \<in> keys (fold (apply_event W) (us @ Added k # vs) q)"
proof -
  have "\<not> wq_ShuttingDown W (fold (apply_event W) us q)"
    using assms(3,4) by (simp add: events_keep_down [OF assms(1)])
  with hands_outD(5) [OF assms(2)] have "k \<in> keys (apply_event W (Added k) (fold (apply_event W) us q))" by simp
  with events_keep_keys [OF assms(2)] show ?thesis by fastforce
qed

text \<open>A round does one of two things: it processes a key, or it leaves the registry alone.\<close>

lemma worker_round_handles:
  assumes "hands_out W keys" "worker_round K W (events, ch, GetByKey) (q, c) = (ok, q', c')"
  shows "(\<exists>k. ok \<and> c' = fst (processItem K ch GetByKey k c)
             \<and> keys (fold (apply_event W) events q) - {k} \<subseteq> keys q')
       \<or> c' = c \<and> keys (fold (apply_event W) events q) \<subseteq> keys q'
           \<and> (\<not> ok \<longrightarrow> keys (fold (apply_event W) events q) = {})"
proof (cases "blocked W (fold (apply_event W) events q)")
  case True
  with assms(2) show ?thesis by (simp add: worker_round_def)
next
  case False
  let ?q1 = "fold (apply_event W) events q"
  have run: "processNextItem K W ch GetByKey (?q1, c) = (ok, q', c')"
    using assms(2) False by (simp add: worker_round_def)
  show ?thesis
  proof (cases "wq_Get W ?q1")
    case None
    with run hands_outD(1) [OF assms(1)] show ?thesis by (simp add: processNextItem_def)
  next
    case (Some kq)
    obtain k q2 where kq: "kq = (k, q2)" by (cases kq)
    obtain c2 err where item: "processItem K ch GetByKey k c = (c2, err)" by fastforce
    have "ok" "c' = c2" using run Some kq item by (auto simp: processNextItem_def Let_def)
    moreover have "keys ?q1 - {k} \<subseteq> keys q'"
      using run Some kq item hands_outD(2,3) [OF assms(1) Some [unfolded kq]]
      by (auto simp: processNextItem_def Let_def split: option.splits if_splits)
    ultimately show ?thesis using item by (intro disjI1 exI [of _ k]) simp
  qed
qed

text \<open>
  So the registry the loop leaves is what processing certain keys makes of it, one by one, each in a
  round of its own. Among them is every key that was in the queue, and every key that was added to
  it before it was shut down, in a round that is not before the addition.
\<close>

definition process_in :: "('cfg, 'rest, 'k) clientcmd \<Rightarrow> (nat \<Rightarrow> round) \<Rightarrow> nat \<times> string
    \<Rightarrow> ('k, 'x) Controller \<Rightarrow> ('k, 'x) Controller" where
  "process_in K env = (\<lambda>(i, k) c. fst (processItem K (fst (snd (env i))) (snd (snd (env i))) k c))"

definition added_in :: "(nat \<Rightarrow> round) \<Rightarrow> nat \<Rightarrow> nat \<Rightarrow> string \<Rightarrow> bool" where
  "added_in env n i k \<longleftrightarrow> n \<le> i \<and> (\<forall>j \<in> {n..<i}. ShutDown \<notin> set (fst (env j)))
     \<and> (\<exists>us vs. fst (env i) = us @ Added k # vs \<and> ShutDown \<notin> set us)"

lemma worker_loop_handles:
  assumes "worker_loop K W env n s = Some t" "drains_when_shut_down W" "hands_out W keys"
  shows "\<exists>hs. sorted_wrt (<) (map fst hs) \<and> (\<forall>(i, k) \<in> set hs. n \<le> i)
           \<and> snd t = fold (process_in K env) hs (snd s)
           \<and> (\<forall>k \<in> keys (fst s). \<exists>j. (j, k) \<in> set hs)
           \<and> (\<not> wq_ShuttingDown W (fst s) \<longrightarrow>
                (\<forall>i k. added_in env n i k \<longrightarrow> (\<exists>j \<ge> i. (j, k) \<in> set hs)))"
  using assms
proof (induction rule: worker_loop_induct)
  case (round loop K W env n s t)
  obtain events ch GetByKey q c where *: "env n = (events, ch, GetByKey)" "s = (q, c)" by (metis prod.collapse)
  obtain ok q' c' where run: "worker_round K W (env n) s = (ok, q', c')"
    by (cases "worker_round K W (env n) s") auto
  let ?q1 = "fold (apply_event W) events q"
  have old: "keys q \<subseteq> keys ?q1" by (rule events_keep_keys [OF round(4)])
  have now: "k \<in> keys ?q1" if "added_in env n n k" "\<not> wq_ShuttingDown W q" for k
    using that events_add_keys [OF round(3,4) that(2)] by (auto simp: added_in_def *)
  have later: "\<not> wq_ShuttingDown W q' \<and> ok \<and> added_in env (Suc n) i k"
    if "added_in env n i k" "i \<noteq> n" "\<not> wq_ShuttingDown W q" for i k
  proof -
    have quiet: "ShutDown \<notin> set (fst (env n))" using that(1,2) by (auto simp: added_in_def)
    have "ok" "\<not> wq_ShuttingDown W q'"
      using worker_round_goes_on [OF round(3), of s "env n" K] worker_round_down [OF round(3), of K "env n" s]
        quiet that(3) run * by simp_all
    with that show ?thesis by (auto simp: added_in_def)
  qed
  show ?case
  proof (cases ok)
    case True
    have "loop K W env (Suc n) (q', c') = Some t" using round(2) True by (simp add: run)
    from round(1) [OF this round(3,4), unfolded fst_conv snd_conv] obtain hs where hs:
      "sorted_wrt (<) (map fst hs)" "\<forall>(i, k) \<in> set hs. Suc n \<le> i" "snd t = fold (process_in K env) hs c'"
      "\<forall>k \<in> keys q'. \<exists>j. (j, k) \<in> set hs"
      "\<not> wq_ShuttingDown W q' \<longrightarrow> (\<forall>i k. added_in env (Suc n) i k \<longrightarrow> (\<exists>j \<ge> i. (j, k) \<in> set hs))"
      by (elim exE conjE) (rule that)
    have known: "\<exists>j \<ge> n. (j, k') \<in> set hs" if left: "k' \<in> keys q'" for k'
    proof -
      obtain j where "(j, k') \<in> set hs" using bspec [OF hs(4) left] by (elim exE)
      moreover have "Suc n \<le> j" using bspec [OF hs(2) \<open>(j, k') \<in> set hs\<close>] by simp
      ultimately show ?thesis by (intro exI [of _ j]) simp
    qed
    have handled: ?thesis if hs': "sorted_wrt (<) (map fst hs')" "\<forall>(i, k) \<in> set hs'. n \<le> i"
        "c' = fold (process_in K env) (take (length hs' - length hs) hs') c"
        "drop (length hs' - length hs) hs' = hs" "set hs \<subseteq> set hs'"
        "\<And>k'. k' \<in> keys ?q1 \<Longrightarrow> \<exists>j \<ge> n. (j, k') \<in> set hs'" for hs'
    proof (intro exI [of _ hs'] conjI impI allI)
      have "fold (process_in K env) hs' c = fold (process_in K env) hs c'"
        using hs'(3,4) by (metis append_take_drop_id comp_apply fold_append)
      then show "snd t = fold (process_in K env) hs' (snd s)" using hs(3) * by simp
      show "\<forall>k \<in> keys (fst s). \<exists>j. (j, k) \<in> set hs'" using hs'(6) old * by auto
      fix i k assume "\<not> wq_ShuttingDown W (fst s)" and added: "added_in env n i k"
      then have open_queue: "\<not> wq_ShuttingDown W q" using * by simp
      show "\<exists>j \<ge> i. (j, k) \<in> set hs'"
      proof (cases "i = n")
        case True
        with hs'(6) [OF now] added open_queue show ?thesis by blast
      next
        case False
        with later [OF added False open_queue] hs(5) hs'(5) show ?thesis by blast
      qed
    qed (use hs' in auto)
    consider k where "c' = fst (processItem K ch GetByKey k c)" "keys ?q1 - {k} \<subseteq> keys q'"
      | "c' = c" "keys ?q1 \<subseteq> keys q'"
      using worker_round_handles [OF round(4) run [unfolded *]] by blast
    then show ?thesis
    proof cases
      case (1 k)
      show ?thesis
      proof (rule handled [of "(n, k) # hs"])
        show "\<exists>j \<ge> n. (j, k') \<in> set ((n, k) # hs)" if "k' \<in> keys ?q1" for k'
          using known [of k'] that 1(2) by (cases "k' = k") auto
        show "sorted_wrt (<) (map fst ((n, k) # hs))" using hs(1,2) by (auto simp: Suc_le_eq)
      qed (use hs(2) 1(1) * in \<open>auto simp: process_in_def\<close>)
    next
      case 2
      show ?thesis
        by (rule handled [of hs]) (use hs(1,2) 2 known in auto)
    qed
  next
    case False
    then have "t = (q', c')" using round(2) by (simp add: run)
    moreover have "c' = c" "keys ?q1 = {}"
      using worker_round_handles [OF round(4) run [unfolded *]] False by auto
    moreover have "\<not> added_in env n i k" if "\<not> wq_ShuttingDown W q" for i k
      using now later False calculation(3) that by (cases "i = n") auto
    ultimately show ?thesis using old * by (intro exI [of _ "[]"]) auto
  qed
qed

subsection \<open>Run\<close>

text \<open>
  \<open>Run\<close> waits for the cache (\<open>Syncing\<close>), then \<open>wait.Until\<close> looks at the stop channel
  (\<open>Between\<close>) and calls \<open>runWorker\<close> (\<open>Working\<close>), in turns. \<open>WaitForCacheSync\<close> gives up, and
  \<open>wait.Until\<close> returns, only when the channel is closed. Either way the deferred \<open>ShutDown\<close> runs
  when \<open>Run\<close> returns.
\<close>

datatype run_pc = Syncing | Between | Working | Returned

inductive run_step ::
    "('cfg, 'rest, 'k) clientcmd \<Rightarrow> 'q workqueue
       \<Rightarrow> run_pc \<times> bool \<times> 'q \<times> ('k, 'x) Controller \<Rightarrow> run_pc \<times> bool \<times> 'q \<times> ('k, 'x) Controller \<Rightarrow> bool"
  for K :: "('cfg, 'rest, 'k) clientcmd" and W :: "'q workqueue" where
  stop_closed: "run_step K W (pc, stop, q, c) (pc, True, q, c)"
| informer_added: "run_step K W (pc, stop, q, c) (pc, stop, wq_Add W q key, c)"
| synced: "run_step K W (Syncing, stop, q, c) (Between, stop, q, c)"
| not_synced: "run_step K W (Syncing, True, q, c) (Returned, True, wq_ShutDown W q, c)"
| started: "run_step K W (Between, False, q, c) (Working, False, q, c)"
| finished: "run_step K W (Between, True, q, c) (Returned, True, wq_ShutDown W q, c)"
| item: "\<not> blocked W q \<Longrightarrow> processNextItem K W ch GetByKey (q, c) = (True, q', c') \<Longrightarrow>
     run_step K W (Working, stop, q, c) (Working, stop, q', c')"
| quit: "\<not> blocked W q \<Longrightarrow> processNextItem K W ch GetByKey (q, c) = (False, q', c') \<Longrightarrow>
     run_step K W (Working, stop, q, c) (Between, stop, q', c')"

inductive_cases run_stepE: "run_step K W s t"

definition run_init ::
    "'q workqueue \<Rightarrow> ('k, 'x) Controller \<Rightarrow> run_pc \<times> bool \<times> 'q \<times> ('k, 'x) Controller \<Rightarrow> bool" where
  "run_init W c0 = (\<lambda>(pc, stop, q, c). pc = Syncing \<and> \<not> wq_ShuttingDown W q \<and> c = c0)"

text \<open>
  The queue is open until \<open>Run\<close> has returned and shut down then, which needs the stop channel to be
  closed, and until a worker starts nothing is processed.
\<close>

definition run_inv ::
    "'q workqueue \<Rightarrow> ('k, 'x) Controller \<Rightarrow> run_pc \<times> bool \<times> 'q \<times> ('k, 'x) Controller \<Rightarrow> bool" where
  "run_inv W c0 = (\<lambda>(pc, stop, q, c).
     (pc \<noteq> Returned \<longrightarrow> \<not> wq_ShuttingDown W q) \<and> (pc = Returned \<longrightarrow> stop \<and> wq_ShuttingDown W q)
     \<and> (pc \<noteq> Working \<longrightarrow> c = c0))"

lemma run_step_inv:
  assumes "drains_when_shut_down W" "run_step K W s t" "run_inv W c0 s"
  shows "run_inv W c0 t"
  using assms(2)
proof (cases rule: run_step.cases)
  case (item q ch GetByKey c q' c' stop)
  with assms(3) processNextItem_down [OF assms(1) item(4)] show ?thesis by (simp add: run_inv_def)
next
  case (quit q ch GetByKey c q' c' stop)
  with assms(3) have "wq_Len W q \<noteq> 0" by (simp add: run_inv_def blocked_def)
  with processNextItem_quits(1) [OF assms(1), of K ch GetByKey q c] quit(4) have False by simp
  then show ?thesis ..
qed (use assms(3) drains_when_shut_downD(6,7) [OF assms(1)] in \<open>auto simp: run_inv_def\<close>)

interpretation runs: inductive_invariant
  "\<lambda>s. drains_when_shut_down W \<and> run_init W c0 s" "run_step K W"
  "\<lambda>s. drains_when_shut_down W \<and> run_inv W c0 s"
  for W :: "'q workqueue" and c0 :: "('k, 'x) Controller" and K :: "('cfg, 'rest, 'k) clientcmd"
  by unfold_locales (fastforce simp: run_init_def run_inv_def, blast intro: run_step_inv)

text \<open>Nothing leaves \<open>Working\<close>: the loop waits for \<open>ShutDown\<close>, and \<open>ShutDown\<close> for the loop.\<close>

lemma working_forever:
  assumes "drains_when_shut_down W" "run_inv W c0 (Working, stop, q, c)"
    and "(run_step K W)\<^sup>*\<^sup>* (Working, stop, q, c) t"
  shows "fst t = Working \<and> run_inv W c0 t"
  using assms(3)
proof (induction rule: rtranclp_induct)
  case (step s t)
  have inv: "run_inv W c0 t" using run_step_inv [OF assms(1) step.hyps(2)] step.IH by blast
  from step.hyps(2) have "fst t = Working"
  proof (cases rule: run_step.cases)
    case (quit q ch GetByKey c q' c' stop)
    with step.IH have "wq_Len W q \<noteq> 0" by (simp add: run_inv_def blocked_def)
    with processNextItem_quits(1) [OF assms(1), of K ch GetByKey q c] quit(4) show ?thesis by simp
  qed (use step.IH in auto)
  with inv show ?case by blast
qed (use assms(2) in simp)

text \<open>\<open>Run\<close> returns only when it is stopped before the first worker starts.\<close>

lemma run_reachable_inv:
  assumes "drains_when_shut_down W" "reachable (run_init W c0) (run_step K W) s"
  shows "run_inv W c0 s"
proof -
  have "reachable (\<lambda>s. drains_when_shut_down W \<and> run_init W c0 s) (run_step K W) s"
    using assms(1) by (intro reachable_mono [OF assms(2)]) simp
  from runs.reachable_inv [OF this] show ?thesis ..
qed

end
