(* ===== verification/MetricLoop.thy ===== *)
theory MetricLoop
  imports Reconciler
begin

section \<open>The metric loop does not panic\<close>

text \<open>
  \<open>WatchMetric\<close> runs in a goroutine of its own, so a panic in it ends the process. The only maps
  it writes to are the \<open>Info\<close> map of \<open>ConsumeMetric\<close> and the stored \<open>Info\<close> of an object; both can
  be nil only by way of a group metric without a value, which replaces the map. The lemmas follow
  this through \<open>ConsumeMetric\<close>, \<open>Refresh\<close> and \<open>refresh\<close> to the whole loop of \<open>controllers/process.go\<close>.
\<close>

subsection \<open>Where no map is nil\<close>

definition values_present :: "codec \<Rightarrow> Metric \<Rightarrow> bool" where
  "values_present J metric \<longleftrightarrow> (\<forall>t rs meta r. map_get metric t = Some rs \<longrightarrow>
     Unmarshal_StaticMeta J t = Inr meta \<longrightarrow> r \<in> set rs \<longrightarrow>
     map_get (IsGroup meta) (Result_Name r) = Some True \<longrightarrow> Result_Value r \<noteq> None)"

definition infos_present :: "'m cmap \<Rightarrow> 'm \<Rightarrow> bool" where
  "infos_present M m \<longleftrightarrow>
     (\<forall>k ep. cmap_Get M m k = Some (EndpointsPtr ep) \<longrightarrow> Endpoints_Info ep \<noteq> None)"

text \<open>
  Every object the client returns has a complete spec, and what the service mapping holds for its
  host is a slice of subsets without a nil pointer, where it holds anything.
\<close>

definition sound_objects :: "framework \<Rightarrow> 'w client \<Rightarrow> bool" where
  "sound_objects fw C \<longleftrightarrow> (\<forall>w loc sl. Get_SmartLimiter C w loc = Inr sl \<longrightarrow>
     complete_spec (SL_Spec sl) \<and> (\<exists>sbs. host_sets fw C w (object_loc sl) = Inr (map Some sbs)))"

lemma NewReconciler_infos:
  assumes "concurrent_map M" "NewReconciler newClient M env = Inr (r, pc)"
  shows "infos_present M (metricInfo r)"
  using assms(2) concurrent_mapD(1) [OF assms(1)]
  by (auto simp: NewReconciler_def infos_present_def Let_def split: sum.splits)

lemma Reconcile_infos:
  assumes "concurrent_map M" "Reconcile fw M C req (r, w) = Inr (r', w', e)"
    and "infos_present M (metricInfo r)"
  shows "infos_present M (metricInfo r')"
  using Reconcile_metricInfo [OF assms(1,2)] assms(3) unfolding infos_present_def by blast

subsection \<open>One metric\<close>

lemma metric_info_total:
  assumes "fair ch"
    and "\<forall>r \<in> set rs. map_get (IsGroup meta) (Result_Name r) = Some True \<longrightarrow> Result_Value r \<noteq> None"
  shows "\<exists>m. metric_info ch meta rs = Inr (Some m)"
  using metric_info_gathered [OF assms(1), of meta rs] assms(2) by (simp add: groups_present_def)

lemma update_metricInfo_total:
  assumes "concurrent_map M" "fair ch" "infos_present M m"
  shows "\<exists>m'. update_metricInfo ch M nn (Some args) m = Inr m' \<and> infos_present M m'"
proof (cases "cmap_Get M m (request_key nn)")
  case None
  with assms(3) show ?thesis
    by (auto simp: update_metricInfo_def infos_present_def concurrent_mapD [OF assms(1)])
next
  case (Some v)
  show ?thesis
  proof (cases v)
    case (EndpointsPtr ep)
    with Some assms(3) obtain info where "Endpoints_Info ep = Some info"
      unfolding infos_present_def by blast
    with Some EndpointsPtr assms(3) show ?thesis
      by (auto simp: update_metricInfo_def infos_present_def concurrent_mapD [OF assms(1)]
          gfold_map_set_items [OF assms(2), of "Some args", simplified])
  qed (use Some assms(3) in \<open>simp add: update_metricInfo_def\<close>)
qed

lemma Refresh_total:
  assumes "fair ch" "converts_messages fw" "copies_maps fw" "concurrent_map M"
    and "sound_configmaps fw C" "sound_objects fw C" "infos_present M (metricInfo r)"
  shows "\<exists>r' w' e. Refresh fw M C ch nn (Some args) (r, w) = Inr (r', w', e)
           \<and> infos_present M (metricInfo r')"
proof -
  obtain m where m: "update_metricInfo (ch_left ch) M nn (Some args) (metricInfo r) = Inr m"
    "infos_present M m"
    using update_metricInfo_total [OF assms(4) fair_ch_left [OF assms(1)] assms(7)] by blast
  show ?thesis
  proof (cases "Get_SmartLimiter C w nn")
    case (Inl err)
    with m show ?thesis by (simp add: Refresh_def)
  next
    case (Inr sl)
    with assms(6) obtain sbs where "complete_spec (SL_Spec sl)" "host_sets fw C w (object_loc sl) = Inr (map Some sbs)"
      unfolding sound_objects_def by blast
    from refresh_total [OF fair_ch_right [OF assms(1)] assms(2,3) this(1) assms(5) this(2)]
    obtain w' e where "refresh fw M C (ch_right ch) (r\<lparr>metricInfo := m\<rparr>) sl w = Inr (w', e)" by blast
    with Inr m show ?thesis by (simp add: Refresh_def)
  qed
qed

lemma consume_items_total:
  assumes "converts_messages fw" "copies_maps fw" "concurrent_map M"
    and "sound_configmaps fw C" "sound_objects fw C"
    and "fair ch" "infos_present M (metricInfo r)"
    and "\<forall>(t, rs) \<in> set items. \<forall>meta. Unmarshal_StaticMeta J t = Inr meta \<longrightarrow>
           (\<forall>r \<in> set rs. map_get (IsGroup meta) (Result_Name r) = Some True \<longrightarrow> Result_Value r \<noteq> None)"
  shows "\<exists>r' w'. consume_items fw J M C ch items (r, w) = Inr (r', w') \<and> infos_present M (metricInfo r')"
  using assms(6-)
proof (induction items arbitrary: ch r w)
  case (Cons item items)
  obtain t rs where item: "item = (t, rs)" by (cases item)
  show ?case
  proof (cases "Unmarshal_StaticMeta J t")
    case (Inl err)
    with Cons.IH [of "ch_right ch" r w] Cons.prems item show ?thesis by simp
  next
    case (Inr meta)
    let ?loc = "\<lparr>NN_Namespace = Meta_Namespace meta, NN_Name = Meta_Name meta\<rparr>"
    obtain args where args: "metric_info (ch_left (ch_left ch)) meta rs = Inr (Some args)"
      using metric_info_total [of "ch_left (ch_left ch)" rs meta] Cons.prems item Inr by auto
    have "fair (ch_right (ch_left ch))" using Cons.prems(1) by simp
    from Refresh_total [OF this assms(1-5) Cons.prems(2), of ?loc args w] obtain r1 w1 e where
      run: "Refresh fw M C (ch_right (ch_left ch)) ?loc (Some args) (r, w) = Inr (r1, w1, e)"
      "infos_present M (metricInfo r1)" by blast
    obtain r2 w2 where "consume_items fw J M C (ch_right ch) items (r1, w1) = Inr (r2, w2)"
      "infos_present M (metricInfo r2)"
      using Cons.IH [OF _ run(2), of "ch_right ch" w1] Cons.prems by auto
    with item Inr args run show ?thesis by (simp add: Let_def)
  qed
qed simp

subsection \<open>The loop\<close>

lemma ConsumeMetric_total:
  assumes "converts_messages fw" "copies_maps fw" "concurrent_map M"
    and "sound_configmaps fw C" "sound_objects fw C"
    and "fair ch" "infos_present M (metricInfo r)" "values_present J metric"
  shows "\<exists>r' w'. ConsumeMetric fw J M C ch metric (r, w) = Inr (r', w') \<and> infos_present M (metricInfo r')"
proof -
  have "\<forall>(t, rs) \<in> set (go_range (ch_left ch) (map_items metric)). \<forall>meta.
      Unmarshal_StaticMeta J t = Inr meta \<longrightarrow>
      (\<forall>r \<in> set rs. map_get (IsGroup meta) (Result_Name r) = Some True \<longrightarrow> Result_Value r \<noteq> None)"
    using assms(8) fair_ch_left [OF assms(6)] by (auto simp: values_present_def)
  from consume_items_total [OF assms(1-5) fair_ch_right [OF assms(6)] assms(7) this]
  show ?thesis by (simp add: ConsumeMetric_def)
qed

lemma WatchMetric_total:
  assumes "converts_messages fw" "copies_maps fw" "concurrent_map M"
    and "sound_configmaps fw C" "sound_objects fw C"
    and "fair ch" "infos_present M (metricInfo r)"
    and "\<forall>c m. Received c m \<in> set events \<longrightarrow> values_present J m"
  shows "\<exists>r' w'. WatchMetric fw J M C ch events (r, w) = Inr (r', w') \<and> infos_present M (metricInfo r')"
  using assms(6-)
proof (induction events arbitrary: ch r w)
  case (Cons event events)
  show ?case
  proof (cases event)
    case (Received c m)
    with Cons.prems(3) have "values_present J m" by simp
    from ConsumeMetric_total [OF assms(1-5) fair_ch_left [OF Cons.prems(1)] Cons.prems(2) this]
    obtain r1 w1 where run: "ConsumeMetric fw J M C (ch_left ch) m (r, w) = Inr (r1, w1)"
      "infos_present M (metricInfo r1)" by blast
    with Cons.IH [OF fair_ch_right [OF Cons.prems(1)] run(2), of w1] Cons.prems(3) Received
    show ?thesis by auto
  qed (use Cons.prems in simp)
qed simp

text \<open>
  A group metric without a value that finds no pods stores a nil map. The next metric of the
  object that has anything to say ends the process.
\<close>

lemma Refresh_after_nil:
  assumes "concurrent_map M" "fair ch'" "cmap_Get M (metricInfo r) (request_key nn) = None"
    and "Refresh fw M C ch nn None (r, w) = Inr (r', w', e)" "args \<noteq> fmempty"
  shows "Refresh fw M C ch' nn (Some args) (r', w'') = Inl NilMapWrite"
proof -
  have "info_at M (metricInfo r') nn = Some None"
    using assms(3,4) Refresh_Inr [OF assms(4)]
    by (auto simp: update_metricInfo_def info_at_def concurrent_mapD [OF assms(1)])
  from update_metricInfo_nil [OF fair_ch_left [OF assms(2)] this, of "Some args"] assms(5)
  show ?thesis by (simp add: Refresh_def)
qed

end
