(* ===== verification/Handlers.thy ===== *)
theory Handlers
  imports MetricLoop
begin

section \<open>Handlers that overlap\<close>

text \<open>
  \<open>Reconcile\<close> of \<open>controllers/smartlimiter_controller.go\<close> and \<open>Refresh\<close> of \<open>controllers/process.go\<close>
  run in goroutines of their own and share \<open>metricInfo\<close>, \<open>interest\<close> and \<open>lastUpdatePolicy\<close>. Here a
  step is one operation on one of them, so that handlers overlap in every way their code allows.
  \<open>metricInfo\<close> holds pointers: a goroutine that has looked an entry up writes to that entry even
  if another one has removed it from the map meanwhile, so entries have addresses. What the
  handlers do with the API server is in \<open>Process\<close> and \<open>Concurrent\<close>.
\<close>

subsection \<open>The shared state and the steps of the handlers\<close>

record shared =
  sh_info :: "(string, nat) fmap"
  sh_heap :: "nat \<Rightarrow> Endpoints"
  sh_next :: nat \<comment> \<open>the first address not in use\<close>
  sh_interest :: "string fset"
  sh_policy :: SmartLimiterSpec

text \<open>What a goroutine does next: the operations of \<open>Refresh\<close>, and those of \<open>Reconcile\<close>.\<close>

datatype activity =
    LookUp NamespacedName "string gomap"
  | StoreEntry NamespacedName "string gomap"
  | LookUpAgain NamespacedName "string gomap"
  | MergeInto nat NamespacedName "string gomap"
  | PopInfo NamespacedName
  | PopInterest NamespacedName
  | ClearPolicy
  | ComparePolicy NamespacedName SmartLimiterSpec
  | SetPolicy NamespacedName SmartLimiterSpec
  | SetInterest NamespacedName

fun activity_step :: "chooser \<Rightarrow> activity \<Rightarrow> shared \<Rightarrow> (shared \<times> activity option) go" where
  "activity_step ch (LookUp nn args) sh =
     (case fmlookup (sh_info sh) (request_key nn) of
        None \<Rightarrow> Inr (sh, Some (StoreEntry nn args))
      | Some a \<Rightarrow> Inr (sh, Some (LookUpAgain nn args)))"
| "activity_step ch (StoreEntry nn args) sh =
     Inr (sh\<lparr>sh_info := fmupd (request_key nn) (sh_next sh) (sh_info sh),
             sh_heap := (sh_heap sh)(sh_next sh := \<lparr>Endpoints_Location = nn, Endpoints_Info = args\<rparr>),
             sh_next := Suc (sh_next sh)\<rparr>, None)"
| "activity_step ch (LookUpAgain nn args) sh =
     (case fmlookup (sh_info sh) (request_key nn) of
        None \<Rightarrow> Inr (sh, None)
      | Some a \<Rightarrow> Inr (sh, Some (MergeInto a nn args)))"
| "activity_step ch (MergeInto a nn args) sh =
     gbind (gfold (\<lambda>(key, value). map_set key value) (go_range ch (map_items args))
              (Endpoints_Info (sh_heap sh a))) (\<lambda>info.
       Inr (sh\<lparr>sh_heap := (sh_heap sh)(a := (sh_heap sh a)\<lparr>Endpoints_Info := info\<rparr>)\<rparr>, None))"
| "activity_step ch (PopInfo nn) sh =
     Inr (sh\<lparr>sh_info := fmdrop (request_key nn) (sh_info sh)\<rparr>, Some (PopInterest nn))"
| "activity_step ch (PopInterest nn) sh =
     Inr (sh\<lparr>sh_interest := sh_interest sh |-| {|request_key nn|}\<rparr>, Some ClearPolicy)"
| "activity_step ch ClearPolicy sh = Inr (sh\<lparr>sh_policy := empty_spec\<rparr>, None)"
| "activity_step ch (ComparePolicy nn spec) sh =
     Inr (sh, if spec = sh_policy sh then None else Some (SetPolicy nn spec))"
| "activity_step ch (SetPolicy nn spec) sh = Inr (sh\<lparr>sh_policy := spec\<rparr>, Some (SetInterest nn))"
| "activity_step ch (SetInterest nn) sh =
     Inr (sh\<lparr>sh_interest := finsert (request_key nn) (sh_interest sh)\<rparr>, None)"

text \<open>
  Any number of goroutines, named by \<open>'i\<close>; the list has the metrics that have been handed to
  \<open>Refresh\<close> so far.
\<close>

inductive handler_step ::
    "shared \<times> ('i \<Rightarrow> activity option) \<times> (NamespacedName \<times> string gomap) list
       \<Rightarrow> shared \<times> ('i \<Rightarrow> activity option) \<times> (NamespacedName \<times> string gomap) list \<Rightarrow> bool" where
  metric_arrives: "doing i = None \<Longrightarrow>
     handler_step (sh, doing, sent) (sh, doing(i \<mapsto> LookUp nn args), sent @ [(nn, args)])"
| object_gone: "doing i = None \<Longrightarrow>
     handler_step (sh, doing, sent) (sh, doing(i \<mapsto> PopInfo nn), sent)"
| object_changed: "doing i = None \<Longrightarrow>
     handler_step (sh, doing, sent) (sh, doing(i \<mapsto> ComparePolicy nn spec), sent)"
| proceeds: "doing i = Some act \<Longrightarrow> fair ch \<Longrightarrow> activity_step ch act sh = Inr (sh', next) \<Longrightarrow>
     handler_step (sh, doing, sent) (sh', doing(i := next), sent)"

inductive_cases handler_stepE: "handler_step s t"

definition handler_init ::
    "shared \<times> ('i \<Rightarrow> activity option) \<times> (NamespacedName \<times> string gomap) list \<Rightarrow> bool" where
  "handler_init = (\<lambda>(sh, doing, sent). sh_info sh = fmempty \<and> sh_next sh = 0 \<and> sh_interest sh = {||}
     \<and> sh_policy sh = empty_spec \<and> doing = (\<lambda>_. None) \<and> sent = [])"

subsection \<open>The invariant\<close>

definition entry_key :: "shared \<Rightarrow> nat \<Rightarrow> string" where
  "entry_key sh a = request_key (Endpoints_Location (sh_heap sh a))"

text \<open>A value was sent for the object with this key.\<close>

definition was_sent :: "(NamespacedName \<times> string gomap) list \<Rightarrow> string \<Rightarrow> string \<Rightarrow> string \<Rightarrow> bool" where
  "was_sent sent key k v \<longleftrightarrow>
     (\<exists>(nn, args) \<in> set sent. request_key nn = key \<and> map_get args k = Some v)"

definition info_ok :: "(NamespacedName \<times> string gomap) list \<Rightarrow> string \<Rightarrow> string gomap \<Rightarrow> bool" where
  "info_ok sent key info \<longleftrightarrow>
     ((\<forall>(nn, args) \<in> set sent. args \<noteq> None) \<longrightarrow> info \<noteq> None)
   \<and> (\<forall>k v. map_get info k = Some v \<longrightarrow> was_sent sent key k v)"

definition shared_inv :: "(NamespacedName \<times> string gomap) list \<Rightarrow> shared \<Rightarrow> bool" where
  "shared_inv sent sh \<longleftrightarrow>
     (\<forall>key a. fmlookup (sh_info sh) key = Some a \<longrightarrow> a < sh_next sh \<and> entry_key sh a = key)
   \<and> (\<forall>a < sh_next sh. info_ok sent (entry_key sh a) (Endpoints_Info (sh_heap sh a)))
   \<and> (\<forall>key. key |\<in>| sh_interest sh \<longrightarrow> (\<exists>nn. key = request_key nn))"

fun activity_ok :: "(NamespacedName \<times> string gomap) list \<Rightarrow> shared \<Rightarrow> activity \<Rightarrow> bool" where
  "activity_ok sent sh (LookUp nn args) \<longleftrightarrow> (nn, args) \<in> set sent"
| "activity_ok sent sh (StoreEntry nn args) \<longleftrightarrow> (nn, args) \<in> set sent"
| "activity_ok sent sh (LookUpAgain nn args) \<longleftrightarrow> (nn, args) \<in> set sent"
| "activity_ok sent sh (MergeInto a nn args) \<longleftrightarrow>
     (nn, args) \<in> set sent \<and> a < sh_next sh \<and> entry_key sh a = request_key nn"
| "activity_ok sent sh _ \<longleftrightarrow> True"

definition handler_inv ::
    "shared \<times> ('i \<Rightarrow> activity option) \<times> (NamespacedName \<times> string gomap) list \<Rightarrow> bool" where
  "handler_inv = (\<lambda>(sh, doing, sent). shared_inv sent sh
     \<and> (\<forall>i act. doing i = Some act \<longrightarrow> activity_ok sent sh act))"

lemma was_sent_append: "was_sent sent key k v \<Longrightarrow> was_sent (sent @ later) key k v"
  by (auto simp: was_sent_def)

lemma info_ok_append: "info_ok sent key info \<Longrightarrow> info_ok (sent @ later) key info"
  by (auto simp: info_ok_def was_sent_append)

lemma activity_ok_append: "activity_ok sent sh act \<Longrightarrow> activity_ok (sent @ later) sh act"
  by (cases act) auto

text \<open>The addresses in use and their objects stay: an activity is not disturbed by the others.\<close>

lemma activity_step_frame:
  assumes "activity_step ch act sh = Inr (sh', next)"
  shows "sh_next sh \<le> sh_next sh'" "a < sh_next sh \<Longrightarrow> entry_key sh' a = entry_key sh a"
  using assms by (cases act; auto simp: entry_key_def split: option.splits)+

lemma activity_ok_frame:
  assumes "activity_step ch act sh = Inr (sh', next)" "activity_ok sent sh other"
  shows "activity_ok sent sh' other"
  using assms(2) activity_step_frame [OF assms(1)] by (cases other) (auto intro: less_le_trans)

lemma info_ok_merge:
  assumes "info_ok sent key info" "(nn, args) \<in> set sent" "request_key nn = key" "fair ch"
    and "gfold (\<lambda>(k, v). map_set k v) (go_range ch (map_items args)) info = Inr info'"
  shows "info_ok sent key info'"
proof (cases info)
  case None
  then have "info' = info"
    using assms(5) by (cases "go_range ch (map_items args)") auto
  with assms(1) show ?thesis by simp
next
  case (Some m)
  then have "info' = Some (m ++\<^sub>f map_items args)"
    using assms(5) by (simp add: gfold_map_set_items [OF assms(4)])
  with assms(1-3) Some show ?thesis
    by (fastforce simp: info_ok_def was_sent_def fmlookup_dom_iff split: if_splits)
qed

lemma activity_step_inv:
  assumes "shared_inv sent sh" "activity_ok sent sh act" "fair ch"
    and "activity_step ch act sh = Inr (sh', next)"
  shows "shared_inv sent sh'" "\<And>act'. next = Some act' \<Longrightarrow> activity_ok sent sh' act'"
proof -
  show "shared_inv sent sh'"
  proof (cases act)
    case (StoreEntry nn args)
    have "info_ok sent (request_key nn) args"
      using assms(2) StoreEntry by (auto simp: info_ok_def was_sent_def)
    moreover have "fmlookup (sh_info sh) key \<noteq> Some (sh_next sh)" for key
      using assms(1) by (auto simp: shared_inv_def)
    ultimately show ?thesis
      using assms(1,4) StoreEntry
      by (auto simp: shared_inv_def entry_key_def less_Suc_eq split: if_splits)
  next
    case (MergeInto a nn args)
    obtain info where info: "gfold (\<lambda>(k, v). map_set k v) (go_range ch (map_items args))
        (Endpoints_Info (sh_heap sh a)) = Inr info"
      and sh': "sh' = sh\<lparr>sh_heap := (sh_heap sh)(a := (sh_heap sh a)\<lparr>Endpoints_Info := info\<rparr>)\<rparr>"
      using assms(4) MergeInto by auto
    have "info_ok sent (entry_key sh a) info"
      using assms(1,2) MergeInto
      by (intro info_ok_merge [OF _ _ _ assms(3) info]) (auto simp: shared_inv_def)
    with assms(1) show ?thesis
      by (auto simp: sh' shared_inv_def entry_key_def split: if_splits)
  qed (use assms(1,4) in \<open>auto simp: shared_inv_def entry_key_def split: option.splits if_splits\<close>)
  show "activity_ok sent sh' act'" if "next = Some act'" for act'
    using assms(1,2,4) that by (cases act) (auto simp: shared_inv_def split: option.splits if_splits)
qed

lemma handler_step_inv:
  assumes "handler_step s t" "handler_inv s"
  shows "handler_inv t"
  using assms(1)
proof (cases rule: handler_step.cases)
  case (metric_arrives doing i sh sent nn args)
  with assms(2) show ?thesis
    by (auto simp: handler_inv_def shared_inv_def intro: info_ok_append activity_ok_append)
next
  case (proceeds doing i act ch sh sh' "next" sent)
  have inv: "shared_inv sent sh" "\<And>i act. doing i = Some act \<Longrightarrow> activity_ok sent sh act"
    using assms(2) unfolding proceeds(1) handler_inv_def by auto
  note this_step = activity_step_inv [OF inv(1) inv(2) [OF proceeds(3)] proceeds(4,5)]
  have "activity_ok sent sh' other" if "(doing(i := next)) j = Some other" for j other
    using that this_step(2) activity_ok_frame [OF proceeds(5)] inv(2) by (auto split: if_splits)
  with this_step(1) show ?thesis unfolding proceeds(2) handler_inv_def by blast
qed (use assms(2) in \<open>auto simp: handler_inv_def\<close>)

lemma handler_init_inv: "handler_init s \<Longrightarrow> handler_inv s"
  by (auto simp: handler_init_def handler_inv_def shared_inv_def)

interpretation handlers: inductive_invariant handler_init handler_step handler_inv
  by unfold_locales (erule handler_init_inv, erule (1) handler_step_inv [rotated])

text \<open>
  No operation panics, in any interleaving, as long as no metric is nil; and what is stored for
  an object was sent for it.
\<close>

lemma activity_total:
  assumes "handler_inv (sh, doing, sent)" "doing i = Some act" "fair ch"
    and "\<forall>(nn, args) \<in> set sent. args \<noteq> None"
  shows "\<exists>next. activity_step ch act sh = Inr next"
proof (cases act)
  case (MergeInto a nn args)
  then have "a < sh_next sh" using assms(1,2) by (fastforce simp: handler_inv_def)
  with assms(1,4) have "Endpoints_Info (sh_heap sh a) \<noteq> None"
    unfolding handler_inv_def shared_inv_def info_ok_def by simp
  then obtain m where "Endpoints_Info (sh_heap sh a) = Some m" by blast
  with MergeInto show ?thesis by (simp add: gfold_map_set_items [OF assms(3)])
qed (auto split: option.split)

subsection \<open>A handler that is not interrupted\<close>

text \<open>
  Without interruption the steps amount to the \<open>update_metricInfo\<close> and the \<open>Reconcile\<close> of the other
  theories: the maps of the reconciler are what the pointers lead to.
\<close>

definition represents :: "'m cmap \<Rightarrow> 'm SmartLimiterReconciler \<Rightarrow> shared \<Rightarrow> bool" where
  "represents M r sh \<longleftrightarrow>
     (\<forall>k. cmap_Get M (metricInfo r) k
        = map_option (\<lambda>a. EndpointsPtr (sh_heap sh a)) (fmlookup (sh_info sh) k))
   \<and> (\<forall>k. cmap_Get M (interest r) k = (if k |\<in>| sh_interest sh then Some EmptyStruct else None))
   \<and> lastUpdatePolicy r = sh_policy sh"

inductive activity_run :: "chooser \<Rightarrow> activity \<Rightarrow> shared \<Rightarrow> shared \<Rightarrow> bool" for ch :: chooser where
  ended: "activity_step ch act sh = Inr (sh', None) \<Longrightarrow> activity_run ch act sh sh'"
| continued: "activity_step ch act sh = Inr (sh1, Some act') \<Longrightarrow> activity_run ch act' sh1 sh' \<Longrightarrow>
     activity_run ch act sh sh'"

lemma activity_run_steps:
  assumes "activity_run ch act sh sh'" "fair ch"
  shows "handler_step\<^sup>*\<^sup>* (sh, doing(i \<mapsto> act), sent) (sh', doing(i := None), sent)"
  using assms(1)
proof (induction arbitrary: doing rule: activity_run.induct)
  case (ended act sh sh')
  from handler_step.proceeds [of "doing(i \<mapsto> act)" i act, OF _ assms(2) ended]
  have "handler_step (sh, doing(i \<mapsto> act), sent) (sh', doing(i := None), sent)" by simp
  then show ?case by (rule r_into_rtranclp)
next
  case (continued act sh sh1 act' sh')
  from handler_step.proceeds [of "doing(i \<mapsto> act)" i act, OF _ assms(2) continued.hyps(1)]
  have "handler_step (sh, doing(i \<mapsto> act), sent) (sh1, doing(i \<mapsto> act'), sent)" by simp
  with continued.IH [of doing] show ?case by (meson converse_rtranclp_into_rtranclp)
qed

lemma update_metricInfo_run:
  assumes "concurrent_map M" "shared_inv sent sh" "represents M r sh"
    and "update_metricInfo ch M nn args (metricInfo r) = Inr m"
  shows "\<exists>sh'. activity_run ch (LookUp nn args) sh sh' \<and> represents M (r\<lparr>metricInfo := m\<rparr>) sh'"
proof (cases "fmlookup (sh_info sh) (request_key nn)")
  case None
  have fresh: "fmlookup (sh_info sh) key \<noteq> Some (sh_next sh)" for key
    using assms(2) by (auto simp: shared_inv_def)
  have m: "m = cmap_Set M (metricInfo r) (request_key nn)
      (EndpointsPtr \<lparr>Endpoints_Location = nn, Endpoints_Info = args\<rparr>)"
    using assms(3,4) None by (simp add: update_metricInfo_def represents_def)
  let ?ep = "\<lparr>Endpoints_Location = nn, Endpoints_Info = args\<rparr>"
  let ?sh = "sh\<lparr>sh_info := fmupd (request_key nn) (sh_next sh) (sh_info sh),
    sh_heap := (sh_heap sh)(sh_next sh := ?ep), sh_next := Suc (sh_next sh)\<rparr>"
  have "activity_run ch (StoreEntry nn args) sh ?sh" by (rule activity_run.ended) simp
  then have "activity_run ch (LookUp nn args) sh ?sh"
    using None by (intro activity_run.continued [of ch "LookUp nn args" sh sh "StoreEntry nn args"]) simp_all
  moreover have "represents M (r\<lparr>metricInfo := m\<rparr>) ?sh"
    using assms(3) fresh m by (auto simp: represents_def concurrent_mapD [OF assms(1)] intro!: option.map_cong)
  ultimately show ?thesis by blast
next
  case (Some a)
  let ?ep = "sh_heap sh a"
  obtain info where info: "gfold (\<lambda>(k, v). map_set k v) (go_range ch (map_items args)) (Endpoints_Info ?ep) = Inr info"
    and m: "m = cmap_Set M (metricInfo r) (request_key nn) (EndpointsPtr (?ep\<lparr>Endpoints_Info := info\<rparr>))"
    using assms(3,4) Some by (auto simp: update_metricInfo_def represents_def)
  let ?sh = "sh\<lparr>sh_heap := (sh_heap sh)(a := ?ep\<lparr>Endpoints_Info := info\<rparr>)\<rparr>"
  have "activity_run ch (MergeInto a nn args) sh ?sh"
    using info by (intro activity_run.ended) simp
  then have "activity_run ch (LookUp nn args) sh ?sh"
    using Some by (intro activity_run.continued [of ch "LookUp nn args" sh sh "LookUpAgain nn args"]
        activity_run.continued [of ch "LookUpAgain nn args" sh sh "MergeInto a nn args"]) simp_all
  moreover have "k \<noteq> request_key nn \<Longrightarrow> fmlookup (sh_info sh) k \<noteq> Some a" for k
    using assms(2) Some unfolding shared_inv_def by metis
  with assms(3) Some have "represents M (r\<lparr>metricInfo := m\<rparr>) ?sh"
    by (auto simp: represents_def m concurrent_mapD [OF assms(1)] intro!: option.map_cong)
  ultimately show ?thesis by blast
qed

lemma Refresh_refines:
  assumes "concurrent_map M" "fair ch" "handler_inv (sh, doing, sent)" "represents M r sh"
    and "doing i = None" "update_metricInfo ch M nn args (metricInfo r) = Inr m"
  shows "\<exists>sh'. handler_step\<^sup>*\<^sup>* (sh, doing, sent) (sh', doing, sent @ [(nn, args)])
           \<and> represents M (r\<lparr>metricInfo := m\<rparr>) sh'"
proof -
  have "shared_inv sent sh" using assms(3) by (simp add: handler_inv_def)
  from update_metricInfo_run [OF assms(1) this assms(4,6)] obtain sh' where
    run: "activity_run ch (LookUp nn args) sh sh'" "represents M (r\<lparr>metricInfo := m\<rparr>) sh'" by blast
  have undo: "doing(i := None) = doing" using assms(5) by auto
  from converse_rtranclp_into_rtranclp [OF handler_step.metric_arrives [of doing i sh sent nn args]
      activity_run_steps [OF run(1) assms(2)]] assms(5)
  have "handler_step\<^sup>*\<^sup>* (sh, doing, sent) (sh', doing, sent @ [(nn, args)])" unfolding undo by blast
  with run(2) show ?thesis by blast
qed

lemma deletion_run:
  "activity_run ch (PopInfo nn) sh (sh\<lparr>sh_info := fmdrop (request_key nn) (sh_info sh),
     sh_interest := sh_interest sh |-| {|request_key nn|}, sh_policy := empty_spec\<rparr>)"
proof -
  let ?sh1 = "sh\<lparr>sh_info := fmdrop (request_key nn) (sh_info sh)\<rparr>"
  let ?sh2 = "?sh1\<lparr>sh_interest := sh_interest sh |-| {|request_key nn|}\<rparr>"
  have "activity_run ch ClearPolicy ?sh2 (?sh2\<lparr>sh_policy := empty_spec\<rparr>)"
    by (rule activity_run.ended) simp
  then have "activity_run ch (PopInterest nn) ?sh1 (?sh2\<lparr>sh_policy := empty_spec\<rparr>)"
    by (rule activity_run.continued [rotated]) simp
  then show ?thesis by (rule activity_run.continued [rotated]) simp
qed

lemma change_run:
  assumes "spec \<noteq> sh_policy sh"
  shows "activity_run ch (ComparePolicy nn spec) sh
           (sh\<lparr>sh_policy := spec, sh_interest := finsert (request_key nn) (sh_interest sh)\<rparr>)"
proof -
  let ?sh1 = "sh\<lparr>sh_policy := spec\<rparr>"
  have "activity_run ch (SetInterest nn) ?sh1 (?sh1\<lparr>sh_interest := finsert (request_key nn) (sh_interest sh)\<rparr>)"
    by (rule activity_run.ended) simp
  then have "activity_run ch (SetPolicy nn spec) sh
      (?sh1\<lparr>sh_interest := finsert (request_key nn) (sh_interest sh)\<rparr>)"
    by (rule activity_run.continued [rotated]) simp
  then show ?thesis by (rule activity_run.continued [rotated]) (simp add: assms)
qed

lemma Reconcile_refines:
  assumes "concurrent_map M" "represents M r sh" "doing i = None"
    and "Reconcile fw M C req (r, w) = Inr (r', w', e)"
  shows "\<exists>sh'. handler_step\<^sup>*\<^sup>* (sh, doing, sent) (sh', doing, sent) \<and> represents M r' sh'"
proof -
  have undo: "doing(i := None) = doing" using assms(3) by auto
  have start: "handler_step\<^sup>*\<^sup>* (sh, doing, sent) (sh', doing, sent)"
    if "activity_run ascending act sh sh'" "act = PopInfo req \<or> act = ComparePolicy req spec" for act sh' spec
  proof -
    have "handler_step (sh, doing, sent) (sh, doing(i \<mapsto> act), sent)"
      using that(2) handler_step.object_gone [of doing i sh sent req]
        handler_step.object_changed [of doing i sh sent req spec] assms(3) by blast
    from converse_rtranclp_into_rtranclp [OF this activity_run_steps [OF that(1) fair_ascending]]
    show ?thesis unfolding undo .
  qed
  have known: "lastUpdatePolicy r = sh_policy sh" using assms(2) by (simp add: represents_def)
  show ?thesis
  proof (cases "Get_SmartLimiter C w req")
    case (Inl err)
    show ?thesis
    proof (cases "IsNotFound err")
      case True
      let ?sh = "sh\<lparr>sh_info := fmdrop (request_key req) (sh_info sh),
        sh_interest := sh_interest sh |-| {|request_key req|}, sh_policy := empty_spec\<rparr>"
      have "handler_step\<^sup>*\<^sup>* (sh, doing, sent) (?sh, doing, sent)"
        by (rule start [OF deletion_run]) simp
      moreover have "represents M r' ?sh"
        using assms(2) Reconcile_deleted(2-4) [OF Inl True assms(4)]
        by (simp add: represents_def concurrent_mapD [OF assms(1)])
      ultimately show ?thesis by blast
    next
      case False
      then have "r' = r" using assms(4) Inl by (simp add: Reconcile_error)
      with assms(2) show ?thesis by blast
    qed
  next
    case (Inr sl)
    let ?spec = "SL_Spec sl"
    let ?new = "r\<lparr>lastUpdatePolicy := ?spec, interest := cmap_Set M (interest r) (request_key req) EmptyStruct\<rparr>"
    let ?skipped = "?spec = lastUpdatePolicy r \<or> \<not> Env_RevInScope (r_env r) (IstioRevFromLabel fw (SL_Labels sl))"
    have result: "r' = (if ?skipped then r else ?new)"
      using assms(4) by (simp add: Reconcile_def Inr split: if_splits)
    show ?thesis
    proof (cases ?skipped)
      case True
      with result have "r' = r" by simp
      with assms(2) show ?thesis by blast
    next
      case False
      let ?sh = "sh\<lparr>sh_policy := ?spec, sh_interest := finsert (request_key req) (sh_interest sh)\<rparr>"
      have "?spec \<noteq> sh_policy sh" using False known by simp
      then have "handler_step\<^sup>*\<^sup>* (sh, doing, sent) (?sh, doing, sent)"
        by (rule start [OF change_run]) (rule disjI2, rule refl)
      moreover have "r' = ?new" using result False by simp
      with assms(2) have "represents M r' ?sh"
        by (simp add: represents_def concurrent_mapD [OF assms(1)])
      ultimately show ?thesis by blast
    qed
  qed
qed

end
