(* ===== verification/Module.thy ===== *)
theory Module
  imports Reconciler
begin

section \<open>The module of the slime framework: \<open>module/module.go\<close>\<close>

text \<open>
  The framework calls \<open>InitScheme\<close> and then \<open>InitManager\<close>. Registering types with a scheme and
  controllers with a manager are calls to libraries, functions on their states here: they may
  report an error, which ends the loop of \<open>InitScheme\<close>, and the process in \<open>InitManager\<close>.
\<close>

definition ModuleName :: string where "ModuleName = ''limiter''"

fun add_to_scheme :: "('s \<Rightarrow> 's \<times> goerror option) list \<Rightarrow> 's \<Rightarrow> 's \<times> goerror option" where
  "add_to_scheme [] scheme = (scheme, None)"
| "add_to_scheme (f # fs) scheme =
     (case f scheme of
        (scheme', Some err) \<Rightarrow> (scheme', Some err)
      | (scheme', None) \<Rightarrow> add_to_scheme fs scheme')"

definition InitScheme ::
    "('s \<Rightarrow> 's \<times> goerror option) \<Rightarrow> ('s \<Rightarrow> 's \<times> goerror option) \<Rightarrow> ('s \<Rightarrow> 's \<times> goerror option)
       \<Rightarrow> 's \<Rightarrow> 's \<times> goerror option" where
  "InitScheme clientgoscheme_AddToScheme microservice_AddToScheme istioapi_AddToScheme =
     add_to_scheme [clientgoscheme_AddToScheme, microservice_AddToScheme, istioapi_AddToScheme]"

datatype 'r started = Exited int | Started 'r

definition InitManager ::
    "(string \<Rightarrow> goerror + 'api) \<Rightarrow> 'm cmap
       \<Rightarrow> ('m SmartLimiterReconciler \<Rightarrow> 'g \<Rightarrow> 'g \<times> goerror option)
       \<Rightarrow> (Environment \<Rightarrow> 'g \<Rightarrow> 'g \<times> goerror option)
       \<Rightarrow> Environment \<Rightarrow> 'g \<Rightarrow> 'g \<times> 'm SmartLimiterReconciler started" where
  "InitManager newClient M setupLimiter setupDestinationRule env mgr =
     (case NewReconciler newClient M env of
        Inl err \<Rightarrow> (mgr, Exited 1)
      | Inr (reconciler, pc) \<Rightarrow>
          (case setupLimiter reconciler mgr of
             (mgr1, Some err) \<Rightarrow> (mgr1, Exited 1)
           | (mgr1, None) \<Rightarrow>
               (case setupDestinationRule env mgr1 of
                  (mgr2, Some err) \<Rightarrow> (mgr2, Exited 1)
                | (mgr2, None) \<Rightarrow> (mgr2, Started reconciler))))"

subsection \<open>What starting achieves\<close>

text \<open>The first function that fails is the last one called.\<close>

lemma add_to_scheme_error:
  assumes "add_to_scheme fs s = (s', Some err)"
  shows "\<exists>before f rest s1. fs = before @ f # rest \<and> add_to_scheme before s = (s1, None) \<and> f s1 = (s', Some err)"
  using assms
proof (induction fs arbitrary: s)
  case (Cons g fs)
  show ?case
  proof (cases "g s")
    case (Pair s1 e)
    show ?thesis
    proof (cases e)
      case None
      with Cons.prems Pair have "add_to_scheme fs s1 = (s', Some err)" by simp
      from Cons.IH [OF this] obtain before f rest s2 where
        "fs = before @ f # rest" "add_to_scheme before s1 = (s2, None)" "f s2 = (s', Some err)" by blast
      with Pair None show ?thesis by (intro exI [of _ "g # before"]) auto
    next
      case (Some err')
      with Cons.prems Pair show ?thesis by (intro exI [of _ "[]"]) auto
    qed
  qed
qed simp

text \<open>A module that has started runs a reconciler in an initial state of \<open>limiter_step\<close>.\<close>

lemma InitManager_init:
  assumes "InitManager newClient M setupLimiter setupDestinationRule env mgr = (mgr', Started r)"
  shows "limiter_init newClient M env (r, w)"
  using assms
  by (auto simp: InitManager_def limiter_init_def split: sum.splits prod.splits option.splits)

text \<open>It starts when neither the Prometheus client nor a registration fails.\<close>

lemma InitManager_starts:
  assumes "NewReconciler newClient M env = Inr (r, pc)"
    and "\<And>r g. snd (setupLimiter r g) = None" "\<And>e g. snd (setupDestinationRule e g) = None"
  shows "\<exists>mgr'. InitManager newClient M setupLimiter setupDestinationRule env mgr = (mgr', Started r)"
  using assms by (auto simp: InitManager_def split: prod.split option.split) (metis option.distinct(1) snd_conv)+

end
