(* ===== verification/Registration.thy ===== *)
theory Registration
  imports Module DeepCopy
begin

section \<open>Registration: \<open>groupversion_info.go\<close>, \<open>smartlimiter_types.go\<close>, \<open>module.go\<close>, \<open>main.go\<close>\<close>

text \<open>
  How the program makes itself known: its types to the scheme of controller-runtime, its
  reconciler to the manager, and its module to the slime framework. The builders and the
  framework's \<open>Main\<close> are libraries, parameters here.
\<close>

subsection \<open>The types of the API group\<close>

record schema_GroupVersion =
  GV_Group :: string
  GV_Version :: string

definition GroupVersion :: schema_GroupVersion where
  "GroupVersion = \<lparr>GV_Group = ''microservice.slime.io'', GV_Version = ''v1alpha2''\<rparr>"

text \<open>\<open>scheme.Builder\<close>: a literal with its group and version, \<open>Register\<close> and \<open>AddToScheme\<close>.\<close>

record ('b, 's) scheme_builder =
  sb_Builder :: "schema_GroupVersion \<Rightarrow> 'b"
  sb_Register :: "'b \<Rightarrow> string list \<Rightarrow> 'b"
  sb_AddToScheme :: "'b \<Rightarrow> 's \<Rightarrow> 's \<times> goerror option"

definition SchemeBuilder :: "('b, 's) scheme_builder \<Rightarrow> 'b" where
  "SchemeBuilder B = sb_Builder B GroupVersion"

text \<open>The \<open>init\<close> of \<open>smartlimiter_types.go\<close>, which runs before \<open>main\<close>.\<close>

definition init_types :: "('b, 's) scheme_builder \<Rightarrow> 'b" where
  "init_types B = sb_Register B (SchemeBuilder B) [''SmartLimiter'', ''SmartLimiterList'']"

text \<open>The method value is bound to the pointer, so it sees what \<open>init\<close> has registered.\<close>

definition AddToScheme :: "('b, 's) scheme_builder \<Rightarrow> 's \<Rightarrow> 's \<times> goerror option" where
  "AddToScheme B = sb_AddToScheme B (init_types B)"

text \<open>
  A builder adds the types registered with it. The scheme knows them after \<open>InitScheme\<close>, as long
  as the functions that are called later take nothing away.
\<close>

definition adds_registered ::
    "('b, 's) scheme_builder \<Rightarrow> ('s \<Rightarrow> schema_GroupVersion \<Rightarrow> string \<Rightarrow> bool) \<Rightarrow> bool" where
  "adds_registered B knows \<longleftrightarrow> (\<forall>gv types s s'.
     sb_AddToScheme B (sb_Register B (sb_Builder B gv) types) s = (s', None) \<longrightarrow>
     (\<forall>t \<in> set types. knows s' gv t))"

lemma InitScheme_knows:
  assumes "adds_registered B knows"
    and "\<And>s s' gv t. istioapi s = (s', None) \<Longrightarrow> knows s gv t \<Longrightarrow> knows s' gv t"
    and "InitScheme clientgo (AddToScheme B) istioapi s = (s', None)"
  shows "knows s' GroupVersion ''SmartLimiter''" "knows s' GroupVersion ''SmartLimiterList''"
proof -
  obtain s1 s2 where "AddToScheme B s1 = (s2, None)" and last: "istioapi s2 = (s', None)"
    using assms(3) by (auto simp: InitScheme_def split: prod.splits option.splits)
  then have "\<forall>t \<in> set [''SmartLimiter'', ''SmartLimiterList'']. knows s2 GroupVersion t"
    using assms(1) unfolding adds_registered_def AddToScheme_def init_types_def SchemeBuilder_def by blast
  with assms(2) [OF last] show "knows s' GroupVersion ''SmartLimiter''" "knows s' GroupVersion ''SmartLimiterList''"
    by simp_all
qed

subsection \<open>The module\<close>

text \<open>
  A \<open>Module\<close> is a struct with the configuration message as its only field, so a module and its
  configuration have the same address.
\<close>

definition Module_Kind :: "addr option \<Rightarrow> string" where
  "Module_Kind m = ModuleName"

definition Module_Config :: "addr option \<Rightarrow> addr go" where
  "Module_Config m = deref m"

definition Module_Clone :: "addr option \<Rightarrow> ('m, 'l) store \<Rightarrow> (addr \<times> ('m, 'l) store) go" where
  "Module_Clone m h =
     gbind (deref m) (\<lambda>a. case new h of (b, h1) \<Rightarrow>
       Inr (b, config_cell_update (\<lambda>c. c(b := config_cell h1 a)) h1))"

text \<open>
  The clone has fields of its own: writing to its configuration leaves the original alone. The
  pointer \<open>Refresh\<close> is copied as it is, so the duration behind it is the same object, unlike in
  the generated deep copy of the message.
\<close>

lemma Module_Clone_fields:
  assumes "Module_Clone (Some a) h = Inr (b, h')" "a < lim h"
  shows "val_Limiter h' (config_cell h' b) = val_Limiter h (config_cell h a)"
    and "config_cell (config_cell_update (\<lambda>c. c(b := l)) h') a = config_cell h a"
    and "lo_Refresh (config_cell h' b) = lo_Refresh (config_cell h a)"
  using assms by (auto simp: Module_Clone_def new_def val_Limiter_def)

lemma Module_Clone_shares_Refresh:
  assumes "Module_Clone (Some a) h = Inr (b, h')" "a < lim h" "lo_Refresh (config_cell h a) = Some t"
  shows "val_Limiter (time_cell_update (\<lambda>c. c(t := d)) h') (config_cell h' b)
           = val_Limiter (time_cell_update (\<lambda>c. c(t := d)) h') (config_cell h' a)"
    and "fst (snd (val_Limiter (time_cell_update (\<lambda>c. c(t := d)) h') (config_cell h' a))) = Some d"
  using assms by (auto simp: Module_Clone_def new_def val_Limiter_def)

text \<open>
  The builder of controllers: for a manager, the kind of object to watch, and a reconciler. The
  module registers its reconciler for SmartLimiters with it.
\<close>

record ('g, 'b, 'r) controller_builder =
  NewControllerManagedBy :: "'g \<Rightarrow> 'b"
  For_kind :: "'b \<Rightarrow> string \<Rightarrow> 'b"
  Complete :: "'b \<Rightarrow> 'r \<Rightarrow> 'g \<times> goerror option"

definition SetupWithManager ::
    "('g, 'b, 'r) controller_builder \<Rightarrow> 'r \<Rightarrow> 'g \<Rightarrow> 'g \<times> goerror option" where
  "SetupWithManager B r mgr = Complete B (For_kind B (NewControllerManagedBy B mgr) ''SmartLimiter'') r"

text \<open>\<open>main\<close> hands the framework the name and a module with a zero configuration.\<close>

definition main :: "(string \<Rightarrow> Limiter_obj list \<Rightarrow> 'r) \<Rightarrow> 'r" where
  "main Main = Main ModuleName
     [\<lparr>lo_Backend = 0, lo_Refresh = None, lo_DisableGlobalRateLimit = False, lo_DisableAdaptive = False,
       lo_EnableServiceEntry = False, lo_XXX = \<lparr>XXX_unrecognized = None, XXX_sizecache = 0\<rparr>\<rparr>]"

end
