(* ===== verification/Scenarios.thy ===== *)
theory Scenarios
  imports Examples Concurrent Interest WellFormed Getters Lifecycle Handlers Registration
begin

section \<open>Concrete runs\<close>

text \<open>
  Short runs on which the properties of runs are applied: two goroutines that update the
  ConfigMap at the same time, a deletion that reads an old version, secrets that come and go,
  an EnvoyFilter the server refuses to delete.
  The API server of the first two keeps every version of the ConfigMap and a cache that is
  behind.
\<close>

subsection \<open>A server with versions\<close>

text \<open>The data of all versions, and the version the cache of the client is at.\<close>

type_synonym history = "string gomap list \<times> nat"

definition version :: "nat \<Rightarrow> string" where
  "version n = replicate (Suc n) (CHR ''v'')"

lemma version_inject [simp]: "version m = version n \<longleftrightarrow> m = n"
  by (metis Suc_inject length_replicate version_def)

lemma version_length [simp]: "length (version n) = Suc n" "version n \<noteq> ''''" "'''' \<noteq> version n"
  by (simp_all add: version_def)

definition configmap_at :: "string gomap list \<Rightarrow> nat \<Rightarrow> ConfigMap" where
  "configmap_at datas n =
     (constructConfigMap ex_fw [])\<lparr>CM_ResourceVersion := version n, CM_Data := datas ! n\<rparr>"

lemma configmap_at_fields [simp]:
  "CM_ResourceVersion (configmap_at datas n) = version n" "CM_Data (configmap_at datas n) = datas ! n"
  by (simp_all add: configmap_at_def)

definition now :: "history \<Rightarrow> ConfigMap option" where
  "now = (\<lambda>(datas, n). if datas = [] then None else Some (configmap_at datas (length datas - 1)))"

definition past :: "history \<Rightarrow> string \<Rightarrow> string gomap option" where
  "past = (\<lambda>(datas, n) v. if \<exists>i < length datas. v = version i then Some (datas ! (length v - 1)) else None)"

definition ex_versions :: "history client" where
  "ex_versions = \<lparr>
     Get_SmartLimiter = (\<lambda>w loc. Inl (NotFoundError '''')),
     Get_Service = (\<lambda>w loc. Inl (NotFoundError '''')),
     Get_EnvoyFilter = (\<lambda>w loc. Inl (NotFoundError '''')),
     Create_EnvoyFilter = (\<lambda>w cr. (w, Some (OtherError ''read only''))),
     Update_EnvoyFilter = (\<lambda>w cr. (w, Some (OtherError ''read only''))),
     Delete_EnvoyFilter = (\<lambda>w cr. (w, Some (OtherError ''read only''))),
     Get_ConfigMap = (\<lambda>(datas, n) loc.
       if n < length datas then Inr (configmap_at datas n) else Inl (NotFoundError '''')),
     Update_ConfigMap = (\<lambda>(datas, n) cm.
       if datas \<noteq> [] \<and> CM_ResourceVersion cm = version (length datas - 1)
       then ((datas @ [CM_Data cm], n), None) else ((datas, n), Some (OtherError ''conflict''))),
     Update_Status = (\<lambda>w sl. (w, Some (OtherError ''read only''))),
     K8S_Get_Service = (\<lambda>w loc. Inl (NotFoundError '''')),
     List_Pods = (\<lambda>w namespace selector. Inr []),
     HostSubsetMapping_Get = (\<lambda>w i host. NoEntry)\<rparr>"

lemma past_version [simp]: "past (datas, n) (version i) = (if i < length datas then Some (datas ! i) else None)"
  by (auto simp: past_def)

lemma ex_versions_laws: "versions_configmaps ex_versions now past"
proof -
  have "past (datas @ [d], n) = (past (datas, n))(version (length datas) \<mapsto> d)" for datas n d
    by (auto simp: past_def fun_eq_iff nth_append less_Suc_eq)
  moreover have "past w '''' = None" for w by (cases w) (auto simp: past_def)
  moreover have "past w (CM_ResourceVersion cm) = Some (CM_Data cm)" if "now w = Some cm" for w cm
    using that by (cases w) (auto simp: now_def split: if_splits)
  moreover have "past w (CM_ResourceVersion cm) = Some (CM_Data cm)"
    if "Get_ConfigMap ex_versions w loc = Inr cm" for w cm loc
    using that by (cases w) (auto simp: ex_versions_def split: if_splits)
  ultimately show ?thesis
    unfolding versions_configmaps_def
    by (auto simp: ex_versions_def now_def nth_append split: if_splits)
qed

lemma ex_yaml [simp]: "configmap_data ex_fw ds = configmap_data ex_fw ds' \<longleftrightarrow> ds = ds'"
  by (rule configmap_data_inject) simp

lemma holds_at [simp]:
  assumes "n < length datas" "datas ! n = configmap_data ex_fw ds"
  shows "holds_config ex_fw (configmap_at datas n) (Some \<lparr>RLC_Domain = ''slime'', RLC_Descriptors = ds\<rparr>)"
  using assms by (intro configmap_data_holds) simp_all

subsection \<open>Two goroutines\<close>

text \<open>Both read version 0, which holds no descriptor; the second write comes too late.\<close>

definition ex_other_loc :: NamespacedName where
  "ex_other_loc = \<lparr>NN_Namespace = ''default'', NN_Name = ''home''\<rparr>"

lemma ex_two_writers:
  "\<exists>w. reachable (writer_init ex_fw now []) (writer_step ex_fw ex_versions now past)
         (w, \<lambda>_ :: bool. None, [(ex_loc, [ex_entry ''one''])])"
proof -
  let ?w = "([configmap_data ex_fw []], 0) :: history"
  let ?job = "(ex_loc, [ex_entry ''one''])" and ?job' = "(ex_other_loc, [ex_entry ''two''])"
  let ?plan = "\<lambda>ds. (constructConfigMap ex_fw ds)\<lparr>CM_ResourceVersion := version 0\<rparr>"
  let ?cm = "?plan [Some (ex_entry ''one'')]" and ?cm' = "?plan [Some (ex_entry ''two'')]"
  let ?w' = "([configmap_data ex_fw [], configmap_data ex_fw [Some (ex_entry ''one'')]], 0) :: history"
  let ?step = "writer_step ex_fw ex_versions now past :: history \<times> (bool \<Rightarrow> (job \<times> ConfigMap) option) \<times> job list \<Rightarrow> _"
  let ?p1 = "(\<lambda>_. None)(True \<mapsto> (?job, ?cm))"
  let ?p2 = "?p1(False \<mapsto> (?job', ?cm'))"
  have read: "Get_ConfigMap ex_versions ?w getConfigMapNamespaceName = Inr (configmap_at [configmap_data ex_fw []] 0)"
    by (simp add: ex_versions_def)
  have plan: "planned_update ex_fw [ex_entry v] loc (configmap_at [configmap_data ex_fw []] 0)
      = Inr (Some (?plan [Some (ex_entry v)]))" for v loc
    using planned_update_eq [OF holds_at [of 0 "[configmap_data ex_fw []]" "[]"], of "[ex_entry v]" loc]
    by (simp add: merged_descriptors_def Let_def)
  have 0: "writer_init ex_fw now [] (?w, \<lambda>_ :: bool. None, [])"
    by (simp add: writer_init_def now_def)
      (rule exI [of _ "\<lparr>RLC_Domain = ''slime'', RLC_Descriptors = []\<rparr>"], simp)
  have 1: "?step (?w, \<lambda>_. None, []) (?w, ?p1, [])"
    by (rule writer_step.planned [where found = "configmap_at [configmap_data ex_fw []] 0"])
      (simp_all add: read plan)
  have 2: "?step (?w, ?p1, []) (?w, ?p2, [])"
    by (rule writer_step.planned [where found = "configmap_at [configmap_data ex_fw []] 0"])
      (simp_all add: read plan)
  have 3: "?step (?w, ?p2, []) (?w', ?p2(True := None), [] @ [?job])"
    by (rule writer_step.written [where cm = ?cm]) (simp_all add: ex_versions_def)
  have 4: "?step (?w', ?p2(True := None), [?job]) (?w', ?p2(True := None, False := None), [?job])"
    by (rule writer_step.rejected [where job = ?job' and cm = ?cm' and err = "OtherError ''conflict''"])
      (simp_all add: ex_versions_def)
  have cleared: "?p2(True := None, False := None) = (\<lambda>_. None)" by auto
  let ?reach = "reachable (writer_init ex_fw now []) ?step"
  have "?reach (?w, \<lambda>_. None, [])" using 0 by (rule reachable_init)
  then have "?reach (?w, ?p1, [])" using 1 by (rule reachable_step)
  then have "?reach (?w, ?p2, [])" using 2 by (rule reachable_step)
  then have "?reach (?w', ?p2(True := None), [] @ [?job])" using 3 by (rule reachable_step)
  then have "?reach (?w', ?p2(True := None), [?job])" by (simp only: append_Nil)
  then have "?reach (?w', ?p2(True := None, False := None), [?job])" using 4 by (rule reachable_step)
  then have "?reach (?w', \<lambda>_. None, [?job])" unfolding cleared .
  then show ?thesis by (rule exI [where x = ?w'])
qed

subsection \<open>A deletion that reads an old version\<close>

definition ex_old_world :: history where
  "ex_old_world =
     ([configmap_data ex_fw [Some (ex_entry ''page.default'')],
       configmap_data ex_fw [Some (ex_entry ''page.default''), Some (ex_entry ''home.default'')]], 0)"

lemma ex_old_facts:
  "Get_ConfigMap ex_versions ex_old_world getConfigMapNamespaceName = Inr (configmap_at (fst ex_old_world) 0)"
  "now ex_old_world = Some (configmap_at (fst ex_old_world) 1)"
  "holds_config ex_fw (configmap_at (fst ex_old_world) 1) (Some \<lparr>RLC_Domain = ''slime'',
     RLC_Descriptors = [Some (ex_entry ''page.default''), Some (ex_entry ''home.default'')]\<rparr>)"
  by (simp_all add: ex_versions_def ex_old_world_def now_def)

lemma ex_old_deletion:
  "\<exists>r' w' e. Reconcile ex_fw fmap_cmap ex_versions ex_loc (ex_interested, ex_old_world) = Inr (r', w', e)"
proof -
  have "holds_config ex_fw (configmap_at (fst ex_old_world) 0) (Some \<lparr>RLC_Domain = ''slime'',
      RLC_Descriptors = [Some (ex_entry ''page.default'')]\<rparr>)"
    by (simp add: ex_old_world_def)
  from planned_update_eq [OF this, of "[]" ex_loc]
  have "\<exists>w'. refreshConfigMap ex_fw ex_versions [] ex_loc ex_old_world = Inr w'"
    unfolding refreshConfigMap_halves ex_old_facts(1) by (simp add: Let_def)
  moreover have "Get_SmartLimiter ex_versions ex_old_world ex_loc = Inl (NotFoundError '''')"
    by (simp add: ex_versions_def)
  ultimately show ?thesis by (auto simp: Reconcile_def Let_def)
qed

subsection \<open>Two secrets with the same cluster\<close>

definition ex_both :: "string \<Rightarrow> Secret option" where
  "ex_both = ex_secrets(''t'' \<mapsto> ex_secret)"

lemma ex_both_facts [simp]:
  "ex_both ''t'' = Some ex_secret" "ex_both ''s'' = Some ex_secret"
  "map_get (Secret_Data ex_secret) ''c1'' = Some ''config''" "usable ex_clientcmd ''config''"
  by (simp_all add: ex_both_def ex_secrets_def ex_secret_def ex_usable)

lemma ex_second_secret:
  "\<exists>c. reachable (member_init [\<lambda>k x. x @ [k]] [\<lambda>i x. removeAll i x] []) (member_step ex_clientcmd)
         (ex_both, {''t''}, c) \<and> fmlookup (cs c) ''c1'' = Some ''s''"
proof -
  obtain c where c: "reachable (member_init [\<lambda>k x. x @ [k]] [\<lambda>i x. removeAll i x] []) (member_step ex_clientcmd)
      (ex_secrets, {}, c)" "fmlookup (cs c) ''c1'' = Some ''s''"
    using ex_members by blast
  have "member_step ex_clientcmd (ex_secrets, {}, c) (ex_both, {''t''}, c)"
    unfolding ex_both_def by (rule member_step.secret_added) (simp add: ex_secrets_def)
  with c show ?thesis by (blast intro: reachable_step)
qed

lemma ex_both_registered:
  "\<exists>c. reachable (member_init [\<lambda>k x. x @ [k]] [\<lambda>i x. removeAll i x] []) (member_step ex_clientcmd)
         (ex_both, {}, c) \<and> fmlookup (cs c) ''c1'' = Some ''s''"
proof -
  obtain c where c: "reachable (member_init [\<lambda>k x. x @ [k]] [\<lambda>i x. removeAll i x] []) (member_step ex_clientcmd)
      (ex_both, {''t''}, c)" "fmlookup (cs c) ''c1'' = Some ''s''"
    using ex_second_secret by blast
  let ?c = "addMemberCluster ex_clientcmd ascending ''t'' ex_secret c"
  have "member_step ex_clientcmd (ex_both, {''t''}, c) (ex_both, {''t''} - {''t''}, ?c)"
    by (rule member_step.item_processed [OF _ fair_ascending]) (simp_all add: processItem_def)
  with c(1) have "reachable (member_init [\<lambda>k x. x @ [k]] [\<lambda>i x. removeAll i x] []) (member_step ex_clientcmd)
      (ex_both, {}, ?c)"
    unfolding Diff_cancel by (rule reachable_step)
  moreover have "fmlookup (cs ?c) ''c1'' = Some ''s''" using c(2) by (simp add: addMemberCluster_cs)
  ultimately show ?thesis by blast
qed

subsection \<open>A refused deletion\<close>

text \<open>The subset \<open>v1\<close> has an EnvoyFilter from before, and the server refuses to delete it.\<close>

definition ex_leftover :: EnvoyFilterCR where
  "ex_leftover = \<lparr>EF_Name = envoyfilter_name ex_fw ex_limiter ''v1'', EF_Namespace = ''default'', EF_Labels = None,
     EF_OwnerReferences = [], EF_ResourceVersion = '''', EF_Spec = Some fmempty\<rparr>"

definition ex_leftover_world :: cluster where
  "ex_leftover_world = ex_world\<lparr>envoyfilters := [set_loc ex_fw ex_limiter ''v1'' \<mapsto> ex_leftover]\<rparr>"

definition ex_refusing :: "cluster client" where
  "ex_refusing = ex_client0\<lparr>Delete_EnvoyFilter := \<lambda>w cr.
     if envoyfilter_loc cr = set_loc ex_fw ex_limiter ''v1'' then (w, Some (OtherError ''forbidden''))
     else Delete_EnvoyFilter ex_client0 w cr\<rparr>"

lemma ex_refusing_laws [simp]:
  "stores_envoyfilters ex_refusing envoyfilters" "sound_configmaps ex_fw ex_refusing"
  using ex_client0_laws(1,3)
  by (auto simp: ex_refusing_def stores_envoyfilters_def sound_configmaps_def)

lemma ex_refusing_reads [simp]:
  "Get_Service ex_refusing ex_leftover_world loc = Inr ex_service"
  "host_sets ex_fw ex_refusing ex_leftover_world loc = Inr (map Some ex_sets)"
  using ex_client0_reads [of loc]
  by (simp_all add: ex_refusing_def ex_leftover_world_def ex_client0_def ex_client_def ex_world_def
      host_sets_def)

lemma ex_refusing_base: "calls_succeed ex_fw ex_refusing ex_limiter (set_loc ex_fw ex_limiter ''_base'')"
  using never_fails_calls_succeed [OF ex_client0_laws(2)]
  by (auto simp: ex_refusing_def calls_succeed_def)

lemma ex_refused:
  "\<exists>w' e. refresh ex_fw fmap_cmap ex_refusing ascending ex_reconciler ex_limiter ex_leftover_world = Inr (w', e)"
  using refresh_total [of ascending ex_fw ex_limiter ex_refusing ex_leftover_world ex_sets fmap_cmap
      ex_reconciler] by simp

subsection \<open>A queue that is shut down\<close>

lemma ex_queue_drains: "drains_when_shut_down ex_queue"
  by (auto simp: drains_when_shut_down_def ex_queue_def split: list.splits)

lemma ex_queue_hands_out: "hands_out ex_queue (\<lambda>(n, keys, down). set keys)"
  by (auto simp: hands_out_def ex_queue_def split: list.splits) (metis list.exhaust)

definition ex_rounds :: "nat \<Rightarrow> round" where
  "ex_rounds n = (if n = 2 then [Added ''s'', ShutDown] else [], ascending, \<lambda>k. Inr (ex_secrets k))"

text \<open>However the rounds go, processing \<open>s\<close> in one of them leaves its cluster registered.\<close>

lemma ex_processed:
  fixes c :: "(string, string list) Controller"
  assumes "(j, ''s'') \<in> set hs" "fmlookup (cs c) ''c1'' \<in> {None, Some ''s''}"
  shows "fmlookup (cs (fold (\<lambda>(i, k) c. fst (processItem ex_clientcmd (fst (snd (ex_rounds i)))
           (snd (snd (ex_rounds i))) k c)) hs c)) ''c1'' = Some ''s''"
proof -
  let ?f = "\<lambda>(i, k) c. fst (processItem ex_clientcmd (fst (snd (ex_rounds i))) (snd (snd (ex_rounds i))) k c)"
  have step: "fmlookup (cs (?f h c)) ''c1'' = (if snd h = ''s'' then Some ''s'' else fmlookup (cs c) ''c1'')"
    if "fmlookup (cs c) ''c1'' \<in> {None, Some ''s''}" for h and c :: "(string, string list) Controller"
    using that
    by (cases h) (auto simp: processItem_def ex_rounds_def ex_secrets_def addMemberCluster_cs deleteMemberCluster_cs
        ex_secret_def ex_usable)
  have kept: "fmlookup (cs (fold ?f hs c)) ''c1'' = Some ''s''" if "fmlookup (cs c) ''c1'' = Some ''s''"
    for hs and c :: "(string, string list) Controller"
    using that
  proof (induction hs arbitrary: c)
    case (Cons h hs)
    then have "fmlookup (cs (?f h c)) ''c1'' = Some ''s''" using step [of c h] by simp
    from Cons.IH [OF this] show ?case by (simp only: fold_simps)
  qed simp
  show ?thesis
    using assms
  proof (induction hs arbitrary: c)
    case (Cons h hs)
    show ?case
    proof (cases "snd h = ''s''")
      case True
      have "fmlookup (cs (?f h c)) ''c1'' = Some ''s''" unfolding step [OF Cons.prems(2)] using True by simp
      from kept [OF this] show ?thesis by (simp only: fold_simps)
    next
      case False
      have "fmlookup (cs (?f h c)) ''c1'' \<in> {None, Some ''s''}"
        unfolding step [OF Cons.prems(2)] using False Cons.prems(2) by simp
      moreover have "(j, ''s'') \<in> set hs" using Cons.prems(1) False by auto
      ultimately show ?thesis using Cons.IH by (simp only: fold_simps)
    qed
  qed simp
qed

text \<open>The worker of the example starts, and then the stop channel is closed.\<close>

lemma ex_working:
  "reachable (run_init ex_queue ex_controller) (run_step ex_clientcmd ex_queue)
     (Working, True, (\<lambda>_. 0, [''s''], False), ex_controller)"
proof -
  let ?q = "(\<lambda>_. 0, [], False) :: (string \<Rightarrow> nat) \<times> string list \<times> bool"
  let ?q' = "(\<lambda>_. 0, [''s''], False) :: (string \<Rightarrow> nat) \<times> string list \<times> bool"
  let ?step = "run_step ex_clientcmd ex_queue" and ?R = "reachable (run_init ex_queue ex_controller) (run_step ex_clientcmd ex_queue)"
  have "?R (Syncing, False, ?q, ex_controller)"
    by (rule reachable_init) (simp add: run_init_def ex_queue_def)
  then have "?R (Between, False, ?q, ex_controller)" by (rule reachable_step) (rule run_step.synced)
  then have "?R (Working, False, ?q, ex_controller)" by (rule reachable_step) (rule run_step.started)
  then have "?R (Working, False, wq_Add ex_queue ?q ''s'', ex_controller)"
    by (rule reachable_step) (rule run_step.informer_added)
  then have "?R (Working, False, ?q', ex_controller)" by (simp add: ex_queue_def)
  then show ?thesis by (rule reachable_step) (rule run_step.stop_closed)
qed

subsection \<open>A sound server\<close>

text \<open>Every SmartLimiter of this server is complete, as the metric loop needs it.\<close>

definition ex_client1 :: "cluster client" where
  "ex_client1 = ex_client0\<lparr>Get_SmartLimiter := \<lambda>w loc. Inr ex_limiter,
     HostSubsetMapping_Get := \<lambda>w i host. NoEntry\<rparr>"

lemma ex_client1_laws [simp]: "sound_configmaps ex_fw ex_client1" "sound_objects ex_fw ex_client1"
  using ex_client0_laws(3)
  by (auto simp: ex_client1_def sound_configmaps_def sound_objects_def host_sets_def Cons_eq_map_conv)

definition ex_group_meta :: StaticMeta where
  "ex_group_meta = (ex_meta [(''v1.pod'', 2)])\<lparr>IsGroup := Some (fmap_of_list [(''mem'', True)])\<rparr>"

definition ex_group_metric :: Metric where
  "ex_group_metric = Some (fmupd (StaticMeta_String ex_json ex_group_meta) [ex_result ''mem'' ''9''] fmempty)"

lemma ex_values_present: "values_present ex_json ex_group_metric"
  by (auto simp: values_present_def ex_group_metric_def ex_result_def split: if_splits)

subsection \<open>A metric that meets a deletion\<close>

text \<open>
  Goroutine 0 has looked the entry up and is about to write to it when goroutine 1 removes it
  from the map.
\<close>

definition ex_args :: "string gomap" where
  "ex_args = Some (fmap_of_list [(''cpu'', ''7'')])"

definition ex_entry_at :: Endpoints where
  "ex_entry_at = \<lparr>Endpoints_Location = ex_loc, Endpoints_Info = ex_args\<rparr>"

definition ex_shared :: "(string, nat) fmap \<Rightarrow> nat \<Rightarrow> shared" where
  "ex_shared info n = \<lparr>sh_info = info, sh_heap = (\<lambda>_. ex_entry_at), sh_next = n,
     sh_interest = {||}, sh_policy = empty_spec\<rparr>"

lemma ex_race:
  "reachable handler_init handler_step
     (ex_shared fmempty 1, (\<lambda>_ :: nat. None)(0 \<mapsto> MergeInto 0 ex_loc ex_args, 1 \<mapsto> PopInterest ex_loc),
      [(ex_loc, ex_args), (ex_loc, ex_args)])"
proof -
  let ?key = "request_key ex_loc"
  let ?R = "reachable (handler_init :: shared \<times> (nat \<Rightarrow> activity option) \<times> _ \<Rightarrow> bool) handler_step"
  let ?m = "fmupd ?key 0 fmempty" and ?a = "(ex_loc, ex_args)" and ?none = "\<lambda>_ :: nat. None :: activity option"
  note arrive = handler_step.metric_arrives [where i = 0 and nn = ex_loc and args = ex_args]
  note proceed = handler_step.proceeds [where ch = ascending, OF _ fair_ascending]
  have "?R (ex_shared fmempty 0, ?none, [])"
    by (rule reachable_init) (simp add: handler_init_def ex_shared_def)
  then have "?R (ex_shared fmempty 0, ?none(0 \<mapsto> LookUp ex_loc ex_args), [] @ [?a])"
    by (rule reachable_step) (rule arrive, simp)
  then have "?R (ex_shared fmempty 0, (?none(0 \<mapsto> LookUp ex_loc ex_args))(0 := Some (StoreEntry ex_loc ex_args)), [] @ [?a])"
    by (rule reachable_step) (rule proceed, simp, simp add: ex_shared_def)
  then have "?R (ex_shared fmempty 0, ?none(0 \<mapsto> StoreEntry ex_loc ex_args), [?a])" by simp
  then have "?R (ex_shared ?m 1, (?none(0 \<mapsto> StoreEntry ex_loc ex_args))(0 := None), [?a])"
    by (rule reachable_step) (rule proceed, simp, simp add: ex_shared_def ex_entry_at_def fun_eq_iff)
  then have "?R (ex_shared ?m 1, ?none, [?a])" by simp
  then have "?R (ex_shared ?m 1, ?none(0 \<mapsto> LookUp ex_loc ex_args), [?a] @ [?a])"
    by (rule reachable_step) (rule arrive, simp)
  then have "?R (ex_shared ?m 1, (?none(0 \<mapsto> LookUp ex_loc ex_args))(0 := Some (LookUpAgain ex_loc ex_args)), [?a] @ [?a])"
    by (rule reachable_step) (rule proceed, simp, simp add: ex_shared_def)
  then have "?R (ex_shared ?m 1, ?none(0 \<mapsto> LookUpAgain ex_loc ex_args), [?a, ?a])" by simp
  then have "?R (ex_shared ?m 1, (?none(0 \<mapsto> LookUpAgain ex_loc ex_args))(0 := Some (MergeInto 0 ex_loc ex_args)), [?a, ?a])"
    by (rule reachable_step) (rule proceed, simp, simp add: ex_shared_def)
  then have "?R (ex_shared ?m 1, ?none(0 \<mapsto> MergeInto 0 ex_loc ex_args), [?a, ?a])" by simp
  then have "?R (ex_shared ?m 1, ?none(0 \<mapsto> MergeInto 0 ex_loc ex_args, 1 \<mapsto> PopInfo ex_loc), [?a, ?a])"
    by (rule reachable_step) (rule handler_step.object_gone, simp)
  then have "?R (ex_shared fmempty 1, (?none(0 \<mapsto> MergeInto 0 ex_loc ex_args, 1 \<mapsto> PopInfo ex_loc))
      (1 := Some (PopInterest ex_loc)), [?a, ?a])"
    by (rule reachable_step) (rule proceed, simp, simp add: ex_shared_def fmap_ext)
  then show ?thesis by simp
qed

end
