(* ===== verification/Spec2Isabelle.thy ===== *)
theory Spec2Isabelle
  imports Scenarios
begin

text \<open>
  \<^bold>\<open>The program.\<close> The limiter is a Kubernetes controller. A user writes a \<open>SmartLimiter\<close> object for a
  service: for each subset of the service's pods, a list of rate limits with a condition and a
  quota, both templates over metrics, and the routes each limit applies to. The controller
  collects the metrics (pod counts by subset, Prometheus values), evaluates the templates,
  and writes what Envoy needs: an Istio \<open>EnvoyFilter\<close> per subset, and for global limits the
  entries of the ConfigMap that the rate-limit service reads.

  The parts interact as follows. \<open>Reconcile\<close> is called by controller-runtime for every object
  that changed, and keeps the keys of the objects of interest. The metric producer of the slime
  framework calls \<open>handleTickerEvent\<close> and \<open>handleWatcherEvent\<close>, which turn the
  objects of interest into queries; the answers come back through two channels that
  \<open>WatchMetric\<close> drains. Each answer goes through \<open>ConsumeMetric\<close> and \<open>Refresh\<close> to
  \<open>refresh\<close>, which generates the EnvoyFilters (\<open>GenerateEnvoyConfigs\<close>), writes those that
  differ (\<open>refreshEnvoyFilter\<close>), the ConfigMap (\<open>refreshConfigMap\<close>) and the status. The
  multicluster controller is separate: it watches secrets with kubeconfigs and tells its
  subscribers about member clusters.

  \<^bold>\<open>Theories and sources\<close> (all under \<open>src/\<close>).
  \<^item> \<open>Prelude\<close>: panics, errors, slices, Go maps, loops, and the order in which a map is visited;
    the locale \<open>multimap\<close> of grouping maps.
  \<^item> \<open>GoLib\<close>: the functions of \<open>strings\<close>, \<open>fmt\<close>, \<open>strconv\<close> and \<open>hash/adler32\<close> the code calls.
  \<^item> \<open>ApiTypes\<close>: \<open>api/v1alpha2/smart_limiter.pb.go\<close>, \<open>api/v1alpha2/smartlimiter_types.go\<close>,
    \<open>model/model.go\<close>, \<open>model/const.go\<close>, and the Envoy, Istio and Kubernetes structures.
  \<^item> \<open>Framework\<close>: everything that is not in the repository (templates, protobuf conversion, YAML,
    the API server), as records of parameters.
  \<^item> \<open>State\<close>: the fields of \<open>SmartLimiterReconciler\<close>, its concurrent maps, and the types of
    metrics; the locale \<open>inductive_invariant\<close>.
  \<^item> \<open>LocalLimit\<close>, \<open>GlobalLimit\<close>, \<open>EnvoyFilters\<close>: \<open>controllers/envoy_local_limit.go\<close>,
    \<open>controllers/envoy_global_limit.go\<close>, \<open>controllers/envoy_filters.go\<close>.
  \<^item> \<open>Getters\<close>: the generated getters and \<open>Reset\<close> of \<open>smart_limiter.pb.go\<close> and
    \<open>limiter_module.pb.go\<close>, and the message of the latter.
  \<^item> \<open>Patches\<close>: what the loops over Go maps in \<open>envoy_local_limit.go\<close> produce, stated without maps: for
    each route one patch with actions and one with buckets (\<open>actions_patch\<close>, \<open>buckets_patch\<close>), in any
    order, where the first descriptor that uses a route decides on the direction (\<open>route_match\<close>).
    \<open>WellFormed\<close>: that all patches fit together.
  \<^item> \<open>ConfigMap\<close>, \<open>Process\<close>, \<open>Metrics\<close>: \<open>controllers/process.go\<close>, in three parts: the ConfigMap,
    \<open>refresh\<close>, and the consumption of metrics.
  \<^item> \<open>Concurrent\<close>: the calls of \<open>refreshConfigMap\<close> (\<open>Get\<close>, then \<open>Update\<close>) by several writers in any
    order, as the step relation \<open>writer_step\<close>; the locale of its contract with a versioned API server
    is interpreted on the model's definitions.
  \<^item> \<open>Producer\<close>: \<open>controllers/producer.go\<close>.
  \<^item> \<open>Reconciler\<close>: \<open>controllers/smartlimiter_controller.go\<close>, and the step relation
    \<open>limiter_step\<close> of the whole controller. \<open>Interest\<close>: how long an object stays in the ticker's
    questions. \<open>MetricLoop\<close>: that \<open>WatchMetric\<close> cannot panic.
  \<^item> \<open>Handlers\<close>: \<open>Refresh\<close> and \<open>Reconcile\<close> again, one step for each operation on the maps they
    share, in any number of goroutines (\<open>handler_step\<close>); without interruption they are the functions
    of \<open>Metrics\<close> and \<open>Reconciler\<close> (\<open>Refresh_refines\<close>, \<open>Reconcile_refines\<close>).
  \<^item> \<open>Module\<close>: \<open>InitScheme\<close> and \<open>InitManager\<close> of \<open>module/module.go\<close>: a module that starts runs a
    reconciler in an initial state of \<open>limiter_step\<close>. \<open>Registration\<close>: the other methods of the
    module, \<open>api/v1alpha2/groupversion_info.go\<close>, the \<open>init\<close> of \<open>smartlimiter_types.go\<close>,
    \<open>SetupWithManager\<close> and \<open>main.go\<close>.
  \<^item> \<open>Multicluster\<close>: \<open>controllers/multicluster/controller.go\<close>, and its step relation
    \<open>member_step\<close>. \<open>Secrets\<close>: its informer's callbacks (\<open>ListFunc\<close>, \<open>WatchFunc\<close>, \<open>AddFunc\<close>,
    \<open>DeleteFunc\<close>), \<open>Run\<close>, and how the queue is worked off. \<open>Lifecycle\<close>: \<open>runWorker\<close> as a loop that
    need not end (\<open>worker_loop\<close>), what it has done when it ends, and \<open>Run\<close> with its stop channel
    (\<open>run_step\<close>).
  \<^item> \<open>Store\<close>, \<open>Copy\<close>, \<open>DeepCopy\<close>: \<open>api/v1alpha2/zz_generated.deepcopy.go\<close>, over an explicit
    store of objects, since sharing is what these methods are about. The locale \<open>cell\<close> is the
    contract of one kind of object in the store, \<open>framed\<close> of what a value depends on, and
    \<open>copier\<close> of a copying method.
  \<^item> \<open>Examples\<close>: a small framework, codecs, API servers and inputs that satisfy the hypotheses of
    the properties, for their instances below. \<open>Scenarios\<close>: longer runs for the same purpose (two
    writers, a stale reader, two secrets, a refused deletion, a worker that is stopped, a metric that
    meets a deletion).

  Definitions have the names of the source. A method takes the reconciler's state and the
  cluster as arguments and returns them updated; a Go \<open>error\<close> is \<open>goerror option\<close> (or the left
  side of a sum where there is no other result); a run-time panic is the left side of \<open>go\<close>.
  A pointer or an element of a slice that can be nil is an option, a nil slice or map \<open>None\<close>. The
  code reads the entry of a host in the service mapping twice, for the test and for the use: the two
  reads are two values of the parameter \<open>HostSubsetMapping_Get\<close>.
  \<open>int32\<close>, \<open>uint32\<close> and \<open>int64\<close> are words of their width.

  \<^bold>\<open>What the lemmas show.\<close> This theory has the properties, numbered C1 to C40, in the order of the
  components, each with an instance where it has hypotheses.
  \<^item> Generation (C1 to C11): which routes, actions and buckets come out of a list of descriptors,
    that actions and buckets meet in the same entry under the same match, when generation panics, what
    the sets of the result are, the patches of an EnvoyFilter one by one (C7) and the orders they can
    come in (C8), the width of quotas, and the descriptors of the rate-limit service.
  \<^item> Application (C12 to C18, C40): the cluster after a refresh is what the evaluated spec asks for;
    the ConfigMap keeps the entries of others, with the exceptions C17 states, also when several
    refreshes overlap (C18).
  \<^item> Metrics (C19 to C21): which values reach the templates, and that the loop over the metrics
    does not panic.
  \<^item> The controller (C22 to C28): its inductive invariant, that the periodic event cannot panic, how
    long an object is asked for, what deletion does to the maps and to the ConfigMap, and what an
    overlap of handlers does to the maps they share.
  \<^item> Member clusters (C29 to C35): which clusters are registered, how the queue is worked off, when
    its worker and \<open>Run\<close> end, and which keys the worker has processed then. Deep copies (C36 to C38).
  \<^item> Composition: C24 (from the ticker's question to the stored counts) and C39 (from a metric to
    the stored EnvoyFilters).

  Several of them state a weakness of the code as it is (C5, C6, C17, C27, C33, C35, C38, and the
  provisos of C1 and C21): they are
  proved of the code and say exactly when the weakness shows. More weaknesses are lemmas:
  \<open>metric_info_group_last\<close> (a group metric discards what was collected before it),
  \<open>query_handlers_last\<close> (only the queries of the handler visited last are sent), \<open>same_spec_ignored\<close>
  (a SmartLimiter with the spec of the one reconciled before it is ignored), \<open>Refresh_after_delete\<close>
  (a late metric puts an entry back that nothing removes), \<open>Refresh_after_nil\<close> (a group metric without a
  value makes the next one panic), \<open>Module_Clone_shares_Refresh\<close>.

  \<^bold>\<open>Hypotheses on what is outside.\<close> \<open>fair\<close>: a range visits every key once. \<open>converts_messages\<close>,
  \<open>copies_maps\<close>, \<open>yaml_round_trip\<close>, \<open>json_round_trip\<close> (of one value), \<open>sets_owner_only\<close>: the
  conversions and helpers of the libraries do what their documentation says. \<open>concurrent_map\<close>: the
  laws of the \<open>concurrent-map\<close> package. \<open>stores_envoyfilters\<close>: the API server stores EnvoyFilters
  under their location, and reads are truthful; \<open>never_fails\<close>: no call to it fails
  (\<open>calls_succeed\<close>: no call for one EnvoyFilter).
  \<open>sound_configmaps\<close>: the stored ConfigMap has no nil descriptor. \<open>versions_configmaps\<close>: the API
  server accepts an update exactly when it carries the current resource version; a read may be stale.
  \<open>object_present\<close>: the object exists whenever it is reconciled. \<open>counts_requeues\<close>: the work
  queue counts requeues. \<open>drains_when_shut_down\<close>: a queue that is shut down takes no new key and
  hands out what it has. \<open>hands_out\<close>: the queue loses no key, and \<open>Get\<close> gives none only when there is
  none. \<open>sound_subsets\<close>, or that \<open>known_subsets\<close> or \<open>host_sets\<close> is a list of subsets: no slice in the
  service mapping has a nil pointer. \<open>sound_objects\<close>: the stored SmartLimiters are complete and their
  hosts' subsets sound, as \<open>refresh\<close> needs it.
  \<open>values_present\<close>: a group metric has a value. \<open>adds_registered\<close>: a scheme builder adds the types
  registered with it. \<open>copier\<close> for the metadata types of Kubernetes: their own deep copies are
  correct.

  \<^bold>\<open>Order, loops and steps.\<close> A \<open>range\<close> over a Go map takes its order from a \<open>chooser\<close>, an argument of
  the definition; a definition with several such loops splits it, so that the orders are
  independent, and the properties hold for every fair one. No definition needs fuel: the loops of
  the code that end are structural recursions on the slice they range over. Of the two that need not
  end, \<open>WatchMetric\<close> is a function of the list of values received, with properties for every such list,
  and \<open>runWorker\<close> is both a function of a list of rounds and the \<open>partial_function\<close> \<open>worker_loop\<close> over
  an environment without end, where not returning is the value \<open>None\<close>; \<open>worker_loop_runWorker\<close> relates
  the two. In \<open>limiter_step\<close> a handler is one step. Handlers that run at the same time are modelled
  where they write the same object: in \<open>Concurrent\<close> a step is a single call to the API server for the
  ConfigMap, in \<open>Handlers\<close> a single operation on one of the reconciler's maps. The loop of \<open>Refresh\<close>
  over an entry is one step there, since it holds the entry's lock.

  \<^bold>\<open>Not modelled.\<close>
  \<^item> The generated protobuf methods of \<open>smart_limiter.pb.go\<close> and \<open>limiter_module.pb.go\<close> that
    only call the protobuf library (\<open>String\<close>, \<open>Descriptor\<close>, marshalling), and the bookkeeping
    fields \<open>XXX_...\<close> outside of the deep copies.
  \<^item> The informer that \<open>Run\<close> starts: it is the environment that calls the modelled callbacks.
  \<^item> Logging, and \<open>controllers.go\<close>, which declares the logger. The locks: what they protect is a single
    step where handlers overlap, and the places that read without the lock are not modelled as such.
  \<^item> The interleaving of the calls for EnvoyFilters of two overlapping refreshes of one object, which
    the single goroutine of \<open>WatchMetric\<close> excludes.
  \<^item> Aliasing outside of the deep copies and \<open>Handlers\<close>: the \<open>Info\<close> map of an \<open>Endpoints\<close> is reached
    through the concurrent map only and is modelled by value, and so are the slices that are appended
    to.
\<close>

section \<open>Properties of the generated configuration\<close>

text \<open>C1: In the EnvoyFilter of a set, every local descriptor has, for every virtual host and
  route it applies to, a bucket in the rate limit filter of that route; and for every bucket
  of that filter the route sends an action whose entry is exactly the bucket's entry. The patch with
  the filter and the patch with the actions match the same route in the same direction, so that a
  request can reach the bucket, provided that all descriptors of the set that use the route are for
  one direction; where they disagree, each patch has the direction of the first descriptor in it.\<close>

theorem buckets_are_reachable:
  assumes "fair ch" "converts_messages fw" "\<forall>d \<in> set ds. \<not> custom d"
    and "descriptorsToEnvoyFilter fw ch ds labels loc rls = Inr (Some ef)"
    and "is_local d" "d \<in> set ds" "k \<in> set (descriptor_keys d)"
    and "\<forall>d' \<in> set ds. (k, \<not> outbound) \<notin> set (target_uses (Target d'))"
  shows "\<exists>p q lrl as. Some p \<in> set (ConfigPatches ef) \<and> Some q \<in> set (ConfigPatches ef)
           \<and> Patch_Match p = Some \<lparr>Context = if outbound then SIDECAR_OUTBOUND else SIDECAR_INBOUND,
                                   ObjectTypes = key_route k\<rparr>
           \<and> Patch_Match q = Patch_Match p
           \<and> Patch p = generatePerFilterPatch fw (struct_of fw (LocalRateLimitMessage lrl))
           \<and> Patch_Value (Patch q) = struct_of fw (route_message (map Some as))
           \<and> local_descriptor fw loc d \<in> set (LR_Descriptors lrl)
           \<and> (\<forall>b \<in> set (LR_Descriptors lrl). \<exists>a \<in> set as. Entries b = [action_entry a])"
  using bucket_pairing [OF assms] unfolding use_match_def prod.case by metis

theorem buckets_are_reachable_witness:
  "\<exists>ef p lrl. descriptorsToEnvoyFilter ex_fw ascending [ex_descriptor ''single''] None ex_loc '''' = Inr (Some ef)
     \<and> Some p \<in> set (ConfigPatches ef)
     \<and> Patch_Match p = Some \<lparr>Context = SIDECAR_INBOUND, ObjectTypes = RouteConfigurationMatch '''' ''default''\<rparr>
     \<and> Patch p = generatePerFilterPatch ex_fw (struct_of ex_fw (LocalRateLimitMessage lrl))
     \<and> local_descriptor ex_fw ex_loc (ex_descriptor ''single'') \<in> set (LR_Descriptors lrl)"
proof -
  obtain ef where ef: "descriptorsToEnvoyFilter ex_fw ascending [ex_descriptor ''single''] None ex_loc ''''
      = Inr (Some ef)"
    using ex_envoyfilter by blast
  have d: "\<forall>d \<in> set [ex_descriptor ''single'']. \<not> custom d" "is_local (ex_descriptor ''single'')"
    "ex_descriptor ''single'' \<in> set [ex_descriptor ''single'']"
    "''/default'' \<in> set (descriptor_keys (ex_descriptor ''single''))"
    by (simp_all add: ex_descriptor_facts)
  have inbound: "\<forall>d' \<in> set [ex_descriptor ''single'']. (''/default'', \<not> False) \<notin> set (target_uses (Target d'))"
    by (simp add: ex_descriptor_def target_uses_def)
  have key: "key_route ''/default'' = RouteConfigurationMatch '''' ''default''"
    by (simp add: key_route_def)
  from buckets_are_reachable [OF fair_ascending ex_fw_laws(2) d(1) ef d(2-4) inbound] ef show ?thesis
    by (auto simp: key)
qed

text \<open>C2: Building the EnvoyFilter of a set panics exactly when a descriptor that is not custom
  has a nil header match, or a local descriptor that applies to some route has no action or
  no fill interval.\<close>

theorem envoyfilter_panics_iff:
  assumes "fair ch" "converts_messages fw"
  shows "(\<exists>p. descriptorsToEnvoyFilter fw ch ds labels loc rls = Inl p) \<longleftrightarrow>
           (\<exists>d \<in> set ds. \<not> custom d \<and> \<not> no_nil_match d)
         \<or> (\<exists>d \<in> set ds. is_local d \<and> descriptor_keys d \<noteq> [] \<and> \<not> well_timed d)"
  using assms by (rule descriptorsToEnvoyFilter_panic_iff)

theorem envoyfilter_panics_iff_witness:
  "\<exists>p. descriptorsToEnvoyFilter ex_fw ascending [(ex_descriptor ''single'')\<lparr>Match := Some [None]\<rparr>]
         None ex_loc '''' = Inl p"
  unfolding envoyfilter_panics_iff [OF fair_ascending ex_fw_laws(2)]
  by (simp add: custom_def no_nil_match_def ex_descriptor_def)

text \<open>C3: The generated configuration has an entry for every subset of the host and for the base
  set, and for no other. The entry is nil exactly for the sets without a descriptor whose
  condition is true, that has an action, and whose quota can be calculated; otherwise it is an
  EnvoyFilter that selects the pods by the selector of the service, overridden by the labels of the
  subset.\<close>

theorem generated_sets:
  assumes "fair ch" "converts_messages fw" "copies_maps fw"
    and "host_sets fw C w loc = Inr (map Some sbs)" "Get_Service C w loc = Inr svc"
    and "GenerateEnvoyConfigs fw C ch w spec material loc = Inr (conf, None)"
  shows "fset (fmdom (setsEnvoyFilter conf)) = Subset_Name ` set sbs
       \<and> (\<forall>k entry. fmlookup (setsEnvoyFilter conf) k = Some entry \<longrightarrow>
            (entry \<noteq> None \<longleftrightarrow>
               (\<exists>sd d a n. map_get (Sets spec) k = Some (Some sd) \<and> Some d \<in> set (elems (Descriptor_items sd))
                  \<and> CalculateTemplateBool fw (Condition d) (MapToMapInterface fw material) = Inr True
                  \<and> Action d = Some a \<and> CalculateTemplate fw (Quota a) (MapToMapInterface fw material) = Inr n))
          \<and> (\<forall>ef. entry = Some ef \<longrightarrow>
               (\<exists>sb \<in> set sbs. Subset_Name sb = k \<and> WorkloadSelector_Labels ef
                  = Some (map_items (Service_Selector svc) ++\<^sub>f map_items (Subset_Labels sb)))))"
proof -
  note sets = configs_of_sets [OF assms]
  have "entry \<noteq> None \<longleftrightarrow> set_valid fw spec (MapToMapInterface fw material) k \<noteq> []"
    if "fmlookup (setsEnvoyFilter conf) k = Some entry" for k entry
    using sets that by (cases entry) auto
  with sets show ?thesis unfolding set_valid_nonempty by (auto split: option.splits)
qed

theorem generated_sets_witness:
  "\<exists>conf. GenerateEnvoyConfigs ex_fw ex_client ascending ex_world ex_spec None ex_loc = Inr (conf, None)
     \<and> fset (fmdom (setsEnvoyFilter conf)) = {''v1'', ''v2'', ''_base''}
     \<and> fmlookup (setsEnvoyFilter conf) ''v1'' = Some None"
proof -
  obtain conf where conf:
    "GenerateEnvoyConfigs ex_fw ex_client ascending ex_world ex_spec None ex_loc = Inr (conf, None)"
    using ex_generates by blast
  note main = generated_sets [OF fair_ascending ex_fw_laws(2,1) ex_reads(3,1) conf]
  then have sets: "fset (fmdom (setsEnvoyFilter conf)) = {''v1'', ''v2'', ''_base''}"
    by (auto simp: ex_sets_def ex_subset_def)
  then obtain entry where entry: "fmlookup (setsEnvoyFilter conf) ''v1'' = Some entry"
    by (metis fmlookup_dom_iff insertI1)
  from main [THEN conjunct2, rule_format, OF this] have "entry = None" by (simp add: ex_spec_def)
  with conf sets entry show ?thesis by blast
qed

text \<open>C4: A descriptor of the evaluated set comes from one of the spec whose condition is true. It
  keeps the match, the target, the strategy and the interval, its custom key is dropped, and
  its quota is printed so that it reads back as the number the template evaluated to.\<close>

theorem evaluated_descriptors:
  assumes "valid_descriptors fw m ds = Inr vs" "v \<in> set vs"
  shows "\<exists>d a b n. Some d \<in> set ds \<and> CalculateTemplateBool fw (Condition d) m = Inr True
           \<and> Action d = Some a \<and> Action v = Some b
           \<and> CalculateTemplate fw (Quota a) m = Inr n \<and> Atoi (Quota b) = (n, None)
           \<and> FillInterval b = FillInterval a \<and> Strategy b = Strategy a
           \<and> Match v = Match d \<and> Target v = Target d \<and> \<not> custom v"
  by (rule valid_descriptors_member [OF assms])
    (drule evaluate_descriptor_Some, auto simp: Atoi_fmt_int)

theorem evaluated_descriptors_witness:
  "\<exists>v b. valid_descriptors ex_fw fmempty [Some (ex_descriptor ''single'')] = Inr [v]
     \<and> Action v = Some b \<and> Atoi (Quota b) = (100, None)"
proof -
  obtain v where v: "valid_descriptors ex_fw fmempty [Some (ex_descriptor ''single'')] = Inr [v]"
    using ex_valid by blast
  from evaluated_descriptors [OF v, of v] v show ?thesis
    by (auto simp: ex_descriptor_def ex_action_def ex_fw_def ex_quota_def)
qed

text \<open>C5: The token bucket of a descriptor whose quota was computed as \<open>n\<close> holds \<open>n\<close> modulo two to
  the 32nd, and is refilled by as many tokens: a negative quota becomes a huge one.\<close>

theorem bucket_size:
  assumes "Action d = Some a" "FillInterval a = Some f" "Quota a = fmt_int (sint (n :: 64 word))"
  shows "\<exists>b. generateTokenBucket d = Inr b \<and> uint (MaxTokens b) = sint n mod 2 ^ 32
           \<and> TokensPerFill b = MaxTokens b"
  using assms by (rule token_bucket_wraps)

theorem bucket_size_witness:
  "\<exists>b. generateTokenBucket \<lparr>Condition = '''', Action = Some \<lparr>Quota = fmt_int (sint (- 1 :: 64 word)),
          FillInterval = Some \<lparr>Seconds = 1, Nanos = 0\<rparr>, Strategy = ''single''\<rparr>,
          Match = None, Target = None, CustomKey = '''', CustomValue = ''''\<rparr> = Inr b
     \<and> uint (MaxTokens b) = 4294967295"
  using bucket_size [where n = "- 1" and a = "\<lparr>Quota = fmt_int (sint (- 1 :: 64 word)),
          FillInterval = Some \<lparr>Seconds = 1, Nanos = 0\<rparr>, Strategy = ''single''\<rparr>"
      and f = "\<lparr>Seconds = 1, Nanos = 0\<rparr>"
      and d = "\<lparr>Condition = '''', Action = Some \<lparr>Quota = fmt_int (sint (- 1 :: 64 word)),
          FillInterval = Some \<lparr>Seconds = 1, Nanos = 0\<rparr>, Strategy = ''single''\<rparr>,
          Match = None, Target = None, CustomKey = '''', CustomValue = ''''\<rparr>"] by auto

text \<open>C6: The identification of a descriptor is too weak to keep descriptors apart: two descriptors with the
  same header matches, whose texts differ in three adjacent bytes of which the first and the third are
  greater by one and the second is less by two, as in the quotas 131 and 212, have the same bucket
  entries and the same action, so that a request for the one counts for the other.\<close>

theorem similar_descriptors_collide:
  assumes "CompactTextString fw d = u @ [x, y, z] @ v" "CompactTextString fw d' = u @ [x', y', z'] @ v"
    and "of_char x' = of_char x + (1 :: nat)" "of_char y = of_char y' + (2 :: nat)"
    and "of_char z' = of_char z + (1 :: nat)"
    and "\<not> custom d" "\<not> custom d'" "Match d' = Match d"
  shows "generateLocalRateLimitDescriptorEntries fw d loc = generateLocalRateLimitDescriptorEntries fw d' loc
       \<and> generateRouteRateLimitAction fw d loc = generateRouteRateLimitAction fw d' loc"
  using descriptors_collide [OF descriptor_values_collide [OF assms(1-5)] assms(6-8)] by blast

theorem similar_descriptors_collide_witness:
  "generateRouteRateLimitAction (ex_fw\<lparr>CompactTextString := \<lambda>d. ''condition:'' @ Condition d\<rparr>)
       ((ex_descriptor ''single'')\<lparr>Condition := ''131''\<rparr>) ex_loc
   = generateRouteRateLimitAction (ex_fw\<lparr>CompactTextString := \<lambda>d. ''condition:'' @ Condition d\<rparr>)
       ((ex_descriptor ''single'')\<lparr>Condition := ''212''\<rparr>) ex_loc"
proof -
  let ?fw = "ex_fw\<lparr>CompactTextString := \<lambda>d. ''condition:'' @ Condition d\<rparr>"
  let ?d = "(ex_descriptor ''single'')\<lparr>Condition := ''131''\<rparr>"
  let ?d' = "(ex_descriptor ''single'')\<lparr>Condition := ''212''\<rparr>"
  have texts: "CompactTextString ?fw ?d = ''condition:'' @ [CHR ''1'', CHR ''3'', CHR ''1''] @ []"
    "CompactTextString ?fw ?d' = ''condition:'' @ [CHR ''2'', CHR ''1'', CHR ''2''] @ []" by simp_all
  have "\<not> custom ?d" "\<not> custom ?d'" "Match ?d' = Match ?d"
    by (simp_all add: ex_descriptor_def custom_def)
  from similar_descriptors_collide [OF texts _ _ _ this] show ?thesis by simp
qed

text \<open>C7: What a generated EnvoyFilter consists of, exactly. For every route some descriptor that is not
  custom uses it has one patch with the actions of these descriptors, and for every route some local
  descriptor uses one patch with the buckets of these; the route patches of either kind come in some
  order of the routes. Each matches its route in the direction of the first descriptor that uses it.
  Between them the global and the local rate limit filter are inserted once each, when a descriptor
  asks for them. So the EnvoyFilter is well formed: it has no nil patch, every patch of a route is
  merged into a route configuration, every patch of a filter is inserted, before a listener's filter
  if it names one.\<close>

theorem envoyfilter_is_well_formed:
  assumes "fair ch" "converts_messages fw"
    and "descriptorsToEnvoyFilter fw ch ds labels loc rls = Inr (Some ef)"
  shows "well_formed_envoyfilter ef \<and> WorkloadSelector_Labels ef = labels
       \<and> (\<exists>ks ks'. distinct ks \<and> set ks = {k. \<exists>d \<in> set ds. \<not> custom d \<and> k \<in> set (descriptor_keys d)}
            \<and> distinct ks' \<and> set ks' = {k. \<exists>d \<in> set ds. is_local d \<and> k \<in> set (descriptor_keys d)}
            \<and> ConfigPatches ef =
                map (\<lambda>k. Some (actions_patch fw loc ds k)) ks
              @ (if \<exists>d \<in> set ds. is_global d
                 then [generateEnvoyHttpFilterGlobalRateLimitPatch fw (getRateLimiterServerCluster rls)] else [])
              @ (if \<exists>d \<in> set ds. is_local d then [generateHttpFilterLocalRateLimitPatch fw] else [])
              @ map (\<lambda>k. Some (buckets_patch fw loc ds k)) ks')"
  using envoyfilter_well_formed [OF assms] envoyfilter_patches [OF assms]
  unfolding action_keys_def bucket_keys_def by blast

theorem envoyfilter_is_well_formed_witness:
  "\<exists>ef. descriptorsToEnvoyFilter ex_fw ascending [ex_descriptor ''single''] None ex_loc '''' = Inr (Some ef)
     \<and> well_formed_envoyfilter ef \<and> length (ConfigPatches ef) = 3
     \<and> map_option Patch_Match (hd (ConfigPatches ef)) = Some (Some
         \<lparr>Context = SIDECAR_INBOUND, ObjectTypes = RouteConfigurationMatch '''' ''default''\<rparr>)"
proof -
  let ?ds = "[ex_descriptor ''single'']"
  obtain ef where ef: "descriptorsToEnvoyFilter ex_fw ascending ?ds None ex_loc '''' = Inr (Some ef)"
    using ex_envoyfilter by blast
  have keys: "{k. \<exists>d \<in> set ?ds. \<not> custom d \<and> k \<in> set (descriptor_keys d)} = {''/default''}"
    "{k. \<exists>d \<in> set ?ds. is_local d \<and> k \<in> set (descriptor_keys d)} = {''/default''}"
    "(\<exists>d \<in> set ?ds. is_global d) \<longleftrightarrow> False" "(\<exists>d \<in> set ?ds. is_local d) \<longleftrightarrow> True"
    by (simp_all add: ex_descriptor_facts)
  obtain ks ks' where wf: "well_formed_envoyfilter ef"
    and ks: "distinct ks" "set ks = {''/default''}" "distinct ks'" "set ks' = {''/default''}"
    and patches: "ConfigPatches ef = map (\<lambda>k. Some (actions_patch ex_fw ex_loc ?ds k)) ks @ []
        @ [generateHttpFilterLocalRateLimitPatch ex_fw] @ map (\<lambda>k. Some (buckets_patch ex_fw ex_loc ?ds k)) ks'"
    using envoyfilter_is_well_formed [OF fair_ascending ex_fw_laws(2) ef, unfolded keys if_True if_False]
    by (elim conjE exE) (rule that)
  have "xs = [x]" if "distinct xs" "set xs = {x}" for xs and x :: string
    using that by (cases xs) (auto simp: subset_singleton_iff)
  then have "ks = [''/default'']" "ks' = [''/default'']" using ks by blast+
  moreover have "route_match (not_custom ?ds) ''/default''
      = \<lparr>Context = SIDECAR_INBOUND, ObjectTypes = RouteConfigurationMatch '''' ''default''\<rparr>"
    by (simp add: not_custom_def ex_descriptor_facts route_match_def uses_of_def target_uses_def use_match_def
        key_route_def) (simp add: ex_descriptor_def)
  ultimately show ?thesis using ef wf patches by (simp add: actions_patch_def)
qed

text \<open>C8: Which lists of route patches the code can produce, given that Go leaves the order of a
  \<open>range\<close> over a map open: exactly the lists with one patch for each route that a descriptor uses
  which is not custom, in any order. The patches themselves do not depend on the order: a patch has the
  actions of the descriptors that use its route, in their order, and the match of the first of them.\<close>

theorem patch_order_is_free:
  assumes "converts_messages fw" "\<forall>d \<in> set ds. custom d \<or> no_nil_match d"
  shows "{ps. \<exists>ch. fair ch \<and> generateHttpRouterPatch fw ch ds loc = Inr (Inr ps)} =
           {map (\<lambda>k. \<lparr>ApplyTo = HTTP_ROUTE, Patch_Match = Some (route_match (not_custom ds) k),
                      Patch = \<lparr>Operation = MERGE,
                        Patch_Value = struct_of fw (route_message (map Some (actions_at fw loc ds k)))\<rparr>\<rparr>) ks
            | ks. distinct ks \<and> set ks = {k. \<exists>d \<in> set ds. \<not> custom d \<and> k \<in> set (descriptor_keys d)}}"
  (is "?l = {map ?f ks | ks. ?p ks}")
proof -
  have patch: "?f = actions_patch fw loc ds" by (simp add: actions_patch_def fun_eq_iff)
  show ?thesis
  proof (intro equalityI subsetI)
    fix ps assume "ps \<in> ?l"
    then obtain ch where "fair ch" "generateHttpRouterPatch fw ch ds loc = Inr (Inr ps)" by blast
    from router_patches_exact [OF this(1) assms(1) this(2)] show "ps \<in> {map ?f ks | ks. ?p ks}"
      unfolding patch action_keys_def by blast
  next
    fix ps assume "ps \<in> {map ?f ks | ks. ?p ks}"
    then obtain ks where "ps = map (actions_patch fw loc ds) ks" "distinct ks" "set ks = action_keys ds"
      unfolding patch action_keys_def by blast
    with router_patches_any_order [OF assms] show "ps \<in> ?l" by blast
  qed
qed

theorem patch_order_is_free_witness:
  "\<exists>ps. {ps. \<exists>ch. fair ch \<and> generateHttpRouterPatch ex_fw ch [ex_descriptor ''single''] ex_loc = Inr (Inr ps)} = {ps}
     \<and> length ps = 1"
proof -
  have total: "\<forall>d \<in> set [ex_descriptor ''single'']. custom d \<or> no_nil_match d"
    by (simp add: ex_descriptor_facts)
  have "distinct ks \<and> set ks = {x} \<longleftrightarrow> ks = [x]" for ks and x :: string
    by (cases ks) (auto simp: subset_singleton_iff)
  then show ?thesis
    unfolding patch_order_is_free [OF ex_fw_laws(2) total] by (auto simp: ex_descriptor_facts)
qed

text \<open>C9: The routes of a target are used exactly as written: there is one route configuration, in order, for
  each of its routes of the form \<open>vhost/route\<close>, and a default one for each inbound port where it has
  no routes at all. Its key is the route, and it matches the virtual host and the route that the key
  splits into, outbound if the target is, otherwise inbound. Two configurations match the same requests
  exactly when they have the same key and the same direction: the key alone, by which the code groups
  them, does not fix the direction.\<close>

theorem target_routes:
  "map (\<lambda>rc. (genVhostRouteName rc, generateEnvoyVhostMatch rc)) (generateRouteConfigs target) =
     map (\<lambda>(k, outbound). (k, \<lparr>Context = if outbound then SIDECAR_OUTBOUND else SIDECAR_INBOUND,
                               ObjectTypes = key_route k\<rparr>))
       (case target of
          None \<Rightarrow> [(''/default'', False)]
        | Some t \<Rightarrow>
            if elems (Route t) = [] then [(inbound_key (Port t), False)]
            else map (\<lambda>r. (r, Direction t = ''outbound''))
                   (filter (\<lambda>r. count_list r (CHR ''/'') = 1) (elems (Route t))))
   \<and> (inbound_key p = inbound_key q \<longleftrightarrow> p = q)
   \<and> (\<forall>rc \<in> set (generateRouteConfigs target).
        strings_Split (CHR ''/'') (genVhostRouteName rc) = [rc_vhostName rc, rc_routeName rc])
   \<and> (\<forall>rc \<in> set (generateRouteConfigs target). \<forall>rc' \<in> set (generateRouteConfigs target').
        generateEnvoyVhostMatch rc = generateEnvoyVhostMatch rc' \<longleftrightarrow>
        genVhostRouteName rc = genVhostRouteName rc'
        \<and> (rc_direction rc = ''outbound'' \<longleftrightarrow> rc_direction rc' = ''outbound''))"
proof -
  have "map (\<lambda>rc. (genVhostRouteName rc, generateEnvoyVhostMatch rc)) (generateRouteConfigs target)
      = map (\<lambda>u. (fst u, use_match u)) (map config_use (generateRouteConfigs target))"
    using config_match by (simp add: config_use_def)
  then have "map (\<lambda>rc. (genVhostRouteName rc, generateEnvoyVhostMatch rc)) (generateRouteConfigs target)
      = map (\<lambda>u. (fst u, use_match u)) (target_uses target)"
    unfolding config_uses .
  moreover have "(\<lambda>u. (fst u, use_match u)) = (\<lambda>(k, outbound).
      (k, \<lparr>Context = if outbound then SIDECAR_OUTBOUND else SIDECAR_INBOUND, ObjectTypes = key_route k\<rparr>))"
    by (auto simp: use_match_def fun_eq_iff)
  ultimately show ?thesis
    using config_matches_iff route_key_split inbound_key_inject
    unfolding target_uses_def config_use_def prod.inject by (intro conjI) simp_all
qed

theorem target_routes_witness:
  "map genVhostRouteName (generateRouteConfigs (Some \<lparr>Direction = ''outbound'', Port = 0,
      Route = Some [''a.com:80/r'', ''bad'', ''b.com:80/s''], Host = None\<rparr>))
     = [''a.com:80/r'', ''b.com:80/s'']
   \<and> inbound_key 80 \<noteq> inbound_key 81"
proof -
  let ?t = "\<lparr>Direction = ''outbound'', Port = 0, Route = Some [''a.com:80/r'', ''bad'', ''b.com:80/s''], Host = None\<rparr>"
  have filtered: "filter (\<lambda>r. count_list r (CHR ''/'') = 1) [''a.com:80/r'', ''bad'', ''b.com:80/s'']
      = [''a.com:80/r'', ''b.com:80/s'']" by simp
  note main = target_routes [of "Some ?t" 80 81 None]
  from arg_cong [OF conjunct1 [OF main], of "map fst"]
  have "map genVhostRouteName (generateRouteConfigs (Some ?t)) = [''a.com:80/r'', ''b.com:80/s'']"
    using filtered by (simp add: comp_def)
  moreover have "inbound_key 80 \<noteq> inbound_key 81" using main by auto
  ultimately show ?thesis by blast
qed

text \<open>C10: The descriptors for the rate-limit service are those of the global descriptors of the
  set up to the first one with a quota or an interval the service does not support.\<close>

theorem global_descriptors:
  assumes "\<forall>d \<in> set ds. Action d \<noteq> None" "\<forall>d \<in> set ds. is_global d \<longrightarrow> well_timed d"
  shows "descriptorsToGlobalRateLimit fw ds loc =
           Inr (List.map_filter (global_item fw loc)
                 (takeWhile (\<lambda>d. global_item fw loc d \<noteq> None) (filter is_global ds)))"
  using assms by (rule descriptorsToGlobalRateLimit_eq)

theorem global_descriptors_witness:
  "\<exists>item. descriptorsToGlobalRateLimit ex_fw [ex_descriptor ''single'', ex_descriptor ''global''] ex_loc
       = Inr [item] \<and> Descriptor_RateLimit item = Some \<lparr>RequestsPerUnit = 100, Unit = ''MINUTE''\<rparr>"
proof -
  obtain item where "global_item ex_fw ex_loc (ex_descriptor ''global'') = Some item"
    "Descriptor_RateLimit item = Some \<lparr>RequestsPerUnit = 100, Unit = ''MINUTE''\<rparr>"
    using ex_global_item by blast
  with global_descriptors [of "[ex_descriptor ''single'', ex_descriptor ''global'']" ex_fw ex_loc]
  show ?thesis by (simp add: ex_descriptor_facts)
qed



section \<open>Properties of applying it to the cluster\<close>

text \<open>C12: After a refresh, the stored EnvoyFilter of every set of the host is what the evaluated
  descriptors of the set ask for (absent when there are none, otherwise with the text of the
  generated spec, unless it belongs to another Istio revision). Only a set whose own calls can
  fail may miss this: its EnvoyFilter is then as before, and the other sets are not affected.
  Every other EnvoyFilter of the cluster is as before.\<close>

theorem refresh_realises_the_spec:
  assumes "fair ch" "converts_messages fw" "copies_maps fw"
    and "stores_envoyfilters C stored" "sets_owner_only fw"
    and "Sets (SL_Spec sl) \<noteq> None" "Get_Service C w (object_loc sl) = Inr svc"
    and "host_sets fw C w (object_loc sl) = Inr (map Some sbs)"
    and "refresh fw M C ch r sl w = Inr (w', e)"
  shows "(\<forall>k \<in> Subset_Name ` set sbs. \<exists>spec.
            wanted_spec fw sl (MapToMapInterface fw (getMaterial fw M r (object_loc sl)))
              (Service_Selector svc) sbs k spec
          \<and> (as_wanted fw sl spec (stored w (set_loc fw sl k)) (stored w' (set_loc fw sl k))
             \<or> \<not> calls_succeed fw C sl (set_loc fw sl k)
               \<and> stored w' (set_loc fw sl k) = stored w (set_loc fw sl k)))
       \<and> (\<forall>loc. loc \<notin> set_loc fw sl ` Subset_Name ` set sbs \<longrightarrow> stored w' loc = stored w loc)"
  using refresh_reconciles [OF assms] by blast

theorem refresh_realises_the_spec_witness:
  "\<exists>w' e. refresh ex_fw fmap_cmap ex_refusing ascending ex_reconciler ex_limiter ex_leftover_world = Inr (w', e)
     \<and> envoyfilters ex_leftover_world (set_loc ex_fw ex_limiter ''_base'') = None
     \<and> (\<exists>cr. envoyfilters w' (set_loc ex_fw ex_limiter ''_base'') = Some cr)
     \<and> envoyfilters w' (set_loc ex_fw ex_limiter ''v2'') = None
     \<and> envoyfilters w' \<lparr>NN_Namespace = ''default'', NN_Name = ''other''\<rparr> = None"
proof -
  obtain w' e where run:
    "refresh ex_fw fmap_cmap ex_refusing ascending ex_reconciler ex_limiter ex_leftover_world = Inr (w', e)"
    using ex_refused by blast
  let ?m = "MapToMapInterface ex_fw (getMaterial ex_fw fmap_cmap ex_reconciler (object_loc ex_limiter))"
  note main = refresh_realises_the_spec [OF fair_ascending ex_fw_laws(2,1) ex_refusing_laws(1)
      ex_fw_laws(3) ex_sets(1) ex_refusing_reads run]
  have before: "envoyfilters ex_leftover_world loc = None" if "loc \<noteq> set_loc ex_fw ex_limiter ''v1''" for loc
    using that by (simp add: ex_leftover_world_def ex_world_def)
  have absent: "set_valid ex_fw ex_spec ?m ''v2'' = []" by (simp add: set_valid_def ex_spec_def)
  have "envoyfilters w' (set_loc ex_fw ex_limiter ''v2'') = None"
    using main absent before by (auto simp: ex_sets_def ex_subset_def wanted_spec_def as_wanted_def)
  moreover have "\<exists>cr. envoyfilters w' (set_loc ex_fw ex_limiter ''_base'') = Some cr"
    using main before ex_refusing_base by (auto simp: ex_sets_def intro: ex_base_stored)
  moreover have "envoyfilters w' \<lparr>NN_Namespace = ''default'', NN_Name = ''other''\<rparr> = None"
    using main before by (auto simp: ex_sets_def ex_subset_def set_loc_def envoyfilter_name_def ex_limiter_def)
  ultimately show ?thesis using run before by auto
qed

text \<open>C13: A refresh writes to the status, for exactly the sets of the host that have evaluated
  descriptors, those descriptors, and the metrics it evaluated them with.\<close>

theorem refresh_writes_status:
  assumes "Sets (SL_Spec sl) \<noteq> None" "Get_Service C w (object_loc sl) = Inr svc"
    and "host_sets fw C w (object_loc sl) = Inr (map Some sbs)"
    and "refresh fw M C ch r sl w = Inr (w', e)"
  shows "\<exists>w2 status. Update_Status C w2 (sl\<lparr>SL_Status := \<lparr>RatelimitStatus = Some status,
             MetricStatus = getMaterial fw M r (object_loc sl)\<rparr>\<rparr>) = (w', e)
           \<and> (\<forall>k. fmlookup status k =
                (let vs = set_valid fw (SL_Spec sl)
                            (MapToMapInterface fw (getMaterial fw M r (object_loc sl))) k
                 in if k \<in> Subset_Name ` set sbs \<and> vs \<noteq> [] then Some (status_entry vs) else None))"
  using assms by (rule refresh_status)

theorem refresh_writes_status_witness:
  "\<exists>w' w2 status. refresh ex_fw fmap_cmap ex_client0 ascending ex_reconciler ex_limiter ex_world = Inr (w', None)
     \<and> limiters w' ex_loc = Some (ex_limiter\<lparr>SL_Status := \<lparr>RatelimitStatus = Some status, MetricStatus = None\<rparr>\<rparr>)
     \<and> fmlookup status ''v1'' = None \<and> fmlookup status ''_base'' \<noteq> None"
proof -
  obtain w' e where run:
    "refresh ex_fw fmap_cmap ex_client0 ascending ex_reconciler ex_limiter ex_world = Inr (w', e)"
    using ex_refresh by blast
  let ?m = "getMaterial ex_fw fmap_cmap ex_reconciler ex_loc"
  have service: "Get_Service ex_client0 ex_world (object_loc ex_limiter) = Inr ex_service"
    and sets: "host_sets ex_fw ex_client0 ex_world (object_loc ex_limiter) = Inr (map Some ex_sets)" by simp_all
  from refresh_writes_status [OF ex_sets(1) service sets run] obtain w2 status where
    st: "Update_Status ex_client0 w2 (ex_limiter\<lparr>SL_Status := \<lparr>RatelimitStatus = Some status,
           MetricStatus = ?m\<rparr>\<rparr>) = (w', e)"
      "\<And>k. fmlookup status k = (let vs = set_valid ex_fw ex_spec (MapToMapInterface ex_fw ?m) k
         in if k \<in> Subset_Name ` set ex_sets \<and> vs \<noteq> [] then Some (status_entry vs) else None)"
    by auto
  have m: "?m = None" by (simp add: getMaterial_def ex_reconciler_def fmap_cmap_def)
  have "e = None" "limiters w' ex_loc = Some (ex_limiter\<lparr>SL_Status := \<lparr>RatelimitStatus = Some status,
      MetricStatus = ?m\<rparr>\<rparr>)"
    using st(1) by (auto simp: ex_client0_def ex_client_def ex_loc_def object_loc_def ex_limiter_def)
  moreover have "fmlookup status ''v1'' = None" by (simp add: st(2) set_valid_def ex_spec_def Let_def)
  moreover have "fmlookup status ''_base'' \<noteq> None"
    using ex_base_valid by (simp add: st(2) Let_def ex_sets_def status_entry_def)
  ultimately show ?thesis using run m by auto
qed

text \<open>C14: With a spec without nil pointers, a ConfigMap that holds a config without nil entries, where it
  holds one at all, and a service mapping that holds for the host a slice of subsets without nil
  pointers, or nothing, a refresh ends without a panic.\<close>

theorem refresh_never_panics:
  assumes "fair ch" "converts_messages fw" "copies_maps fw" "complete_spec (SL_Spec sl)"
    and "sound_configmaps fw C" "host_sets fw C w (object_loc sl) = Inr (map Some sbs)"
  shows "\<exists>w' e. refresh fw M C ch r sl w = Inr (w', e)"
  using assms by (rule refresh_total)

theorem refresh_never_panics_witness:
  "\<exists>w' e. refresh ex_fw fmap_cmap ex_client0 descending ex_reconciler ex_limiter ex_world = Inr (w', e)"
  using refresh_never_panics [of descending ex_fw ex_limiter ex_client0 ex_world ex_sets fmap_cmap
      ex_reconciler] by simp

text \<open>C15: A refresh replaces the descriptors of its service in the ConfigMap: those whose value
  mentions \<open>name.namespace\<close> go, the new ones are appended, the others stay in order; nothing
  is written when the data are already so.\<close>

theorem configmap_update:
  assumes "Get_ConfigMap C w getConfigMapNamespaceName = Inr cm"
    and "holds_config fw cm (Some rc)" and "None \<notin> set (RLC_Descriptors rc)"
  shows "refreshConfigMap fw C desc loc w =
           (let ds = merged_descriptors loc (RLC_Descriptors rc) desc
            in Inr (if CM_Data cm = configmap_data fw ds then w
                    else fst (Update_ConfigMap C w ((constructConfigMap fw ds)
                           \<lparr>CM_ResourceVersion := CM_ResourceVersion cm\<rparr>))))"
  using assms by (rule refreshConfigMap_writes)

theorem configmap_update_witness:
  "\<exists>w'. refreshConfigMap ex_fw ex_client [] ex_loc
           (ex_world\<lparr>configmaps := \<lambda>_. Some (ex_configmap [ex_entry ''page.default''])\<rparr>) = Inr w'
     \<and> (CM_Data (ex_configmap [ex_entry ''page.default'']) = configmap_data ex_fw []
        \<or> map_option CM_Data (configmaps w' getConfigMapNamespaceName) = Some (configmap_data ex_fw []))"
proof -
  let ?cm = "ex_configmap [ex_entry ''page.default'']"
  let ?w = "ex_world\<lparr>configmaps := \<lambda>_. Some ?cm\<rparr>"
  have get: "Get_ConfigMap ex_client ?w getConfigMapNamespaceName = Inr ?cm"
    by (simp add: ex_client_def found_def)
  have merged: "merged_descriptors ex_loc [Some (ex_entry ''page.default'')] [] = []"
    by (simp add: merged_descriptors_def of_other_services_def ex_entry_def service_info_def ex_loc_def)
  from configmap_update [OF get ex_configmap_holds, of "[]" ex_loc]
  show ?thesis
    by (auto simp: merged Let_def ex_client_def constructConfigMap_loc)
qed

text \<open>C16: The update of the ConfigMap is idempotent: when the ConfigMap holds what a refresh of
  the service wrote, refreshing with the same descriptors writes nothing.\<close>

theorem configmap_update_idempotent:
  assumes "yaml_round_trip fw" "None \<notin> set ds"
    and "\<forall>d \<in> set desc. \<exists>x. Value d = generateDescriptorValue fw x loc"
    and "Get_ConfigMap C w getConfigMapNamespaceName = Inr cm"
    and "CM_Data cm = configmap_data fw (merged_descriptors loc ds desc)"
  shows "refreshConfigMap fw C desc loc w = Inr w"
proof -
  have "\<forall>d \<in> set desc. strings_Contains (Value d) (service_info loc)"
    using assms(3) descriptor_value_service by metis
  from refreshConfigMap_stable [OF assms(1,2) this assms(4,5)] show ?thesis .
qed

theorem configmap_update_idempotent_witness:
  "refreshConfigMap ex_fw ex_client [] ex_loc
     (ex_world\<lparr>configmaps := \<lambda>_. Some (constructConfigMap ex_fw (merged_descriptors ex_loc [] []))\<rparr>)
   = Inr (ex_world\<lparr>configmaps := \<lambda>_. Some (constructConfigMap ex_fw (merged_descriptors ex_loc [] []))\<rparr>)"
  by (rule configmap_update_idempotent [where ds = "[]"
        and cm = "constructConfigMap ex_fw (merged_descriptors ex_loc [] [])"])
    (simp_all add: ex_client_def found_def)

text \<open>C17: Which descriptors of another service a refresh removes from the ConfigMap: exactly
  those of services whose \<open>name.namespace\<close> has the refreshed service's as a substring.\<close>

theorem configmap_interference:
  assumes "bracket_free loc" "Value d = generateDescriptorValue fw x other"
  shows "other_services (service_info loc) [Some d] =
           Inr (if strings_Contains (service_info other) (service_info loc) then [] else [Some d])"
  using value_contains_iff [OF assms(1), of fw x other] assms(2) by simp

theorem configmap_interference_witness:
  "other_services ''page.default'' [Some \<lparr>Key = ''generic_key'',
     Value = generateDescriptorValue ex_fw (ex_descriptor ''global'')
               \<lparr>NN_Namespace = ''default'', NN_Name = ''productpage''\<rparr>,
     Descriptor_RateLimit = None\<rparr>] = Inr []"
proof -
  have "bracket_free ex_loc" by (simp add: bracket_free_def ex_loc_def)
  from configmap_interference [OF this, of "\<lparr>Key = ''generic_key'',
     Value = generateDescriptorValue ex_fw (ex_descriptor ''global'')
               \<lparr>NN_Namespace = ''default'', NN_Name = ''productpage''\<rparr>,
     Descriptor_RateLimit = None\<rparr>" ex_fw "ex_descriptor ''global''"
      "\<lparr>NN_Namespace = ''default'', NN_Name = ''productpage''\<rparr>"]
  show ?thesis by (simp add: service_info_def ex_loc_def)
qed

text \<open>C18: Any number of goroutines may be in the middle of updating the ConfigMap, each from a version
  that may be old: at all times the ConfigMap holds what the successful updates leave when they are
  done one after the other, in the order of their writes. So a descriptor that was written stays
  until an update for a service whose name.namespace occurs in its value.\<close>

theorem configmap_updates_are_serialised:
  assumes "versions_configmaps C current issued" "yaml_round_trip fw"
    and "reachable (writer_init fw current ds) (writer_step fw C current issued) (w, pending, js)"
  shows "stores_descriptors fw current w (fold apply_job js ds)
       \<and> (\<forall>before loc desc later. \<forall>d \<in> set desc. js = before @ (loc, desc) # later \<longrightarrow>
            (\<forall>(loc', _) \<in> set later. \<not> strings_Contains (Value d) (service_info loc')) \<longrightarrow>
            Some d \<in> set (fold apply_job js ds))"
proof (intro conjI allI ballI impI)
  show "stores_descriptors fw current w (fold apply_job js ds)"
    by (rule updates_serialised [OF assms])
  fix before loc desc later d
  assume d: "d \<in> set desc" and js: "js = before @ (loc, desc) # later"
    and "\<forall>(loc', _) \<in> set later. \<not> strings_Contains (Value d) (service_info loc')"
  moreover have "Some d \<in> set (apply_job (loc, desc) (fold apply_job before ds))"
    using d by (simp add: apply_job_def merged_descriptors_def)
  ultimately show "Some d \<in> set (fold apply_job js ds)"
    unfolding js by (simp add: fold_apply_job_keeps)
qed

theorem configmap_updates_are_serialised_witness:
  "\<exists>w. reachable (writer_init ex_fw now []) (writer_step ex_fw ex_versions now past)
         (w, \<lambda>_ :: bool. None, [(ex_loc, [ex_entry ''one''])])
     \<and> stores_descriptors ex_fw now w [Some (ex_entry ''one'')]"
proof -
  obtain w where w: "reachable (writer_init ex_fw now []) (writer_step ex_fw ex_versions now past)
      (w, \<lambda>_ :: bool. None, [(ex_loc, [ex_entry ''one''])])"
    using ex_two_writers by blast
  from configmap_updates_are_serialised [OF ex_versions_laws yaml_round_trip_ex w, THEN conjunct1]
  have "stores_descriptors ex_fw now w [Some (ex_entry ''one'')]"
    by (simp add: apply_job_def merged_descriptors_def)
  with w show ?thesis by blast
qed

section \<open>Properties of the metrics\<close>



text \<open>C20: Whatever metrics the channels deliver, in whatever order and number, \<open>WatchMetric\<close> does not
  panic: it works through all of them, and afterwards no entry of \<open>metricInfo\<close> has a nil map, so the
  same holds for all that come later. It needs that every group metric has a value, that no entry of
  \<open>metricInfo\<close> has a nil map to start with, that every stored SmartLimiter is complete and the service
  mapping holds for its host a slice of subsets without nil pointers, or nothing, and that the ConfigMap
  holds a config without nil descriptors. Failing calls to the API server do not matter.\<close>

theorem watch_never_panics:
  assumes "converts_messages fw" "copies_maps fw" "concurrent_map M"
    and "sound_configmaps fw C" "sound_objects fw C"
    and "fair ch" "infos_present M (metricInfo r)"
    and "\<forall>c m. Received c m \<in> set events \<longrightarrow> values_present J m"
  shows "\<exists>r' w'. WatchMetric fw J M C ch events (r, w) = Inr (r', w') \<and> infos_present M (metricInfo r')"
  using assms by (rule WatchMetric_total)

theorem watch_never_panics_witness:
  "\<exists>r' w'. WatchMetric ex_fw ex_json fmap_cmap ex_client1 ascending
       [Received WatcherMetricChan ex_group_metric, Received TickerMetricChan ex_group_metric] (ex_reconciler, ex_world)
     = Inr (r', w')"
proof -
  let ?events = "[Received WatcherMetricChan ex_group_metric, Received TickerMetricChan ex_group_metric]"
  have "infos_present fmap_cmap (metricInfo ex_reconciler)"
    by (simp add: infos_present_def ex_reconciler_def fmap_cmap_def)
  moreover have "\<forall>c m. Received c m \<in> set ?events \<longrightarrow> values_present ex_json m"
    using ex_values_present by auto
  ultimately show ?thesis
    using watch_never_panics [OF ex_fw_laws(2,1) concurrent_map_fmap_cmap ex_client1_laws fair_ascending]
    by blast
qed

text \<open>C21: What the map of pods by subset holds after an event, when the subsets known for the host have
  no nil pointer among them: under a name, each pod, in order, once for every subset of this name whose
  labels the pod's labels contain, and under the name of the base set all pods after that. So if the
  names are distinct and none is the base set's, the base set has all pods and each subset those whose
  labels contain the subset's; with a repeated name, or a subset named like the base set, pods are
  counted more than once.\<close>

theorem pods_by_subset:
  assumes "known_subsets fw C w loc = map Some sbs"
  shows "\<exists>m. querySubsetPods fw C w ps loc = Inr (m, None)
       \<and> (\<forall>k. pods_under m k =
            concat (map (\<lambda>pod. replicate
                (length (filter (\<lambda>sb. Subset_Name sb = k \<and> in_subset fw pod sb) sbs)) (Pod_Name pod)) ps)
            @ (if k = Wellkonw_BaseSet fw then map Pod_Name ps else []))
       \<and> (distinct (map Subset_Name sbs) \<longrightarrow> Wellkonw_BaseSet fw \<notin> Subset_Name ` set sbs \<longrightarrow>
            pods_under m (Wellkonw_BaseSet fw) = map Pod_Name ps
            \<and> (\<forall>sb \<in> set sbs. pods_under m (Subset_Name sb)
                 = map Pod_Name (filter (\<lambda>pod. in_subset fw pod sb) ps)))"
  using querySubsetPods_eq [OF assms, where pods = ps] pods_under_subset_map [of fw sbs ps]
    subset_pods_of [of sbs fw, where pods = ps] by blast

theorem pods_by_subset_witness:
  "\<exists>m. querySubsetPods ex_fw ex_client ex_world [ex_pod ''v1'', ex_pod ''v2''] ex_loc = Inr (m, None)
     \<and> pods_under m ''_base'' = [''v1'', ''v2''] \<and> pods_under m ''v1'' = [''v1'']"
proof -
  have names: "Subset_Name (ex_subset x) = x" "Pod_Name (ex_pod x) = x" for x
    by (simp_all add: ex_subset_def ex_pod_def)
  show ?thesis
    using pods_by_subset [OF ex_known [of ex_loc], of "[ex_pod ''v1'', ex_pod ''v2'']"]
    by (auto simp: names ex_base ex_in_subset)
qed

section \<open>Properties of the controller\<close>

text \<open>C22: In every reachable state of the controller, the keys of the interest map are
  \<open>namespace/name\<close> keys of requests with the value \<open>struct{}{}\<close>, the values of
  \<open>metricInfo\<close> are \<open>*Endpoints\<close> stored under the key of their own location, and the
  environment is the one it was started with.\<close>

theorem controller_invariant:
  assumes "concurrent_map M" "reachable (limiter_init newClient M env) (limiter_step fw J M C) (r, w)"
  shows "r_env r = env
       \<and> (\<forall>k v. cmap_Get M (interest r) k = Some v \<longrightarrow> v = EmptyStruct \<and> (\<exists>nn. k = request_key nn))
       \<and> (\<forall>k v. cmap_Get M (metricInfo r) k = Some v \<longrightarrow>
            (\<exists>ep. v = EndpointsPtr ep \<and> k = request_key (Endpoints_Location ep)))"
  using limiter_reachable_inv [OF assms]
  by (simp add: limiter_inv_def interest_keys_def metric_entries_def)

theorem controller_invariant_witness:
  "\<exists>r. reachable (limiter_init ex_new_client fmap_cmap ex_env) (limiter_step ex_fw ex_json fmap_cmap ex_client)
         (r, ex_world)
     \<and> cmap_Get fmap_cmap (interest r) (request_key ex_loc) = Some EmptyStruct \<and> r_env r = ex_env"
proof -
  obtain r where r: "reachable (limiter_init ex_new_client fmap_cmap ex_env)
      (limiter_step ex_fw ex_json fmap_cmap ex_client) (r, ex_world)"
    "cmap_Get fmap_cmap (interest r) (request_key ex_loc) = Some EmptyStruct"
    using ex_reachable by blast
  from controller_invariant [OF concurrent_map_fmap_cmap r(1)] r show ?thesis by blast
qed

text \<open>C23: In every reachable state, whatever happened before, the periodic event ends without a
  panic, as long as no slice of subsets in the service mapping has a nil pointer: splitting the keys
  of the interest map always gives a namespace and a name, and a configured handler is never nil
  when none was to start with.\<close>

theorem ticker_never_panics:
  assumes "concurrent_map M" "fair ch" "handlers_present env" "sound_subsets C"
    and "reachable (limiter_init newClient M env) (limiter_step fw J M C) (r, w)"
  shows "\<exists>q. handleTickerEvent fw J M C ch r w = Inr (Some q)"
  using handleTickerEvent_total [OF assms(2,1) limiter_reachable_inv [OF assms(1,5)] assms(3,4)] .

theorem ticker_never_panics_witness:
  "\<exists>r q. cmap_Get fmap_cmap (interest r) (request_key ex_loc) = Some EmptyStruct
     \<and> handleTickerEvent ex_fw ex_json fmap_cmap ex_client ascending r ex_world = Inr (Some q)"
proof -
  obtain r where r: "reachable (limiter_init ex_new_client fmap_cmap ex_env)
      (limiter_step ex_fw ex_json fmap_cmap ex_client) (r, ex_world)"
    "cmap_Get fmap_cmap (interest r) (request_key ex_loc) = Some EmptyStruct"
    using ex_reachable by blast
  have "handlers_present ex_env" by (simp add: handlers_present_def ex_env_def)
  from ticker_never_panics [OF concurrent_map_fmap_cmap fair_ascending this ex_client_subsets r(1)] r(2) show ?thesis by blast
qed

text \<open>C24: In local mode, the periodic event asks for every object of interest whose pods can be listed
  (and whose known subsets have no nil pointer among them), and the answer, however late it is
  consumed and in whatever state, stores for that object in \<open>metricInfo\<close> the number of pods of each
  subset at the time of the question, as the text of a 64-bit number; the entry of a subset without pods
  is left as it was. The answer may have items for other objects, too; it needs only that no second item
  is for this one, and that the object's entry in \<open>metricInfo\<close>, if it has one, has a map that is not nil.\<close>

theorem pod_counts_arrive:
  assumes "fair ch" "fair ch'" "concurrent_map M" "json_round_trip J (service_meta fw C w nn)"
    and "\<not> adaptive_enabled (r_env r)"
    and "handleTickerEvent fw J M C ch r w = Inr (Some q)"
    and "cmap_Get M (interest r) (request_key nn) \<noteq> None" "slash_free nn"
    and "snd (queryServicePods fw C w nn) = None" "known_subsets fw C w nn = map Some sbs"
  shows "\<exists>t meta m. t |\<in>| fmdom q \<and> Unmarshal_StaticMeta J t = Inr meta \<and> meta_loc meta = nn
       \<and> querySubsetPods fw C w (fst (queryServicePods fw C w nn)) nn = Inr (m, None)
       \<and> (\<forall>metric s r' w' old. map_get metric t = Some [] \<longrightarrow> only_item J t nn metric \<longrightarrow>
            stored_info M (metricInfo (fst s)) nn old \<longrightarrow> ConsumeMetric fw J M C ch' metric s = Inr (r', w') \<longrightarrow>
            (\<exists>info. info_at M (metricInfo r') nn = Some (Some info)
               \<and> (\<forall>k. fmlookup info (k @ ''.pod'') =
                    (let n = of_nat (length (pods_under m k)) :: 64 word
                     in if n = 0 then fmlookup old (k @ ''.pod'') else Some (fmt_int (sint n))))))"
proof (intro exI conjI allI impI)
  let ?meta = "service_meta fw C w nn" and ?m = "subset_map fw sbs (fst (queryServicePods fw C w nn))"
  show "StaticMeta_String J ?meta |\<in>| fmdom q"
    using handleTickerEvent_local [OF assms(1,3-10)] .
  show "Unmarshal_StaticMeta J (StaticMeta_String J ?meta) = Inr ?meta"
    by (rule json_round_tripD(2) [OF assms(4)])
  show loc: "meta_loc ?meta = nn" by (simp add: meta_loc_def service_meta_def)
  show "querySubsetPods fw C w (fst (queryServicePods fw C w nn)) nn = Inr (?m, None)"
    by (rule querySubsetPods_eq [OF assms(10)])
  fix metric s r' w' old
  assume answer: "map_get metric (StaticMeta_String J ?meta) = Some []"
    "only_item J (StaticMeta_String J ?meta) nn metric"
    "stored_info M (metricInfo (fst s)) nn old" "ConsumeMetric fw J M C ch' metric s = Inr (r', w')"
  have run: "ConsumeMetric fw J M C ch' metric (fst s, snd s) = Inr (r', w')" using answer(4) by simp
  have "groups_present (IsGroup ?meta) []" by (simp add: groups_present_def)
  from ConsumeMetric_stores [OF assms(3,2) json_round_tripD(2) [OF assms(4)] this answer(1), unfolded loc,
      OF answer(2,3) run]
  show "info_at M (metricInfo r') nn = Some (Some (old ++\<^sub>f pod_counts ?meta))"
    by simp
  fix k
  have "map_get (NPod ?meta) (k @ ''.pod'') =
      (if pods_under ?m k = [] then None else Some (of_nat (length (pods_under ?m k))))"
    by (simp add: service_meta_def NPod_generateMeta assms(10))
  moreover have "fmlookup (old ++\<^sub>f pod_counts ?meta) j
      = (case fmlookup (pod_counts ?meta) j of None \<Rightarrow> fmlookup old j | Some v \<Rightarrow> Some v)" for j
    by (auto simp: fmlookup_dom_iff split: option.split)
  ultimately show "fmlookup (old ++\<^sub>f pod_counts ?meta) (k @ ''.pod'') =
      (let n = of_nat (length (pods_under ?m k)) :: 64 word
       in if n = 0 then fmlookup old (k @ ''.pod'') else Some (fmt_int (sint n)))"
    by (simp add: Let_def lookup_pod_counts)
qed

theorem pod_counts_arrive_witness:
  "\<exists>q t r' info. handleTickerEvent ex_fw ex_json fmap_cmap ex_client ascending ex_interested ex_world = Inr (Some q)
     \<and> t |\<in>| fmdom q
     \<and> ConsumeMetric ex_fw ex_json fmap_cmap ex_client ascending (Some (fmupd t [] fmempty))
         (ex_interested, ex_deleted_world) = Inr (r', ex_deleted_world)
     \<and> info_at fmap_cmap (metricInfo r') ex_loc = Some (Some info) \<and> fmlookup info ''_base.pod'' = Some ''2''"
proof -
  obtain q where q: "handleTickerEvent ex_fw ex_json fmap_cmap ex_client ascending ex_interested ex_world
      = Inr (Some q)"
    using ex_ticker by blast
  have mode: "\<not> adaptive_enabled (r_env ex_interested)"
    and key: "cmap_Get fmap_cmap (interest ex_interested) (request_key ex_loc) \<noteq> None"
    and free: "slash_free ex_loc"
    and pods: "snd (queryServicePods ex_fw ex_client ex_world ex_loc) = None"
    by (simp_all add: ex_interested_facts)
  from pod_counts_arrive [OF fair_ascending fair_ascending concurrent_map_fmap_cmap json_round_trip_ex
      mode q key free pods ex_known] obtain t meta m where
    t: "t |\<in>| fmdom q" "Unmarshal_StaticMeta ex_json t = Inr meta" "meta_loc meta = ex_loc"
    and m: "querySubsetPods ex_fw ex_client ex_world (fst (queryServicePods ex_fw ex_client ex_world ex_loc)) ex_loc
      = Inr (m, None)"
    and stored: "\<And>metric s r' w' old. map_get metric t = Some [] \<Longrightarrow> only_item ex_json t ex_loc metric \<Longrightarrow>
            stored_info fmap_cmap (metricInfo (fst s)) ex_loc old \<Longrightarrow>
            ConsumeMetric ex_fw ex_json fmap_cmap ex_client ascending metric s = Inr (r', w') \<Longrightarrow>
            \<exists>info. info_at fmap_cmap (metricInfo r') ex_loc = Some (Some info)
               \<and> (\<forall>k. fmlookup info (k @ ''.pod'') =
                    (let n = of_nat (length (pods_under m k)) :: 64 word
                     in if n = 0 then fmlookup old (k @ ''.pod'') else Some (fmt_int (sint n))))"
    by blast
  let ?metric = "Some (fmupd t [] fmempty)"
  obtain r' where run: "ConsumeMetric ex_fw ex_json fmap_cmap ex_client ascending ?metric (ex_interested, ex_deleted_world)
      = Inr (r', ex_deleted_world)"
    using ex_late_answer [OF t(2,3)] by blast
  have "stored_info fmap_cmap (metricInfo ex_interested) ex_loc fmempty"
    by (simp add: stored_info_def ex_interested_def ex_reconciler_def fmap_cmap_def)
  moreover have "only_item ex_json t ex_loc ?metric" by (simp add: only_item_def)
  ultimately obtain info where
    info: "info_at fmap_cmap (metricInfo r') ex_loc = Some (Some info)"
      "\<forall>k. fmlookup info (k @ ''.pod'') = (let n = of_nat (length (pods_under m k)) :: 64 word
                     in if n = 0 then fmlookup fmempty (k @ ''.pod'') else Some (fmt_int (sint n)))"
    using stored [OF _ _ _ run, of fmempty] by auto
  have "pods_under m ''_base'' = [''v1'', ''v2'']" using ex_base_pods m by simp
  then have "fmlookup info ''_base.pod'' = Some ''2''" using spec [OF info(2), of "''_base''"] by (simp add: ex_fmt_2)
  with q t(1) run info(1) show ?thesis by blast
qed

text \<open>C25: An object is of interest from the reconciliation of a spec that differs from the one seen last,
  provided its Istio revision is in scope; and whatever the controller and the cluster do afterwards,
  every periodic event in local mode that ends without a panic asks for its pods, as long as the object
  is not deleted, when at that time its pods can be listed and the subsets known for its host have no
  nil pointer among them.\<close>

theorem reconciled_object_is_asked_for:
  assumes "concurrent_map M" "slash_free nn"
    and "Get_SmartLimiter C w nn = Inr sl" "Env_RevInScope (r_env r) (IstioRevFromLabel fw (SL_Labels sl))"
    and "SL_Spec sl \<noteq> lastUpdatePolicy r" "Reconcile fw M C nn (r, w) = Inr (r1, w1, e)"
    and "run_while (object_present C nn) (limiter_step fw J M C) (r1, w1) (r2, w2)"
    and "fair ch" "handleTickerEvent fw J M C ch r2 w2 = Inr (Some q)"
    and "\<not> adaptive_enabled (r_env r2)" "json_round_trip J (service_meta fw C w2 nn)"
    and "snd (queryServicePods fw C w2 nn) = None" "known_subsets fw C w2 nn = map Some sbs"
  shows "StaticMeta_String J (service_meta fw C w2 nn) |\<in>| fmdom q"
  using assms by (rule asked_until_deleted)

theorem reconciled_object_is_asked_for_witness:
  "\<exists>q. handleTickerEvent ex_fw ex_json fmap_cmap ex_client ascending ex_interested ex_world = Inr (Some q)
     \<and> StaticMeta_String ex_json (service_meta ex_fw ex_client ex_world ex_loc) |\<in>| fmdom q"
proof -
  let ?step = "limiter_step ex_fw ex_json fmap_cmap ex_client"
  obtain q where q: "handleTickerEvent ex_fw ex_json fmap_cmap ex_client ascending ex_interested ex_world
      = Inr (Some q)"
    using ex_ticker by blast
  have get: "Get_SmartLimiter ex_client ex_world ex_loc = Inr ex_limiter" by simp
  have scope: "Env_RevInScope (r_env ex_reconciler) (IstioRevFromLabel ex_fw (SL_Labels ex_limiter))"
    "SL_Spec ex_limiter \<noteq> lastUpdatePolicy ex_reconciler"
    by (simp_all add: ex_reconciler_def ex_env_def ex_spec_def empty_spec_def)
  have "object_present ex_client ex_loc (ex_interested, ex_world)" by (simp add: object_present_def)
  then have run: "run_while (object_present ex_client ex_loc) ?step (ex_interested, ex_world) (ex_interested, ex_world)"
    using limiter_step.outside [of ex_fw ex_json fmap_cmap ex_client ex_interested ex_world ex_world]
    by (rule run_while_step [OF run_while_refl])
  from reconciled_object_is_asked_for [OF concurrent_map_fmap_cmap ex_interested_facts(3) get scope ex_reconcile
      run fair_ascending q ex_interested_facts(1) json_round_trip_ex ex_interested_facts(4) ex_known] q
  show ?thesis by blast
qed

text \<open>C26: Reconciling a deleted object removes it from the interest map and its metrics from
  \<open>metricInfo\<close>, those of no other object. With a global rate-limit service configured, it also removes
  from the ConfigMap every descriptor whose value mentions \<open>name.namespace\<close> of the object, keeps the
  others in order, and writes the result with the resource version it read, unless the data are already
  so. Without one, or when the ConfigMap cannot be read, the cluster stays as it is.\<close>

theorem deletion_cleans_up:
  assumes "concurrent_map M" "Get_SmartLimiter C w req = Inl err" "IsNotFound err"
    and "Reconcile fw M C req (r, w) = Inr (r', w', e)"
  shows "e = None \<and> cmap_Get M (interest r') (request_key req) = None
       \<and> cmap_Get M (metricInfo r') (request_key req) = None
       \<and> (\<forall>k. k \<noteq> request_key req \<longrightarrow> cmap_Get M (interest r') k = cmap_Get M (interest r) k
            \<and> cmap_Get M (metricInfo r') k = cmap_Get M (metricInfo r) k)
       \<and> (\<forall>cm rc. global_enabled (r_env r) \<longrightarrow> Get_ConfigMap C w getConfigMapNamespaceName = Inr cm \<longrightarrow>
            holds_config fw cm (Some rc) \<longrightarrow>
            w' = (let kept = filter (\<lambda>p. case p of None \<Rightarrow> True
                        | Some d \<Rightarrow> \<not> strings_Contains (Value d) (NN_Name req @ ''.'' @ NN_Namespace req))
                      (RLC_Descriptors rc)
                  in if CM_Data cm = configmap_data fw kept then w
                     else fst (Update_ConfigMap C w ((constructConfigMap fw kept)
                            \<lparr>CM_ResourceVersion := CM_ResourceVersion cm\<rparr>))))
       \<and> (\<forall>failure. Get_ConfigMap C w getConfigMapNamespaceName = Inl failure \<longrightarrow> w' = w)
       \<and> (\<not> global_enabled (r_env r) \<longrightarrow> w' = w)"
proof -
  note deleted = Reconcile_deleted [OF assms(2-4)]
  have "w' = w" if "\<not> global_enabled (r_env r)" using deleted(6) that by (simp add: config_write_def)
  moreover have "w' = w" if "Get_ConfigMap C w getConfigMapNamespaceName = Inl failure" for failure
    using deleted(6) that by (auto simp: config_write_def refreshConfigMap_def split: if_splits)
  ultimately show ?thesis
    using deleted(1-3) deletion_config_write [of fw C r req w w'] deleted(6)
    by (simp add: concurrent_mapD [OF assms(1)])
qed

theorem deletion_cleans_up_witness:
  "\<exists>r' w' e. Reconcile ex_fw fmap_cmap ex_client ex_loc
         (ex_interested, ex_deleted_world) = Inr (r', w', e)
     \<and> cmap_Get fmap_cmap (interest r') (request_key ex_loc) = None
     \<and> map_option CM_Data (configmaps w' getConfigMapNamespaceName)
         = Some (configmap_data ex_fw [Some (ex_entry ''home.default'')])"
proof -
  obtain r' w' e where run: "Reconcile ex_fw fmap_cmap ex_client ex_loc (ex_interested, ex_deleted_world) = Inr (r', w', e)"
    using ex_deletion by blast
  let ?cm = "ex_configmap [ex_entry ''page.default'', ex_entry ''home.default'']"
  have "global_enabled (r_env ex_interested)"
    by (simp add: ex_interested_def ex_reconciler_def ex_env_def global_enabled_def)
  with deletion_cleans_up [OF concurrent_map_fmap_cmap ex_deleted_facts(1) _ run] ex_deleted_facts(2) ex_configmap_holds
    [of "[ex_entry ''page.default'', ex_entry ''home.default'']"]
  have "cmap_Get fmap_cmap (interest r') (request_key ex_loc) = None"
    and w': "w' = (if CM_Data ?cm = configmap_data ex_fw [Some (ex_entry ''home.default'')] then ex_deleted_world
      else fst (Update_ConfigMap ex_client ex_deleted_world
        ((constructConfigMap ex_fw [Some (ex_entry ''home.default'')])
           \<lparr>CM_ResourceVersion := CM_ResourceVersion ?cm\<rparr>)))"
    by (simp_all add: ex_entry_def ex_loc_def Let_def)
  then show ?thesis using run
    by (auto simp: ex_client_def constructConfigMap_loc ex_deleted_world_def)
qed

text \<open>C27: When the deletion of an object reads an old version of the ConfigMap, its update is rejected,
  and nothing tries again: the reconciliation reports no error, the object is of interest no longer
  and has no metrics, but the ConfigMap stays as it is, with all descriptors of the object.\<close>

theorem late_deletion_is_lost:
  assumes "versions_configmaps C current issued" "concurrent_map M"
    and "Get_SmartLimiter C w req = Inl err" "IsNotFound err"
    and "Get_ConfigMap C w getConfigMapNamespaceName = Inr old"
    and "current w = Some cm" "CM_ResourceVersion old \<noteq> CM_ResourceVersion cm"
    and "Reconcile fw M C req (r, w) = Inr (r', w', e)"
  shows "e = None \<and> cmap_Get M (interest r') (request_key req) = None
       \<and> cmap_Get M (metricInfo r') (request_key req) = None \<and> current w' = Some cm"
  using deletion_on_old_version [OF assms] by blast

theorem late_deletion_is_lost_witness:
  "\<exists>r' w' cm. Reconcile ex_fw fmap_cmap ex_versions ex_loc (ex_interested, ex_old_world) = Inr (r', w', None)
     \<and> now w' = Some cm \<and> holds_config ex_fw cm (Some \<lparr>RLC_Domain = ''slime'',
          RLC_Descriptors = [Some (ex_entry ''page.default''), Some (ex_entry ''home.default'')]\<rparr>)"
proof -
  obtain r' w' e where run: "Reconcile ex_fw fmap_cmap ex_versions ex_loc (ex_interested, ex_old_world)
      = Inr (r', w', e)"
    using ex_old_deletion by blast
  have gone: "Get_SmartLimiter ex_versions ex_old_world ex_loc = Inl (NotFoundError '''')"
    by (simp add: ex_versions_def)
  have "CM_ResourceVersion (configmap_at (fst ex_old_world) 0) \<noteq> CM_ResourceVersion (configmap_at (fst ex_old_world) 1)"
    by simp
  from late_deletion_is_lost [OF ex_versions_laws concurrent_map_fmap_cmap gone _ ex_old_facts(1,2) this run]
  show ?thesis using run ex_old_facts(3) by auto
qed

text \<open>C28: However the operations of \<open>Refresh\<close> and \<open>Reconcile\<close> on the shared maps interleave, the maps
  stay sound: an entry of \<open>metricInfo\<close> is the entry of its own key, every value in an entry, also in
  one that has been removed while a goroutine still writes to it, was sent for that entry's object,
  and as long as no metric is nil no pending operation of any goroutine panics.\<close>

theorem interleaved_handlers:
  assumes "reachable handler_init handler_step (sh, doing, sent)"
  shows "(\<forall>key a. fmlookup (sh_info sh) key = Some a \<longrightarrow> a < sh_next sh \<and> entry_key sh a = key)
       \<and> (\<forall>a < sh_next sh. \<forall>k v. map_get (Endpoints_Info (sh_heap sh a)) k = Some v \<longrightarrow>
            was_sent sent (entry_key sh a) k v)
       \<and> ((\<forall>(nn, args) \<in> set sent. args \<noteq> None) \<longrightarrow>
            (\<forall>i act ch. doing i = Some act \<longrightarrow> fair ch \<longrightarrow> (\<exists>next. activity_step ch act sh = Inr next)))"
proof -
  note inv = handlers.reachable_inv [OF assms]
  have "shared_inv sent sh" using inv by (simp add: handler_inv_def)
  with activity_total [OF inv] show ?thesis unfolding shared_inv_def info_ok_def by blast
qed

theorem interleaved_handlers_witness:
  "was_sent [(ex_loc, ex_args), (ex_loc, ex_args)] (entry_key (ex_shared fmempty 1) 0) ''cpu'' ''7''
   \<and> (\<exists>next. activity_step ascending (MergeInto 0 ex_loc ex_args) (ex_shared fmempty 1) = Inr next)"
proof -
  have stored: "map_get (Endpoints_Info (sh_heap (ex_shared fmempty 1) 0)) ''cpu'' = Some ''7''" "0 < sh_next (ex_shared fmempty 1)"
    by (simp_all add: ex_shared_def ex_entry_at_def ex_args_def)
  have doing: "((\<lambda>_ :: nat. None)(0 \<mapsto> MergeInto 0 ex_loc ex_args, 1 \<mapsto> PopInterest ex_loc)) 0
      = Some (MergeInto 0 ex_loc ex_args)" by simp
  have "\<forall>(nn, args) \<in> set [(ex_loc, ex_args), (ex_loc, ex_args)]. args \<noteq> None" by (simp add: ex_args_def)
  with interleaved_handlers [OF ex_race] stored doing fair_ascending show ?thesis by blast
qed

section \<open>Properties of the multicluster controller\<close>

text \<open>C29: Adding a secret registers, under the secret's name, every cluster of its data that has a
  valid kubeconfig and is not registered yet (by whatever secret), keeps all others, and calls
  the subscribers once for each cluster it registers and can make a client for. Adding it again
  changes nothing: a cluster whose client could not be made is not tried again.\<close>

theorem first_secret_wins:
  assumes "fair ch" "fair ch'"
  shows "fmlookup (cs (addMemberCluster K ch s secret c)) i =
           (case fmlookup (cs c) i of
              Some s' \<Rightarrow> Some s'
            | None \<Rightarrow> (case map_get (Secret_Data secret) i of
                 None \<Rightarrow> None | Some kubeConfig \<Rightarrow> if usable K kubeConfig then Some s else None))
       \<and> outer (addMemberCluster K ch s secret c) =
           fold (\<lambda>k x. fold (\<lambda>f. f k) (subscriber c) x)
             (new_clients K (go_range ch (map_items (Secret_Data secret))) (cs c)) (outer c)
       \<and> addMemberCluster K ch' s' secret (addMemberCluster K ch s secret c)
           = addMemberCluster K ch s secret c"
  by (intro conjI addMemberCluster_cs addMemberCluster_idem assms)
    (simp add: addMemberCluster_def add_clusters_outer assms(1))

theorem first_secret_wins_witness:
  "fmlookup (cs (addMemberCluster ex_clientcmd ascending ''s'' ex_secret ex_controller)) ''c1'' = Some ''s''
   \<and> fmlookup (cs (addMemberCluster ex_clientcmd ascending ''s'' ex_secret ex_controller)) ''c2'' = None"
  using first_secret_wins [OF fair_ascending fair_ascending, of ex_clientcmd "''s''" ex_secret ex_controller]
  by (simp add: ex_secret_def ex_controller_def New_def ex_usable)

text \<open>C30: Deleting a secret removes exactly the clusters it had registered, and calls the
  unsubscribers once for each of them and for no other.\<close>

theorem deletion_unsubscribes:
  assumes "fair ch"
  shows "(\<forall>i. fmlookup (cs (deleteMemberCluster ch s c)) i =
            (if fmlookup (cs c) i = Some s then None else fmlookup (cs c) i))
       \<and> (\<exists>gone. distinct gone \<and> set gone = {i. fmlookup (cs c) i = Some s}
            \<and> outer (deleteMemberCluster ch s c)
                = fold (\<lambda>i x. fold (\<lambda>f. f i) (unSubscriber c) x) gone (outer c))"
proof (intro conjI exI allI)
  let ?gone = "map fst (filter (\<lambda>(i, cl). cl = s) (go_range ch (cs c)))"
  show "outer (deleteMemberCluster ch s c)
      = fold (\<lambda>i x. fold (\<lambda>f. f i) (unSubscriber c) x) ?gone (outer c)"
    by (simp add: deleteMemberCluster_def delete_clusters_outer)
  show "distinct ?gone"
    using assms by (intro distinct_map_filter) simp
  show "set ?gone = {i. fmlookup (cs c) i = Some s}"
    using assms by (force simp: image_iff)
qed (rule deleteMemberCluster_cs [OF assms])

theorem deletion_unsubscribes_witness:
  "fmlookup (cs (deleteMemberCluster ascending ''s''
      (addMemberCluster ex_clientcmd ascending ''s'' ex_secret ex_controller))) ''c1'' = None"
  using deletion_unsubscribes [OF fair_ascending, of "''s''"
      "addMemberCluster ex_clientcmd ascending ''s'' ex_secret ex_controller"]
  by (simp add: addMemberCluster_cs ex_secret_def ex_controller_def New_def ex_usable)

text \<open>C31: However often the worker runs and whatever the informer's cache answers, no item is put
  back into the queue more than three times in a row.\<close>

theorem requeues_are_bounded:
  assumes "counts_requeues W" "\<forall>k. wq_NumRequeues W q k \<le> 3"
  shows "\<forall>k. wq_NumRequeues W (fst (fold (runWorker K W) runs (q, c))) k \<le> 3"
  using runWorker_fold_requeues [OF assms(1), of "(q, c)" K runs] assms(2) by (simp add: maxRetries_def)

theorem requeues_are_bounded_witness:
  "\<forall>k. wq_NumRequeues ex_queue (fst (fold (runWorker ex_clientcmd ex_queue)
      [replicate 9 (ascending, \<lambda>_. Inl (OtherError ''timeout''))] ((\<lambda>_. 0, [''s''], False), ex_controller))) k \<le> 3"
proof -
  have "\<forall>k. wq_NumRequeues ex_queue (\<lambda>_. 0, [''s''], False) k \<le> 3" by (simp add: ex_queue_def)
  from requeues_are_bounded [OF ex_queue_counts this] show ?thesis .
qed

text \<open>C32: From every reachable state of the multicluster controller, working off the queue in any order, a
  round for each key, empties it; then every registered cluster belongs to a secret that exists, and
  every usable cluster of a secret that was in the queue is registered, unless it was registered
  for a secret that is gone.\<close>

theorem queue_is_worked_off:
  assumes "reachable (member_init subs unsubs x) (member_step K) (secrets, queue, c)"
    and "\<forall>(ch, key) \<in> set rounds. fair ch" "distinct (map snd rounds)" "snd ` set rounds = queue"
  shows "(member_step K)\<^sup>*\<^sup>* (secrets, queue, c) (secrets, {}, work_off K secrets rounds c)
       \<and> (\<forall>i s. fmlookup (cs (work_off K secrets rounds c)) i = Some s \<longrightarrow> secrets s \<noteq> None)
       \<and> (\<forall>key \<in> queue. \<forall>s i kubeConfig. secrets key = Some s \<longrightarrow>
            map_get (Secret_Data s) i = Some kubeConfig \<longrightarrow> usable K kubeConfig \<longrightarrow>
            \<not> owned_by_gone secrets c i \<longrightarrow> kept_by secrets (work_off K secrets rounds c) i)"
  using work_off_clean [OF assms] work_off_registers [OF assms(2)] assms(4) by blast

theorem queue_is_worked_off_witness:
  "\<exists>c. reachable (member_init [\<lambda>k x. x @ [k]] [\<lambda>i x. removeAll i x] []) (member_step ex_clientcmd)
         (ex_both, {''t''}, c)
     \<and> kept_by ex_both (work_off ex_clientcmd ex_both [(ascending, ''t'')] c) ''c1''"
proof -
  obtain c where c: "reachable (member_init [\<lambda>k x. x @ [k]] [\<lambda>i x. removeAll i x] []) (member_step ex_clientcmd)
      (ex_both, {''t''}, c)" "fmlookup (cs c) ''c1'' = Some ''s''"
    using ex_second_secret by blast
  have "\<not> owned_by_gone ex_both c ''c1''" using c(2) by (simp add: owned_by_gone_def)
  with queue_is_worked_off [OF c(1), of "[(ascending, ''t'')]"] c(1) show ?thesis
    using ex_both_facts by auto
qed

text \<open>C33: A cluster that two secrets name can get lost: when the secret it was registered for is deleted
  and the queue has been worked off, the cluster is not registered, although the other secret still
  exists and has a usable kubeconfig for it.\<close>

theorem shared_cluster_is_lost:
  assumes "reachable (member_init subs unsubs x) (member_step K) (secrets, {}, c)" "fair ch"
    and "fmlookup (cs c) i = Some a" "b \<noteq> a" "secrets b = Some s"
    and "map_get (Secret_Data s) i = Some kubeConfig" "usable K kubeConfig"
  shows "\<exists>secrets' c'. (member_step K)\<^sup>*\<^sup>* (secrets, {}, c) (secrets', {}, c')
           \<and> secrets' b = Some s \<and> fmlookup (cs c') i = None"
  using shared_cluster_lost [OF assms(3,2), of K secrets] assms(4,5) by (metis fun_upd_other)

theorem shared_cluster_is_lost_witness:
  "\<exists>c secrets' c'. reachable (member_init [\<lambda>k x. x @ [k]] [\<lambda>i x. removeAll i x] []) (member_step ex_clientcmd)
         (ex_both, {}, c)
     \<and> (member_step ex_clientcmd)\<^sup>*\<^sup>* (ex_both, {}, c) (secrets', {}, c')
     \<and> secrets' ''t'' = Some ex_secret \<and> fmlookup (cs c') ''c1'' = None"
proof -
  obtain c where c: "reachable (member_init [\<lambda>k x. x @ [k]] [\<lambda>i x. removeAll i x] []) (member_step ex_clientcmd)
      (ex_both, {}, c)" "fmlookup (cs c) ''c1'' = Some ''s''"
    using ex_both_registered by blast
  from shared_cluster_is_lost [OF c(1) fair_ascending c(2) _ ex_both_facts(1,3,4)] c(1) show ?thesis by auto
qed

text \<open>C34: The worker of the multicluster controller ends exactly when its queue is shut down: the loop
  returns if and only if the queue is shutting down when it starts or in some later round, whatever
  else happens. When it returns, the queue is empty, and the registry is what processing certain keys,
  each in a round of its own, one after the other, has made of the one it started with. Among these are
  all keys that were in the queue when it started, and every key that was added to the queue before it
  was shut down, which is processed no earlier than in the round of the addition. (A key whose processing
  fails once the queue is shutting down has been processed in this sense, and is not tried again.)\<close>

theorem worker_ends_when_shut_down:
  assumes "drains_when_shut_down W" "hands_out W keys"
  shows "((\<exists>t. worker_loop K W env 0 s = Some t) \<longleftrightarrow>
            wq_ShuttingDown W (fst s) \<or> (\<exists>i. ShutDown \<in> set (fst (env i))))
       \<and> (\<forall>t. worker_loop K W env 0 s = Some t \<longrightarrow> wq_Len W (fst t) = 0
            \<and> (\<exists>hs. sorted_wrt (<) (map fst hs)
                 \<and> snd t = fold (\<lambda>(i, k) c. fst (processItem K (fst (snd (env i))) (snd (snd (env i))) k c)) hs (snd s)
                 \<and> (\<forall>k \<in> keys (fst s). \<exists>j. (j, k) \<in> set hs)
                 \<and> (\<not> wq_ShuttingDown W (fst s) \<longrightarrow> (\<forall>i us k vs.
                      fst (env i) = us @ Added k # vs \<longrightarrow> ShutDown \<notin> set us \<longrightarrow>
                      (\<forall>j < i. ShutDown \<notin> set (fst (env j))) \<longrightarrow> (\<exists>j \<ge> i. (j, k) \<in> set hs)))))"
proof (intro conjI allI impI)
  fix t assume run: "worker_loop K W env 0 s = Some t"
  show "wq_Len W (fst t) = 0" by (rule worker_loop_empties [OF run assms(1)])
  from worker_loop_handles [OF run assms] obtain hs where hs: "sorted_wrt (<) (map fst hs)"
    "snd t = fold (process_in K env) hs (snd s)" "\<forall>k \<in> keys (fst s). \<exists>j. (j, k) \<in> set hs"
    "\<not> wq_ShuttingDown W (fst s) \<longrightarrow> (\<forall>i k. added_in env 0 i k \<longrightarrow> (\<exists>j \<ge> i. (j, k) \<in> set hs))" by blast
  then show "\<exists>hs. sorted_wrt (<) (map fst hs)
      \<and> snd t = fold (\<lambda>(i, k) c. fst (processItem K (fst (snd (env i))) (snd (snd (env i))) k c)) hs (snd s)
      \<and> (\<forall>k \<in> keys (fst s). \<exists>j. (j, k) \<in> set hs)
      \<and> (\<not> wq_ShuttingDown W (fst s) \<longrightarrow> (\<forall>i us k vs.
           fst (env i) = us @ Added k # vs \<longrightarrow> ShutDown \<notin> set us \<longrightarrow>
           (\<forall>j < i. ShutDown \<notin> set (fst (env j))) \<longrightarrow> (\<exists>j \<ge> i. (j, k) \<in> set hs)))"
    unfolding process_in_def added_in_def
    by (intro exI [of _ hs]) (simp only: atLeastLessThan_iff le0 simp_thms Ball_def, blast)
qed (rule worker_loop_returns_iff [OF assms(1)])

theorem worker_ends_when_shut_down_witness:
  "\<exists>t. worker_loop ex_clientcmd ex_queue ex_rounds 0 ((\<lambda>_. 0, [], False), ex_controller) = Some t
     \<and> wq_Len ex_queue (fst t) = 0 \<and> fmlookup (cs (snd t)) ''c1'' = Some ''s''"
proof -
  let ?s = "((\<lambda>_. 0, [], False), ex_controller) :: ((string \<Rightarrow> nat) \<times> string list \<times> bool) \<times> _"
  note main = worker_ends_when_shut_down [OF ex_queue_drains ex_queue_hands_out, of ex_clientcmd ex_rounds ?s]
  have "ShutDown \<in> set (fst (ex_rounds 2))" by (simp add: ex_rounds_def)
  with main obtain t where t: "worker_loop ex_clientcmd ex_queue ex_rounds 0 ?s = Some t" by blast
  have events: "fst (ex_rounds 2) = [] @ Added ''s'' # [ShutDown]" "\<forall>j < 2. ShutDown \<notin> set (fst (ex_rounds j))"
    and open_queue: "\<not> wq_ShuttingDown ex_queue (fst ?s)"
    by (simp_all add: ex_rounds_def ex_queue_def)
  from main t obtain hs where "wq_Len ex_queue (fst t) = 0" and
    hs: "snd t = fold (\<lambda>(i, k) c. fst (processItem ex_clientcmd (fst (snd (ex_rounds i))) (snd (snd (ex_rounds i))) k c))
      hs (snd ?s)" and
    added: "\<not> wq_ShuttingDown ex_queue (fst ?s) \<longrightarrow> (\<forall>i us k vs. fst (ex_rounds i) = us @ Added k # vs \<longrightarrow>
      ShutDown \<notin> set us \<longrightarrow> (\<forall>j < i. ShutDown \<notin> set (fst (ex_rounds j))) \<longrightarrow> (\<exists>j \<ge> i. (j, k) \<in> set hs))"
    by blast
  have "\<exists>j \<ge> 2. (j, ''s'') \<in> set hs"
    by (rule added [rule_format, OF open_queue events(1) _ events(2) [rule_format]]) simp_all
  then obtain j where "(j, ''s'') \<in> set hs" by blast
  then have "fmlookup (cs (snd t)) ''c1'' = Some ''s''"
    unfolding hs by (rule ex_processed) (simp add: ex_controller_def New_def)
  with t \<open>wq_Len ex_queue (fst t) = 0\<close> show ?thesis by blast
qed

text \<open>C35: \<open>Run\<close> does not end once a worker has started: it returns only when the stop channel is closed
  before, and then no secret has been processed, and the queue is shut down; once a worker has
  started it is in its loop in every later state, stop channel closed or not, because the queue is
  shut down only by the return of \<open>Run\<close>, which waits for the worker.\<close>

theorem run_outlives_stop:
  assumes "drains_when_shut_down W" "reachable (run_init W c0) (run_step K W) (pc, stop, q, c)"
  shows "(pc = Returned \<longrightarrow> stop \<and> c = c0 \<and> wq_ShuttingDown W q)
       \<and> (pc \<noteq> Returned \<longrightarrow> \<not> wq_ShuttingDown W q)
       \<and> (pc = Working \<longrightarrow> (\<forall>t. (run_step K W)\<^sup>*\<^sup>* (pc, stop, q, c) t \<longrightarrow> fst t = Working))"
proof -
  note inv = run_reachable_inv [OF assms]
  then have "(pc = Returned \<longrightarrow> stop \<and> c = c0 \<and> wq_ShuttingDown W q) \<and> (pc \<noteq> Returned \<longrightarrow> \<not> wq_ShuttingDown W q)"
    by (auto simp: run_inv_def)
  with working_forever [OF assms(1)] inv show ?thesis by blast
qed

theorem run_outlives_stop_witness:
  "\<not> (\<exists>stop q c. (run_step ex_clientcmd ex_queue)\<^sup>*\<^sup>*
          (Working, True, (\<lambda>_. 0, [''s''], False), ex_controller) (Returned, stop, q, c))
   \<and> reachable (run_init ex_queue ex_controller) (run_step ex_clientcmd ex_queue)
       (Working, True, (\<lambda>_. 0, [''s''], False), ex_controller)"
proof -
  have "\<forall>t. (run_step ex_clientcmd ex_queue)\<^sup>*\<^sup>* (Working, True, (\<lambda>_. 0, [''s''], False), ex_controller) t
      \<longrightarrow> fst t = Working"
    using run_outlives_stop [OF ex_queue_drains ex_working] by blast
  with ex_working show ?thesis by fastforce
qed

section \<open>Properties of the deep copies\<close>

text \<open>C36: The deep copy of a list of SmartLimiters stands for the same value as the original, in the
  order in which maps happen to be visited or any other, leaves the original as it was, and
  everything it owns is newly allocated.\<close>

theorem deep_copy_is_equal:
  assumes "fair ch" "copier val_meta own_meta none copy_meta"
    and "copier val_list_meta own_list_meta none copy_list_meta"
    and "own_pointer list_cell (own_SmartLimiterList own_meta own_list_meta) h p \<subseteq> {..<lim h}"
    and "shared_pointer list_cell shared_SmartLimiterList h p \<subseteq> {..<lim h}"
    and "SmartLimiterList_DeepCopyObject copy_meta copy_list_meta ch p h = (p', h')"
  shows "val_pointer list_cell (val_SmartLimiterList val_meta val_list_meta) h' p'
           = val_pointer list_cell (val_SmartLimiterList val_meta val_list_meta) h p
       \<and> val_pointer list_cell (val_SmartLimiterList val_meta val_list_meta) h' p
           = val_pointer list_cell (val_SmartLimiterList val_meta val_list_meta) h p
       \<and> own_pointer list_cell (own_SmartLimiterList own_meta own_list_meta) h' p' \<subseteq> {lim h..<lim h'}"
  using copier.copy_preserves [OF copier_SmartLimiterList_pointer [OF assms(1-3)] assms(4-6)] by simp

theorem deep_copy_is_equal_witness:
  "\<exists>p' h'. SmartLimiterList_DeepCopyObject ex_copy_meta copy_value ascending (Some 9) ex_store = (p', h')
     \<and> val_pointer list_cell (val_SmartLimiterList (val_pointer strmap_cell (\<lambda>h x. x)) (\<lambda>h x. x)) h' p' \<noteq> None"
proof -
  obtain p' h' where run: "SmartLimiterList_DeepCopyObject ex_copy_meta copy_value ascending (Some 9) ex_store = (p', h')"
    by fastforce
  have "own_pointer list_cell (own_SmartLimiterList ex_own_meta none) ex_store (Some 9) \<subseteq> {..<lim ex_store}"
    "shared_pointer list_cell shared_SmartLimiterList ex_store (Some 9) \<subseteq> {..<lim ex_store}"
    by (simp_all add: ex_store_owned)
  from deep_copy_is_equal [OF fair_ascending ex_meta_copier ex_list_meta_copier this run] run show ?thesis
    by (auto simp: val_pointer_def)
qed

text \<open>C37: A deep copy of a SmartLimiter and the original are independent but for the arrays of routes
  and hosts of the targets: no later change of the objects the copy owns changes the value of
  the original, nor the other way round; the arrays they share are those of the original.\<close>

theorem deep_copy_is_independent:
  assumes "fair ch" "copier val_meta own_meta none copy_meta"
    and "own_pointer limiter_cell (own_SmartLimiter own_meta) h p \<subseteq> {..<lim h}"
    and "shared_pointer limiter_cell shared_SmartLimiter h p \<subseteq> {..<lim h}"
    and "own_pointer limiter_cell (own_SmartLimiter own_meta) h p
           \<inter> shared_pointer limiter_cell shared_SmartLimiter h p = {}"
    and "SmartLimiter_DeepCopy copy_meta ch p h = (p', h')"
  shows "(\<forall>s. agree (- own_pointer limiter_cell (own_SmartLimiter own_meta) h' p') h' s \<longrightarrow>
            val_pointer limiter_cell (val_SmartLimiter val_meta) s p
              = val_pointer limiter_cell (val_SmartLimiter val_meta) h p)
       \<and> (\<forall>s. agree (- own_pointer limiter_cell (own_SmartLimiter own_meta) h p) h' s \<longrightarrow>
            val_pointer limiter_cell (val_SmartLimiter val_meta) s p'
              = val_pointer limiter_cell (val_SmartLimiter val_meta) h p)
       \<and> own_pointer limiter_cell (own_SmartLimiter own_meta) h' p'
           \<inter> own_pointer limiter_cell (own_SmartLimiter own_meta) h p = {}
       \<and> shared_pointer limiter_cell shared_SmartLimiter h' p'
           = shared_pointer limiter_cell shared_SmartLimiter h p"
proof -
  note cp = copier_SmartLimiter_pointer [OF assms(1,2)]
  show ?thesis
    using copier.later_changes [OF cp assms(3,4,6)] copier.copy_preserves [OF cp assms(3,4,6)] assms(5)
    by blast
qed

theorem deep_copy_is_independent_witness:
  "\<exists>p' h'. SmartLimiter_DeepCopy ex_copy_meta ascending (Some 0) ex_store = (p', h')
     \<and> shared_pointer limiter_cell shared_SmartLimiter h' p' = {6}
     \<and> 0 \<notin> own_pointer limiter_cell (own_SmartLimiter ex_own_meta) h' p'"
proof -
  obtain p' h' where run: "SmartLimiter_DeepCopy ex_copy_meta ascending (Some 0) ex_store = (p', h')"
    by fastforce
  have "own_pointer limiter_cell (own_SmartLimiter ex_own_meta) ex_store (Some 0) \<subseteq> {..<lim ex_store}"
    "shared_pointer limiter_cell shared_SmartLimiter ex_store (Some 0) \<subseteq> {..<lim ex_store}"
    "own_pointer limiter_cell (own_SmartLimiter ex_own_meta) ex_store (Some 0)
       \<inter> shared_pointer limiter_cell shared_SmartLimiter ex_store (Some 0) = {}"
    by (simp_all add: ex_store_owned)
  from deep_copy_is_independent [OF fair_ascending ex_meta_copier this run] run show ?thesis
    by (auto simp: ex_store_owned)
qed

text \<open>C38: The copy of a target is not deep: a route that is changed through the copy is changed in the
  original, too.\<close>

theorem copied_target_shares_routes:
  assumes "Target_DeepCopy (Some a) h = (Some b, h')" "a < lim h" "to_Route (target_cell h a) = Some r"
  shows "b \<noteq> a \<and> to_Route (target_cell h' b) = Some r
       \<and> (\<forall>routes. let s = strings_cell_update (\<lambda>f. f(r := routes)) h'
                   in Route (val_Target s (target_cell s b)) = Some routes
                    \<and> Route (val_Target s (target_cell s a)) = Some routes)"
  using Target_DeepCopy_arrays [OF assms(1,2)] assms(3) by (auto simp: val_Target_def Let_def)

theorem copied_target_shares_routes_witness:
  "\<exists>b h'. Target_DeepCopy (Some 5) ex_store = (Some b, h') \<and> to_Route (target_cell h' b) = Some 6"
proof -
  obtain p h' where "Target_DeepCopy (Some 5) ex_store = (p, h')" by fastforce
  moreover from this obtain b where "p = Some b"
    using Target_DeepCopy_arrays by (fastforce simp: ex_store_owned)
  ultimately have run: "Target_DeepCopy (Some 5) ex_store = (Some b, h')" by simp
  have "5 < lim ex_store" "to_Route (target_cell ex_store 5) = Some 6" by (simp_all add: ex_store_owned)
  from copied_target_shares_routes [OF run this] run show ?thesis by blast
qed

section \<open>Properties of the composed program\<close>

text \<open>C39: From a metric to the cluster: when a metric for one object is consumed without a panic, none of its
  group results is nil, and no call to the API server fails, the stored EnvoyFilters of the object's
  sets are what its spec asks for, evaluated with exactly the values known before, overridden by the
  samples of the metric and these by its pod counts; no other EnvoyFilter changes. The samples are the
  values of the results with a single one, in order, except that a group result takes the place of all
  results before it.\<close>

theorem metric_reaches_the_cluster:
  assumes "fair ch" "converts_messages fw" "copies_maps fw" "concurrent_map M"
    and "stores_envoyfilters C stored" "sets_owner_only fw" "never_fails fw C"
    and "Unmarshal_StaticMeta J t = Inr meta"
    and "\<forall>result \<in> set rs. map_get (IsGroup meta) (Result_Name result) = Some True \<longrightarrow> Result_Value result \<noteq> None"
    and "object_loc sl = \<lparr>NN_Namespace = Meta_Namespace meta, NN_Name = Meta_Name meta\<rparr>"
    and "Get_SmartLimiter C w (object_loc sl) = Inr sl" "Sets (SL_Spec sl) \<noteq> None"
    and "Get_Service C w (object_loc sl) = Inr svc" "host_sets fw C w (object_loc sl) = Inr (map Some sbs)"
    and "cmap_Get M (metricInfo r) (request_key (object_loc sl)) = None \<and> old = fmempty
       \<or> info_at M (metricInfo r) (object_loc sl) = Some (Some old)"
    and "ConsumeMetric fw J M C ch (Some (fmupd t rs fmempty)) (r, w) = Inr (r', w')"
  shows "(\<forall>k \<in> Subset_Name ` set sbs. \<exists>spec.
            wanted_spec fw sl (MapToMapInterface fw (Some (old ++\<^sub>f (gathered (IsGroup meta) rs fmempty ++\<^sub>f pod_counts meta))))
              (Service_Selector svc) sbs k spec
          \<and> as_wanted fw sl spec (stored w (set_loc fw sl k)) (stored w' (set_loc fw sl k)))
       \<and> (\<forall>loc. loc \<notin> set_loc fw sl ` Subset_Name ` set sbs \<longrightarrow> stored w' loc = stored w loc)"
proof -
  obtain ch' e where "fair ch'" and run: "refresh fw M C ch' r' sl w = Inr (w', e)"
    and material: "getMaterial fw M r' (object_loc sl)
      = Some (old ++\<^sub>f (gathered (IsGroup meta) rs fmempty ++\<^sub>f pod_counts meta))"
    using ConsumeMetric_one [OF assms(4,1,3,8) assms(9) [folded groups_present_def] assms(11,10,15,16)] by blast
  from refresh_reconciles [OF \<open>fair ch'\<close> assms(2,3,5,6,12,13,14) run]
    never_fails_calls_succeed [OF assms(7)] show ?thesis
    unfolding material by blast
qed

theorem metric_reaches_the_cluster_witness:
  "\<exists>r' w'. ConsumeMetric ex_fw ex_json fmap_cmap ex_client0 ascending
        (Some (fmupd (StaticMeta_String ex_json (ex_meta [(''v1.pod'', 2)])) [] fmempty))
        (ex_reconciler, ex_world) = Inr (r', w')
     \<and> (\<exists>cr. envoyfilters w' (set_loc ex_fw ex_limiter ''_base'') = Some cr)
     \<and> envoyfilters w' \<lparr>NN_Namespace = ''default'', NN_Name = ''other''\<rparr> = None"
proof -
  let ?meta = "ex_meta [(''v1.pod'', 2)]"
  let ?t = "StaticMeta_String ex_json ?meta"
  have decoded: "Unmarshal_StaticMeta ex_json ?t = Inr ?meta"
    by (rule json_round_tripD(2)) simp
  have nogroup: "\<forall>result \<in> set []. map_get (IsGroup ?meta) (Result_Name result) = Some True
      \<longrightarrow> Result_Value result \<noteq> None" by simp
  have loc: "object_loc ex_limiter = \<lparr>NN_Namespace = Meta_Namespace ?meta, NN_Name = Meta_Name ?meta\<rparr>"
    by (simp add: ex_meta_def ex_loc_def)
  have fresh: "cmap_Get fmap_cmap (metricInfo ex_reconciler) (request_key (object_loc ex_limiter)) = None
      \<and> fmempty = fmempty
    \<or> info_at fmap_cmap (metricInfo ex_reconciler) (object_loc ex_limiter) = Some (Some fmempty)"
    by (simp add: ex_reconciler_def fmap_cmap_def)
  have get: "Get_SmartLimiter ex_client0 ex_world (object_loc ex_limiter) = Inr ex_limiter"
    by (simp add: ex_client0_def ex_client_def ex_world_def found_def)
  have service: "Get_Service ex_client0 ex_world (object_loc ex_limiter) = Inr ex_service"
    and sets: "host_sets ex_fw ex_client0 ex_world (object_loc ex_limiter) = Inr (map Some ex_sets)" by simp_all
  obtain r' w' where run: "ConsumeMetric ex_fw ex_json fmap_cmap ex_client0 ascending
      (Some (fmupd ?t [] fmempty)) (ex_reconciler, ex_world) = Inr (r', w')"
    using ex_consume by blast
  note main = metric_reaches_the_cluster [OF fair_ascending ex_fw_laws(2,1) concurrent_map_fmap_cmap
      ex_client0_laws(1) ex_fw_laws(3) ex_client0_laws(2) decoded nogroup loc get ex_sets(1) service sets
      fresh run]
  have before: "envoyfilters ex_world loc = None" for loc by (simp add: ex_world_def)
  have "envoyfilters w' \<lparr>NN_Namespace = ''default'', NN_Name = ''other''\<rparr> = None"
    using main before by (auto simp: ex_sets_def ex_subset_def set_loc_def envoyfilter_name_def ex_limiter_def)
  moreover have "\<exists>cr. envoyfilters w' (set_loc ex_fw ex_limiter ''_base'') = Some cr"
    using main before by (auto simp: ex_sets_def intro: ex_base_stored)
  ultimately show ?thesis using run by blast
qed

text \<open>C40: A refresh converges: as long as no call to the API server and no conversion fails, the service, its
  sets and the metrics stay as they are, and the maps are visited in the same order while the specs are
  built, a second refresh leaves every stored EnvoyFilter of the cluster as the first one left it, in
  whatever order it visits them.\<close>

theorem refresh_converges:
  assumes "stores_envoyfilters C stored" "sets_owner_only fw" "never_fails fw C"
    and "fair ch" "fair ch'" "ch_left ch' = ch_left ch"
    and "refresh fw M C ch r sl w = Inr (w', e)" "refresh fw M C ch' r sl w' = Inr (w'', e')"
    and "Get_Service C w' (object_loc sl) = Get_Service C w (object_loc sl)"
    and "host_sets fw C w' (object_loc sl) = host_sets fw C w (object_loc sl)"
  shows "stored w'' = stored w'"
  using assms by (rule refresh_converged)

theorem refresh_converges_witness:
  "\<exists>w' w'' e e'. refresh ex_fw fmap_cmap ex_client0 ascending ex_reconciler ex_limiter ex_world = Inr (w', e)
     \<and> refresh ex_fw fmap_cmap ex_client0 ascending ex_reconciler ex_limiter w' = Inr (w'', e')
     \<and> envoyfilters w'' = envoyfilters w'"
proof -
  obtain w' e where run:
    "refresh ex_fw fmap_cmap ex_client0 ascending ex_reconciler ex_limiter ex_world = Inr (w', e)"
    using ex_refresh by blast
  note reads = ex_refresh_reads [OF run]
  obtain w'' e' where run': "refresh ex_fw fmap_cmap ex_client0 ascending ex_reconciler ex_limiter w' = Inr (w'', e')"
    using refresh_total [of ascending ex_fw ex_limiter ex_client0 w' ex_sets fmap_cmap ex_reconciler]
    by (auto simp: reads)
  from refresh_converges [OF ex_client0_laws(1) ex_fw_laws(3) ex_client0_laws(2) fair_ascending fair_ascending
      refl run run' reads] run run' show ?thesis by blast
qed

end
